(* ===== verification/Ttrpc_Prelude.thy ===== *)
theory Ttrpc_Prelude
  imports Main "HOL-Library.Word"
begin

text \<open>
  Shared types, automation and lemmas of the ttrpc development.

  \<^item> Go's byte slices: a slice is \<open>None\<close> when it is \<open>nil\<close> and \<open>Some bs\<close> otherwise; the
    code distinguishes the two (\<open>response.data == nil\<close>, \<open>req.Payload != nil\<close>).
  \<^item> Go's buffered channels: a capacity, the queued values and the closed flag.
  \<^item> Reachability of a step relation and the invariant rule, as a locale that the client
    and the server connection interpret.
\<close>

unbundle bit_operations_syntax

section \<open>Machine types\<close>

type_synonym u8 = "8 word"
type_synonym u32 = "32 word"
type_synonym bytes = "u8 list"
type_synonym gobytes = "bytes option"

definition slice :: "gobytes \<Rightarrow> bytes" where
  "slice p = (case p of None \<Rightarrow> [] | Some bs \<Rightarrow> bs)"

definition slice_len :: "gobytes \<Rightarrow> nat" where
  "slice_len p = length (slice p)"

lemma slice_simps [simp]:
  "slice None = []" "slice (Some bs) = bs"
  "slice_len None = 0" "slice_len (Some bs) = length bs"
  by (simp_all add: slice_def slice_len_def)

named_theorems wire_simps \<open>definitions of the framing layer\<close>
named_theorems chan_simps \<open>definitions of the channel operations\<close>
named_theorems state_simps \<open>definitions of the operations on component states\<close>

section \<open>Words\<close>

lemma unat_u32_of_nat: "n < 4294967296 \<Longrightarrow> unat (word_of_nat n :: u32) = n"
  by (simp add: unsigned_of_nat take_bit_nat_eq_self)

lemma u32_le_numeral: "n < 4294967296 \<Longrightarrow> m < 4294967296 \<Longrightarrow>
  (word_of_nat n :: u32) \<le> word_of_nat m \<longleftrightarrow> n \<le> m"
  by (simp add: word_le_nat_alt unat_u32_of_nat)

lemma unat_u32_bound: "unat (w :: u32) < 4294967296"
  using unsigned_less [of w] by simp

lemma u8_high_bits [simp]:
  "\<not> bit (b :: u8) (8 + n)" "\<not> bit (b :: u8) (16 + n)" "\<not> bit (b :: u8) (24 + n)"
  by (auto dest: bit_imp_le_length)

lemma length4E:
  assumes "length b = 4"
  obtains b0 b1 b2 b3 where "b = [b0, b1, b2, b3]"
proof -
  from assms have "length b = Suc (Suc (Suc (Suc 0)))" by simp
  then show thesis by (auto simp: length_Suc_conv intro: that)
qed

section \<open>Lists\<close>

lemma nth_update_if: "(xs[i := x]) ! j = (if i = j \<and> j < length xs then x else xs ! j)"
  by (cases "i = j") (auto simp: list_update_beyond)

section \<open>Buffered channels\<close>

text \<open>
  A Go channel made with \<open>make(chan T, n)\<close>. A send proceeds when there is room, blocks when
  the buffer is full and panics when the channel is closed; a receive takes the oldest value,
  and yields the zero value with \<open>ok = false\<close> when the channel is closed and drained.
\<close>

record 'a chan =
  chan_cap :: nat
  chan_buf :: "'a list"
  chan_closed :: bool

datatype 'a chan_sent = Sent "'a chan" | SendBlocks | SendPanics

datatype 'a chan_received = Received 'a "'a chan" | ReceivedClosed | ReceiveBlocks

definition make_chan :: "nat \<Rightarrow> 'a chan" where
  "make_chan n = \<lparr>chan_cap = n, chan_buf = [], chan_closed = False\<rparr>"

definition chan_send :: "'a \<Rightarrow> 'a chan \<Rightarrow> 'a chan_sent" where
  "chan_send x c =
     (if chan_closed c then SendPanics
      else if length (chan_buf c) < chan_cap c then Sent (c\<lparr>chan_buf := chan_buf c @ [x]\<rparr>)
      else SendBlocks)"

definition chan_recv :: "'a chan \<Rightarrow> 'a chan_received" where
  "chan_recv c =
     (case chan_buf c of
        x # xs \<Rightarrow> Received x (c\<lparr>chan_buf := xs\<rparr>)
      | [] \<Rightarrow> if chan_closed c then ReceivedClosed else ReceiveBlocks)"

definition chan_close :: "'a chan \<Rightarrow> 'a chan" where
  "chan_close c = c\<lparr>chan_closed := True\<rparr>"

definition chan_ok :: "'a chan \<Rightarrow> bool" where
  "chan_ok c \<longleftrightarrow> length (chan_buf c) \<le> chan_cap c"

lemma make_chan_simps [simp]:
  "chan_cap (make_chan n) = n" "chan_buf (make_chan n) = []" "\<not> chan_closed (make_chan n)"
  by (simp_all add: make_chan_def)

lemma chan_close_simps [simp]:
  "chan_cap (chan_close c) = chan_cap c" "chan_buf (chan_close c) = chan_buf c"
  "chan_closed (chan_close c)"
  by (simp_all add: chan_close_def)

lemma chan_send_Sent:
  "chan_send x c = Sent c' \<longleftrightarrow>
     \<not> chan_closed c \<and> length (chan_buf c) < chan_cap c \<and>
     c' = c\<lparr>chan_buf := chan_buf c @ [x]\<rparr>"
  by (auto simp: chan_send_def)

lemma chan_send_other:
  "chan_send x c = SendPanics \<longleftrightarrow> chan_closed c"
  "chan_send x c = SendBlocks \<longleftrightarrow> \<not> chan_closed c \<and> chan_cap c \<le> length (chan_buf c)"
  by (auto simp: chan_send_def)

lemma chan_recv_Received:
  "chan_recv c = Received x c' \<longleftrightarrow>
     (\<exists>xs. chan_buf c = x # xs \<and> c' = c\<lparr>chan_buf := xs\<rparr>)"
  by (auto simp: chan_recv_def split: list.splits)

lemma chan_recv_other:
  "chan_recv c = ReceivedClosed \<longleftrightarrow> chan_buf c = [] \<and> chan_closed c"
  "chan_recv c = ReceiveBlocks \<longleftrightarrow> chan_buf c = [] \<and> \<not> chan_closed c"
  by (auto simp: chan_recv_def split: list.splits)

lemmas chan_cases = chan_send_Sent chan_send_other chan_recv_Received chan_recv_other

section \<open>Reachable states\<close>

inductive reach :: "('s \<Rightarrow> bool) \<Rightarrow> ('s \<Rightarrow> 's \<Rightarrow> bool) \<Rightarrow> 's \<Rightarrow> bool"
  for start :: "'s \<Rightarrow> bool" and step :: "'s \<Rightarrow> 's \<Rightarrow> bool" where
  reach_start: "start s \<Longrightarrow> reach start step s"
| reach_step: "reach start step s \<Longrightarrow> step s t \<Longrightarrow> reach start step t"

locale step_invariant =
  fixes start :: "'s \<Rightarrow> bool"
    and step :: "'s \<Rightarrow> 's \<Rightarrow> bool"
    and inv :: "'s \<Rightarrow> bool"
  assumes inv_start: "start s \<Longrightarrow> inv s"
    and inv_step: "step s t \<Longrightarrow> inv s \<Longrightarrow> inv t"
begin

lemma inv_reach: "reach start step s \<Longrightarrow> inv s"
  by (induction rule: reach.induct) (auto intro: inv_start inv_step)

lemma inv_star: "step\<^sup>*\<^sup>* s t \<Longrightarrow> inv s \<Longrightarrow> inv t"
  by (induction rule: rtranclp_induct) (auto intro: inv_step)

end

text \<open>
  An invariant about something that the state does not hold, such as the messages that a component has
  written or that lie before it.
\<close>

locale traced = step_invariant start step inv
  for start :: "'s \<Rightarrow> bool" and step :: "'s \<Rightarrow> 's \<Rightarrow> bool" and inv :: "'s \<Rightarrow> bool" +
  fixes trace :: "'s \<Rightarrow> 't \<Rightarrow> bool"
  assumes trace_start: "start s \<Longrightarrow> \<exists>x. trace s x"
    and trace_step: "step s t \<Longrightarrow> inv s \<Longrightarrow> trace s x \<Longrightarrow> \<exists>y. trace t y"

sublocale traced \<subseteq> with_trace: step_invariant start step "\<lambda>s. inv s \<and> (\<exists>x. trace s x)"
  by unfold_locales (use inv_start inv_step trace_start trace_step in blast)+

context traced
begin

lemma trace_reach:
  assumes "reach start step s"
  obtains x where "inv s" "trace s x"
  using with_trace.inv_reach [OF assms] by blast

end

text \<open>
  A refinement: every step of the detailed system is a step of the abstract one, or none, on the
  abstracted states.
\<close>

locale refinement = step_invariant start step inv
  for start :: "'s \<Rightarrow> bool" and step :: "'s \<Rightarrow> 's \<Rightarrow> bool" and inv :: "'s \<Rightarrow> bool" +
  fixes astart :: "'a \<Rightarrow> bool"
    and astep :: "'a \<Rightarrow> 'a \<Rightarrow> bool"
    and abstr :: "'s \<Rightarrow> 'a"
  assumes sim_start: "start s \<Longrightarrow> astart (abstr s)"
    and sim_step: "step s t \<Longrightarrow> inv s \<Longrightarrow> astep (abstr s) (abstr t) \<or> abstr t = abstr s"
begin

lemma sim_reach: "reach start step s \<Longrightarrow> reach astart astep (abstr s)"
proof (induction rule: reach.induct)
  case (reach_start s)
  then show ?case by (intro reach.reach_start sim_start)
next
  case (reach_step s t)
  from sim_step [OF reach_step.hyps(2) inv_reach [OF reach_step.hyps(1)]] show ?case
    using reach_step.IH by (auto intro: reach.reach_step)
qed

end

lemma reach_star: "reach start step s \<Longrightarrow> step\<^sup>*\<^sup>* s t \<Longrightarrow> reach start step t"
  by (rotate_tac 1, induction rule: rtranclp_induct) (auto intro: reach_step)

lemma reach_weaken: "reach start step s \<Longrightarrow> (\<And>s. start s \<Longrightarrow> start' s) \<Longrightarrow> reach start' step s"
  by (induction rule: reach.induct) (auto intro: reach.intros)

end
