(* ===== verification/Ttrpc_Errors.thy ===== *)
theory Ttrpc_Errors
  imports Ttrpc_Prelude
begin

text \<open>
  Error values (\<open>errors.go\<close>) and what the code asks of them.

  An error value of Go is a constructor of \<open>error\<close>: one for each sentinel of \<open>errors.go\<close> and
  of the standard library that the code names, one for each wrapper that the code builds or
  looks through. A nil error is \<open>None\<close> in \<open>error option\<close>. The gRPC \<open>status\<close> package is
  not part of the repository: its functions are fields of the record \<open>grpc\<close>, and \<open>grpc_ok\<close>
  states their documented behaviour.
\<close>

section \<open>Status codes and errors\<close>

text \<open>The gRPC codes that the code names; any other number is \<open>OtherCode\<close>.\<close>

datatype code =
    OK | Canceled | Unknown | InvalidArgument | DeadlineExceeded | NotFound | AlreadyExists
  | PermissionDenied | ResourceExhausted | FailedPrecondition | OutOfRange | Unimplemented
  | Internal | OtherCode int

datatype status = Status (status_code: code) (status_msg: string)

datatype errno =
    EPIPE | ECONNRESET | EPERM | EACCES | EEXIST | ENOTEMPTY | ENOENT
  | OtherErrno nat string

datatype error =
    ErrProtocol | ErrClosed | ErrServerClosed | ErrStreamClosed | ErrStreamFull
  | IoEOF | IoErrUnexpectedEOF | IoErrClosedPipe | IoErrNoProgress | IoErrShortBuffer
  | IoErrShortWrite
  | OsErrInvalid | OsErrExist | OsErrNotExist | OsErrPermission
  | CtxCanceled | CtxDeadlineExceeded | NetErrClosed
  | Errno errno
  | SyscallError string error
  | PathError string string error
  | OpError string string error
  | StatusError status
  | OversizedMessageErr nat status
  | Wrapf string error string
  | ErrorString string

text \<open>
  \<open>Wrapf pre e post\<close> is \<open>fmt.Errorf(pre + "%w" + post, e)\<close>. An \<open>OversizedMessageErr\<close> holds
  the rejected length and the status it wraps.
\<close>

section \<open>Text of an error\<close>

function dec :: "nat \<Rightarrow> string" where
  "dec n = (if n < 10 then [char_of (48 + n)] else dec (n div 10) @ [char_of (48 + n mod 10)])"
  by pat_completeness auto
termination
  by (relation "measure id") auto

declare dec.simps [simp del]

fun errno_text :: "errno \<Rightarrow> string" where
  "errno_text EPIPE = ''broken pipe''"
| "errno_text ECONNRESET = ''connection reset by peer''"
| "errno_text EPERM = ''operation not permitted''"
| "errno_text EACCES = ''permission denied''"
| "errno_text EEXIST = ''file exists''"
| "errno_text ENOTEMPTY = ''directory not empty''"
| "errno_text ENOENT = ''no such file or directory''"
| "errno_text (OtherErrno n t) = t"

text \<open>\<open>err.Error()\<close>; the text of a gRPC status error is the argument \<open>st\<close>.\<close>

fun error_text :: "(status \<Rightarrow> string) \<Rightarrow> error \<Rightarrow> string" where
  "error_text st ErrProtocol = ''protocol error''"
| "error_text st ErrClosed = ''ttrpc: closed''"
| "error_text st ErrServerClosed = ''ttrpc: server closed''"
| "error_text st ErrStreamClosed = ''ttrpc: stream closed''"
| "error_text st ErrStreamFull = ''ttrpc: stream buffer full''"
| "error_text st IoEOF = ''EOF''"
| "error_text st IoErrUnexpectedEOF = ''unexpected EOF''"
| "error_text st IoErrClosedPipe = ''io: read/write on closed pipe''"
| "error_text st IoErrNoProgress = ''multiple Read calls return no data or error''"
| "error_text st IoErrShortBuffer = ''short buffer''"
| "error_text st IoErrShortWrite = ''short write''"
| "error_text st OsErrInvalid = ''invalid argument''"
| "error_text st OsErrExist = ''file already exists''"
| "error_text st OsErrNotExist = ''file does not exist''"
| "error_text st OsErrPermission = ''permission denied''"
| "error_text st CtxCanceled = ''context canceled''"
| "error_text st CtxDeadlineExceeded = ''context deadline exceeded''"
| "error_text st NetErrClosed = ''use of closed network connection''"
| "error_text st (Errno n) = errno_text n"
| "error_text st (SyscallError call e) = call @ '': '' @ error_text st e"
| "error_text st (PathError op path e) = op @ '' '' @ path @ '': '' @ error_text st e"
| "error_text st (OpError op conn e) = op @ '' '' @ conn @ '': '' @ error_text st e"
| "error_text st (StatusError s) = st s"
| "error_text st (OversizedMessageErr n s) = st s"
| "error_text st (Wrapf pre e post) = pre @ error_text st e @ post"
| "error_text st (ErrorString t) = t"

section \<open>Walking the chain of wrapped errors\<close>

text \<open>\<open>errors.Is(err, target)\<close> for a sentinel target: the chain of \<open>Unwrap\<close> holds it.\<close>

fun errors_is :: "error \<Rightarrow> error \<Rightarrow> bool" where
  "errors_is (SyscallError call e) t = (SyscallError call e = t \<or> errors_is e t)"
| "errors_is (PathError op path e) t = (PathError op path e = t \<or> errors_is e t)"
| "errors_is (OpError op conn e) t = (OpError op conn e = t \<or> errors_is e t)"
| "errors_is (OversizedMessageErr n s) t = (OversizedMessageErr n s = t \<or> StatusError s = t)"
| "errors_is (Wrapf pre e post) t = (Wrapf pre e post = t \<or> errors_is e t)"
| "errors_is e t = (e = t)"

text \<open>\<open>errors.As(err, &oerr)\<close> for \<open>*net.OpError\<close>: the operation of the first one in the chain.\<close>

fun as_OpError :: "error \<Rightarrow> string option" where
  "as_OpError (OpError op conn e) = Some op"
| "as_OpError (SyscallError call e) = as_OpError e"
| "as_OpError (PathError op path e) = as_OpError e"
| "as_OpError (Wrapf pre e post) = as_OpError e"
| "as_OpError e = None"

text \<open>The gRPC status that an error carries, directly or wrapped.\<close>

fun status_in :: "error \<Rightarrow> status option" where
  "status_in (StatusError s) = Some s"
| "status_in (OversizedMessageErr n s) = Some s"
| "status_in (SyscallError call e) = status_in e"
| "status_in (PathError op path e) = status_in e"
| "status_in (OpError op conn e) = status_in e"
| "status_in (Wrapf pre e post) = status_in e"
| "status_in e = None"

text \<open>
  \<open>os.IsExist\<close>, \<open>os.IsNotExist\<close> and \<open>os.IsPermission\<close> look through path and system-call
  errors only, and know the system's error numbers.
\<close>

fun os_underlying :: "error \<Rightarrow> error" where
  "os_underlying (PathError op path e) = e"
| "os_underlying (SyscallError call e) = e"
| "os_underlying e = e"

definition os_IsExist :: "error \<Rightarrow> bool" where
  "os_IsExist e \<longleftrightarrow> os_underlying e \<in> {OsErrExist, Errno EEXIST, Errno ENOTEMPTY}"

definition os_IsNotExist :: "error \<Rightarrow> bool" where
  "os_IsNotExist e \<longleftrightarrow> os_underlying e \<in> {OsErrNotExist, Errno ENOENT}"

definition os_IsPermission :: "error \<Rightarrow> bool" where
  "os_IsPermission e \<longleftrightarrow> os_underlying e \<in> {OsErrPermission, Errno EACCES, Errno EPERM}"

lemmas os_simps = os_IsExist_def os_IsNotExist_def os_IsPermission_def

lemma errors_is_refl [simp]: "errors_is e e"
  by (cases e) simp_all

section \<open>Oversized messages\<close>

definition messageLengthMax :: nat where
  "messageLengthMax = 4194304"

definition oversized_status :: "nat \<Rightarrow> status" where
  "oversized_status n = Status ResourceExhausted
     (''message length '' @ dec n @ '' exceed maximum message size of '' @ dec messageLengthMax)"

definition OversizedMessageError :: "nat \<Rightarrow> error option" where
  "OversizedMessageError n =
     (if n \<le> messageLengthMax then None else Some (OversizedMessageErr n (oversized_status n)))"

fun RejectedLength :: "error \<Rightarrow> nat option" where
  "RejectedLength (OversizedMessageErr n s) = Some n"
| "RejectedLength e = None"

fun MaximumLength :: "error \<Rightarrow> nat option" where
  "MaximumLength (OversizedMessageErr n s) = Some messageLengthMax"
| "MaximumLength e = None"

fun Oversized_Unwrap :: "error \<Rightarrow> error option" where
  "Oversized_Unwrap (OversizedMessageErr n s) = Some (StatusError s)"
| "Oversized_Unwrap e = None"

section \<open>The gRPC status package\<close>

record grpc =
  FromError :: "error option \<Rightarrow> status option \<times> bool"
  Code :: "status option \<Rightarrow> code"
  Proto :: "status option \<Rightarrow> status option"
  ErrorProto :: "status \<Rightarrow> error"
  StatusText :: "status \<Rightarrow> string"

text \<open>
  The documented behaviour that the code relies on: the code of a status is the one it was made
  with and a nil status is OK; \<open>FromError\<close> finds the status an error carries (with the same
  code), says \<open>false\<close> exactly when there is none, and a nil error is OK; \<open>ErrorProto\<close> makes the
  error of a status that is not OK.
\<close>

definition grpc_ok :: "grpc \<Rightarrow> bool" where
  "grpc_ok G \<longleftrightarrow>
     (\<forall>s. Code G (Some s) = status_code s) \<and> Code G None = OK \<and>
     (\<forall>s. Proto G s = s) \<and>
     snd (FromError G None) \<and> Code G (fst (FromError G None)) = OK \<and>
     (\<forall>s. FromError G (Some (StatusError s)) = (Some s, True)) \<and>
     (\<forall>e. snd (FromError G (Some e)) \<longleftrightarrow> status_in e \<noteq> None) \<and>
     (\<forall>e s. status_in e = Some s \<longrightarrow> Code G (fst (FromError G (Some e))) = status_code s) \<and>
     (\<forall>s. status_code s \<noteq> OK \<longrightarrow> ErrorProto G s = StatusError s)"

text \<open>A concrete instance, used where a theorem is applied to closed data.\<close>

definition example_grpc :: grpc where
  "example_grpc =
     \<lparr>FromError = (\<lambda>e. case e of
         None \<Rightarrow> (None, True)
       | Some e \<Rightarrow> (case status_in e of
           Some s \<Rightarrow> (Some s, True)
         | None \<Rightarrow> (Some (Status Unknown ''''), False))),
      Code = (\<lambda>s. case s of None \<Rightarrow> OK | Some s \<Rightarrow> status_code s),
      Proto = (\<lambda>s. s),
      ErrorProto = StatusError,
      StatusText = (\<lambda>s. ''rpc error: '' @ status_msg s)\<rparr>"

lemma example_grpc_ok: "grpc_ok example_grpc"
  by (simp add: grpc_ok_def example_grpc_def split: option.splits)

lemma grpc_okD:
  assumes "grpc_ok G"
  shows "Code G (Some s) = status_code s" "Code G None = OK" "Proto G st = st"
    "snd (FromError G None)" "Code G (fst (FromError G None)) = OK"
    "FromError G (Some (StatusError s)) = (Some s, True)"
    "snd (FromError G (Some e)) \<longleftrightarrow> status_in e \<noteq> None"
    "status_in e = Some s \<Longrightarrow> Code G (fst (FromError G (Some e))) = status_code s"
    "status_code s \<noteq> OK \<Longrightarrow> ErrorProto G s = StatusError s"
  using assms by (simp_all add: grpc_ok_def)

end
