(* ===== verification/Ttrpc_Metadata.thy ===== *)
theory Ttrpc_Metadata
  imports Ttrpc_Errors
begin

text \<open>
  Request metadata (\<open>metadata.go\<close>) over an explicit store of string arrays, because \<open>Clone\<close> gives
  all its values one backing array and \<open>append\<close> may write into it.

  A Go slice of strings is an array address with offset, length and capacity (\<open>None\<close> when nil); an
  \<open>MD\<close> is a map from keys to slices (\<open>None\<close> when the map is nil). Ranging over a map visits its keys
  in an unspecified order, which is the argument \<open>ks\<close>. Strings are lists of bytes and keys are
  ASCII: \<open>strings_ToLower\<close> is the ASCII path of \<open>strings.ToLower\<close>. \<open>grow\<close> gives the capacity of the
  array that \<open>append\<close> allocates, which the language leaves open beyond being large enough.
\<close>

section \<open>Slices of strings\<close>

record sref =
  s_arr :: nat
  s_off :: nat
  s_len :: nat
  s_cap :: nat

type_synonym strings = "sref option"

record store =
  arrays :: "nat \<Rightarrow> string list"
  next_array :: nat

definition str_len :: "strings \<Rightarrow> nat" where
  "str_len s = (case s of None \<Rightarrow> 0 | Some r \<Rightarrow> s_len r)"

definition str_read :: "store \<Rightarrow> strings \<Rightarrow> string list" where
  "str_read h s =
     (case s of None \<Rightarrow> [] | Some r \<Rightarrow> take (s_len r) (drop (s_off r) (arrays h (s_arr r))))"

text \<open>Writing \<open>vs\<close> from position \<open>i\<close> of an array on.\<close>

definition overwrite :: "nat \<Rightarrow> 'a list \<Rightarrow> 'a list \<Rightarrow> 'a list" where
  "overwrite i vs xs = take i xs @ vs @ drop (i + length vs) xs"

definition str_write :: "nat \<Rightarrow> nat \<Rightarrow> string list \<Rightarrow> store \<Rightarrow> store" where
  "str_write a i vs h = h\<lparr>arrays := (arrays h)(a := overwrite i vs (arrays h a))\<rparr>"

definition str_alloc :: "string list \<Rightarrow> store \<Rightarrow> nat \<times> store" where
  "str_alloc xs h =
     (next_array h, h\<lparr>arrays := (arrays h)(next_array h := xs), next_array := Suc (next_array h)\<rparr>)"

text \<open>\<open>append(s, vs...)\<close>\<close>

definition str_append ::
    "(nat \<Rightarrow> nat \<Rightarrow> nat) \<Rightarrow> strings \<Rightarrow> string list \<Rightarrow> store \<Rightarrow> strings \<times> store" where
  "str_append grow s vs h =
     (let n = str_len s + length vs in
      if vs = [] then (s, h)
      else
        (case s of
           Some r \<Rightarrow>
             if n \<le> s_cap r
             then (Some (r\<lparr>s_len := n\<rparr>), str_write (s_arr r) (s_off r + s_len r) vs h)
             else
               (let cap = grow (s_cap r) n;
                    (a, h') = str_alloc (str_read h s @ vs @ replicate (cap - n) '''') h
                in (Some \<lparr>s_arr = a, s_off = 0, s_len = n, s_cap = cap\<rparr>, h'))
         | None \<Rightarrow>
             (let cap = grow 0 n; (a, h') = str_alloc (vs @ replicate (cap - n) '''') h
              in (Some \<lparr>s_arr = a, s_off = 0, s_len = n, s_cap = cap\<rparr>, h'))))"

section \<open>The operations on MD\<close>

definition lower_char :: "char \<Rightarrow> char" where
  "lower_char c =
     (if 65 \<le> (of_char c :: nat) \<and> (of_char c :: nat) \<le> 90
      then char_of ((of_char c :: nat) + 32) else c)"

definition strings_ToLower :: "string \<Rightarrow> string" where
  "strings_ToLower s = map lower_char s"

type_synonym MDmap = "string \<rightharpoonup> strings"
type_synonym MD = "MDmap option"

text \<open>\<open>m[key]\<close>; reading a nil map finds nothing.\<close>

definition md_index :: "MD \<Rightarrow> string \<Rightarrow> strings option" where
  "md_index m key = (case m of None \<Rightarrow> None | Some f \<Rightarrow> f key)"

definition Get :: "MD \<Rightarrow> string \<Rightarrow> strings \<times> bool" where
  "Get m key =
     (let key = strings_ToLower key in
      case md_index m key of
        None \<Rightarrow> (None, False)
      | Some list \<Rightarrow> if str_len list = 0 then (None, False) else (list, True))"

text \<open>A write to a nil map panics: the result is then \<open>None\<close>.\<close>

definition Set :: "MD \<Rightarrow> string \<Rightarrow> strings \<Rightarrow> MD option" where
  "Set m key values =
     (let key = strings_ToLower key in
      if str_len values = 0
      then Some (case m of None \<Rightarrow> None | Some f \<Rightarrow> Some (f(key := None)))
      else (case m of None \<Rightarrow> None | Some f \<Rightarrow> Some (Some (f(key \<mapsto> values)))))"

definition Append ::
    "(nat \<Rightarrow> nat \<Rightarrow> nat) \<Rightarrow> MD \<Rightarrow> string \<Rightarrow> strings \<Rightarrow> store \<Rightarrow> MD option \<times> store" where
  "Append grow m key values h =
     (let key = strings_ToLower key in
      if str_len values = 0 then (Some m, h)
      else
        (case md_index m key of
           Some current \<Rightarrow>
             (case str_append grow current (str_read h values) h of
                (s, h') \<Rightarrow> (Set m key s, h'))
         | None \<Rightarrow> (Set m key values, h)))"

text \<open>
  \<open>Clone\<close>: the first loop (in the order \<open>ks1\<close>) counts the values, the second (\<open>ks2\<close>) copies them
  into consecutive full slices \<open>sv[:n:n]\<close> of one array. A copied value is read before the copy; the
  copies go to the fresh array.
\<close>

definition sv_copy :: "sref \<Rightarrow> strings \<Rightarrow> store \<Rightarrow> nat \<times> store" where
  "sv_copy sv vv h =
     (let n = min (s_len sv) (str_len vv)
      in (n, str_write (s_arr sv) (s_off sv) (take n (str_read h vv)) h))"

fun clone_loop :: "MDmap \<Rightarrow> string list \<Rightarrow> sref \<Rightarrow> MDmap \<Rightarrow> store \<Rightarrow> MDmap \<times> store" where
  "clone_loop m [] sv m2 h = (m2, h)"
| "clone_loop m (k # ks) sv m2 h =
     (case m k of
        None \<Rightarrow> clone_loop m ks sv m2 h
      | Some None \<Rightarrow> clone_loop m ks sv (m2(k \<mapsto> None)) h
      | Some vv \<Rightarrow>
          (case sv_copy sv vv h of
             (n, h') \<Rightarrow>
               clone_loop m ks
                 (sv\<lparr>s_off := s_off sv + n, s_len := s_len sv - n, s_cap := s_cap sv - n\<rparr>)
                 (m2(k \<mapsto> Some (sv\<lparr>s_len := n, s_cap := n\<rparr>))) h'))"

definition count_values :: "MDmap \<Rightarrow> string list \<Rightarrow> nat" where
  "count_values m ks = sum_list (map (\<lambda>k. case m k of None \<Rightarrow> 0 | Some vv \<Rightarrow> str_len vv) ks)"

definition Clone :: "string list \<Rightarrow> string list \<Rightarrow> MD \<Rightarrow> store \<Rightarrow> MD \<times> store" where
  "Clone ks1 ks2 m h =
     (case m of
        None \<Rightarrow> (None, h)
      | Some f \<Rightarrow>
          (let nv = count_values f ks1;
               (a, h1) = str_alloc (replicate nv '''') h;
               (m2, h2) = clone_loop f ks2 \<lparr>s_arr = a, s_off = 0, s_len = nv, s_cap = nv\<rparr> Map.empty h1
           in (Some m2, h2)))"

section \<open>Metadata on the wire and in the context\<close>

record KeyValue =
  Key :: string
  Value :: string

definition setRequest :: "store \<Rightarrow> string list \<Rightarrow> MDmap \<Rightarrow> KeyValue list \<Rightarrow> KeyValue list" where
  "setRequest h ks m md =
     fold (\<lambda>k md. fold (\<lambda>v md. md @ [\<lparr>Key = k, Value = v\<rparr>])
        (case m k of None \<Rightarrow> [] | Some values \<Rightarrow> str_read h values) md) ks md"

fun fromRequest ::
    "(nat \<Rightarrow> nat \<Rightarrow> nat) \<Rightarrow> MDmap \<Rightarrow> KeyValue list \<Rightarrow> store \<Rightarrow> MDmap \<times> store" where
  "fromRequest grow m [] h = (m, h)"
| "fromRequest grow m (kv # kvs) h =
     (case str_append grow (case m (Key kv) of None \<Rightarrow> None | Some s \<Rightarrow> s) [Value kv] h of
        (s, h') \<Rightarrow> fromRequest grow (m(Key kv \<mapsto> s)) kvs h')"

text \<open>
  What the code uses of a \<open>context.Context\<close>: the metadata attached to it, its deadline in
  nanoseconds, and, once it is done, the error that says why.
\<close>

record gocontext =
  ctx_md :: "MD option"
  ctx_deadline :: "int option"
  ctx_err :: "error option"

definition background :: gocontext where
  "background = \<lparr>ctx_md = None, ctx_deadline = None, ctx_err = None\<rparr>"

definition GetMetadata :: "gocontext \<Rightarrow> MD \<times> bool" where
  "GetMetadata ctx = (case ctx_md ctx of None \<Rightarrow> (None, False) | Some md \<Rightarrow> (md, True))"

definition WithMetadata :: "gocontext \<Rightarrow> MD \<Rightarrow> gocontext" where
  "WithMetadata ctx md = ctx\<lparr>ctx_md := Some md\<rparr>"

definition GetMetadataValue :: "store \<Rightarrow> gocontext \<Rightarrow> string \<Rightarrow> string \<times> bool" where
  "GetMetadataValue h ctx name =
     (case GetMetadata ctx of
        (metadata, ok) \<Rightarrow>
          if \<not> ok then ('''', False)
          else
            (case Get metadata name of
               (list, ok) \<Rightarrow> if ok then (str_read h list ! 0, True) else ('''', False)))"


section \<open>Slices: reads, writes and separation\<close>

definition valid :: "store \<Rightarrow> strings \<Rightarrow> bool" where
  "valid h s = (case s of None \<Rightarrow> True | Some r \<Rightarrow>
     s_arr r < next_array h \<and> s_len r \<le> s_cap r \<and>
     s_off r + s_cap r \<le> length (arrays h (s_arr r)))"

text \<open>Two slices whose capacities do not overlap: an append to one cannot write into the other.\<close>

definition apart :: "strings \<Rightarrow> strings \<Rightarrow> bool" where
  "apart s t = (case (s, t) of
     (Some r, Some q) \<Rightarrow> s_arr r \<noteq> s_arr q \<or> s_off r + s_cap r \<le> s_off q \<or> s_off q + s_cap q \<le> s_off r
   | _ \<Rightarrow> True)"

definition grow_ok :: "(nat \<Rightarrow> nat \<Rightarrow> nat) \<Rightarrow> bool" where
  "grow_ok grow \<longleftrightarrow> (\<forall>cap n. n \<le> grow cap n)"

lemma apart_sym: "apart s t \<Longrightarrow> apart t s"
  by (auto simp: apart_def split: option.splits)

lemma apart_None [simp]: "apart None t" "apart s None"
  by (auto simp: apart_def split: option.splits)

lemma valid_None [simp]: "valid h None"
  by (simp add: valid_def)

lemma str_simps [simp]: "str_len None = 0" "str_read h None = []" "str_len (Some r) = s_len r"
  by (simp_all add: str_len_def str_read_def)

lemma length_str_read: "valid h s \<Longrightarrow> length (str_read h s) = str_len s"
  by (auto simp: valid_def str_read_def str_len_def split: option.splits)

lemma length_overwrite: "i + length vs \<le> length xs \<Longrightarrow> length (overwrite i vs xs) = length xs"
  by (simp add: overwrite_def)

lemma take_drop_overwrite_before:
  "off + n \<le> i \<Longrightarrow> i \<le> length xs \<Longrightarrow> take n (drop off (overwrite i vs xs)) = take n (drop off xs)"
  by (simp add: overwrite_def drop_take)

lemma take_drop_overwrite_after:
  "i + length vs \<le> off \<Longrightarrow> i + length vs \<le> length xs \<Longrightarrow>
     drop off (overwrite i vs xs) = drop off xs"
  by (simp add: overwrite_def drop_append)

lemma take_drop_overwrite_at:
  assumes "off + n \<le> length xs" "off + n + length vs \<le> length xs"
  shows "take (n + length vs) (drop off (overwrite (off + n) vs xs)) = take n (drop off xs) @ vs"
proof -
  have "drop off (overwrite (off + n) vs xs) = take n (drop off xs) @ vs @ drop (off + n + length vs) xs"
    using assms by (simp add: overwrite_def drop_take)
  with assms show ?thesis by simp
qed

text \<open>A write inside the capacity of \<open>s\<close> leaves every slice that is apart from it as it is.\<close>

lemma str_write_frame:
  assumes "s_off r \<le> i" "i + length vs \<le> s_off r + s_cap r" "valid h (Some r)" "valid h t"
    "apart (Some r) t"
  shows "str_read (str_write (s_arr r) i vs h) t = str_read h t"
    "valid (str_write (s_arr r) i vs h) t"
  using assms
  by (auto simp: str_read_def str_write_def valid_def apart_def length_overwrite
      take_drop_overwrite_before take_drop_overwrite_after split: option.splits)

lemma str_write_valid:
  "s_off r \<le> i \<Longrightarrow> i + length vs \<le> s_off r + s_cap r \<Longrightarrow> valid h (Some r) \<Longrightarrow> valid h t \<Longrightarrow>
     valid (str_write (s_arr r) i vs h) t"
  by (auto simp: str_write_def valid_def length_overwrite split: option.splits)

lemma str_alloc_frame:
  assumes "str_alloc xs h = (a, h')" "valid h t"
  shows "str_read h' t = str_read h t" "valid h' t" "a = next_array h"
    "next_array h' = Suc (next_array h)" "arrays h' a = xs"
  using assms by (auto simp: str_alloc_def str_read_def valid_def split: option.splits)

lemma str_append_ok:
  assumes "grow_ok grow" "valid h s" "str_append grow s vs h = (s', h')"
  shows "str_read h' s' = str_read h s @ vs" "valid h' s'" "str_len s' = str_len s + length vs"
    "next_array h \<le> next_array h'"
    "\<And>t. valid h t \<Longrightarrow> apart s t \<Longrightarrow> str_read h' t = str_read h t \<and> valid h' t \<and> apart s' t"
    "\<And>t. valid h t \<Longrightarrow> valid h' t"
proof -
  have cases: "(vs = [] \<and> s' = s \<and> h' = h) \<or>
    (\<exists>r. vs \<noteq> [] \<and> s = Some r \<and> s_len r + length vs \<le> s_cap r \<and>
        s' = Some (r\<lparr>s_len := s_len r + length vs\<rparr>) \<and>
        h' = str_write (s_arr r) (s_off r + s_len r) vs h) \<or>
    (\<exists>cap. vs \<noteq> [] \<and> str_len s + length vs \<le> cap \<and>
       (next_array h, h') = str_alloc (str_read h s @ vs @ replicate (cap - (str_len s + length vs)) '''') h \<and>
       s' = Some \<lparr>s_arr = next_array h, s_off = 0, s_len = str_len s + length vs, s_cap = cap\<rparr>)"
    using assms(1,3)
    by (cases s) (auto simp: str_append_def Let_def grow_ok_def str_alloc_def split: if_splits)
  have "str_read h' s' = str_read h s @ vs \<and> valid h' s' \<and> str_len s' = str_len s + length vs \<and>
    next_array h \<le> next_array h' \<and>
    (\<forall>t. valid h t \<and> apart s t \<longrightarrow> str_read h' t = str_read h t \<and> valid h' t \<and> apart s' t) \<and>
    (\<forall>t. valid h t \<longrightarrow> valid h' t)"
    using cases
  proof (elim disjE exE conjE, goal_cases)
    case 1
    then show ?case using assms(2) by simp
  next
    case (2 r)
    have v: "valid h (Some r)" using 2 assms(2) by simp
    have "str_read h' s' = str_read h s @ vs" "valid h' s'"
      using 2 v by (auto simp: str_read_def str_write_def valid_def take_drop_overwrite_at length_overwrite)
    moreover have "valid h t \<and> apart s t \<longrightarrow> str_read h' t = str_read h t \<and> valid h' t \<and> apart s' t" for t
      using 2 str_write_frame [of r "s_off r + s_len r" vs h t] v
      by (auto simp: apart_def split: option.splits)
    moreover have "valid h t \<longrightarrow> valid h' t" for t
      using 2 str_write_valid [of r "s_off r + s_len r" vs h t] v by simp
    ultimately show ?case using 2 by (auto simp: str_write_def)
  next
    case (3 cap)
    note alloc = str_alloc_frame [OF 3(3) [symmetric]]
    have "length (str_read h s) = str_len s" by (rule length_str_read [OF assms(2)])
    with 3 alloc(3-5) [of None] have "str_read h' s' = str_read h s @ vs" "valid h' s'"
      by (auto simp: str_read_def valid_def)
    moreover have "valid h t \<longrightarrow> str_read h' t = str_read h t \<and> valid h' t \<and> apart s' t" for t
      using 3 alloc [of t] by (auto simp: apart_def valid_def split: option.splits)
    ultimately show ?case using 3 alloc(4) [of None] by auto
  qed
  then show "str_read h' s' = str_read h s @ vs" "valid h' s'" "str_len s' = str_len s + length vs"
    "next_array h \<le> next_array h'"
    "\<And>t. valid h t \<Longrightarrow> apart s t \<Longrightarrow> str_read h' t = str_read h t \<and> valid h' t \<and> apart s' t"
    "\<And>t. valid h t \<Longrightarrow> valid h' t"
    by blast+
qed

section \<open>The operations on the values they store\<close>

definition view :: "store \<Rightarrow> MDmap \<Rightarrow> string \<Rightarrow> string list option" where
  "view h f k = map_option (str_read h) (f k)"

text \<open>The slices of a map are valid and pairwise apart.\<close>

definition md_ok :: "store \<Rightarrow> MDmap \<Rightarrow> bool" where
  "md_ok h f \<longleftrightarrow> (\<forall>k s. f k = Some s \<longrightarrow> valid h s) \<and>
     (\<forall>k k' s s'. k \<noteq> k' \<longrightarrow> f k = Some s \<longrightarrow> f k' = Some s' \<longrightarrow> apart s s')"

lemma md_okD:
  "md_ok h f \<Longrightarrow> f k = Some s \<Longrightarrow> valid h s"
  "md_ok h f \<Longrightarrow> f k = Some s \<Longrightarrow> f k' = Some s' \<Longrightarrow> k \<noteq> k' \<Longrightarrow> apart s s'"
  by (auto simp: md_ok_def)

lemma lower_char_idem [simp]: "lower_char (lower_char c) = lower_char c"
proof -
  have "lower_char (char_of ((of_char c :: nat) + 32)) = char_of ((of_char c :: nat) + 32)"
    if "65 \<le> (of_char c :: nat)" "(of_char c :: nat) \<le> 90"
    using that by (auto simp: lower_char_def of_char_of)
  then show ?thesis by (auto simp: lower_char_def)
qed

lemma strings_ToLower_idem [simp]: "strings_ToLower (strings_ToLower s) = strings_ToLower s"
  by (simp add: strings_ToLower_def)

text \<open>Storing the result of an append under a key.\<close>

lemma md_append_ok:
  assumes "grow_ok grow" "md_ok h f" "f k = Some s \<or> f k = None \<and> s = None"
    and "str_append grow s vs h = (s', h')"
  shows "md_ok h' (f(k \<mapsto> s'))"
    "view h' (f(k \<mapsto> s')) = (view h f)(k \<mapsto> str_read h s @ vs)"
proof -
  have v: "valid h s" using assms(2,3) by (auto dest: md_okD)
  note app = str_append_ok [OF assms(1) v assms(4)]
  have other: "str_read h' t = str_read h t \<and> valid h' t \<and> apart s' t"
    if "f k' = Some t" "k' \<noteq> k" for k' t
  proof (rule app(5))
    show "valid h t" using that assms(2) by (auto dest: md_okD)
    show "apart s t" using that assms(2,3) by (auto dest: md_okD(2))
  qed
  show "md_ok h' (f(k \<mapsto> s'))"
    using other app(2) assms(2) unfolding md_ok_def by (auto intro: apart_sym)
  show "view h' (f(k \<mapsto> s')) = (view h f)(k \<mapsto> str_read h s @ vs)"
    using other app(1) by (auto simp: view_def fun_eq_iff intro: option.map_cong0)
qed

definition old_values :: "string list option \<Rightarrow> string list" where
  "old_values v = (case v of None \<Rightarrow> [] | Some xs \<Rightarrow> xs)"

lemma Append_ok:
  assumes "grow_ok grow" "md_ok h f" "valid h values"
    and "\<forall>k s. f k = Some s \<longrightarrow> apart values s"
    and "Append grow (Some f) key values h = (m, h')"
  shows "\<exists>f'. m = Some (Some f') \<and> md_ok h' f' \<and>
    view h' f' =
      (if str_len values = 0 then view h f
       else (view h f)(strings_ToLower key \<mapsto>
         old_values (view h f (strings_ToLower key)) @ str_read h values)) \<and>
    (\<forall>t. valid h t \<longrightarrow> (\<forall>s. f (strings_ToLower key) = Some s \<longrightarrow> apart s t) \<longrightarrow> str_read h' t = str_read h t)"
proof (cases "str_len values = 0")
  case True
  with assms show ?thesis by (auto simp: Append_def)
next
  case len: False
  let ?k = "strings_ToLower key"
  show ?thesis
  proof (cases "f ?k")
    case None
    with assms(5) len have "m = Some (Some (f(?k \<mapsto> values)))" "h' = h"
      by (auto simp: Append_def md_index_def Set_def)
    moreover have "md_ok h (f(?k \<mapsto> values))"
      using assms(2-4) unfolding md_ok_def by (auto intro: apart_sym)
    ultimately show ?thesis
      using None len
      by (intro exI [of _ "f(?k \<mapsto> values)"]) (auto simp: view_def old_values_def fun_eq_iff)
  next
    case (Some s)
    obtain s' h1 where app: "str_append grow s (str_read h values) h = (s', h1)" by fastforce
    note ok = str_append_ok [OF assms(1) md_okD(1) [OF assms(2) Some] app]
    from len assms(3) ok(3) have "str_len s' \<noteq> 0" by (simp add: length_str_read)
    with assms(5) len Some app have "m = Some (Some (f(?k \<mapsto> s')))" "h' = h1"
      by (auto simp: Append_def md_index_def Set_def)
    with md_append_ok [OF assms(1,2) _ app, of ?k] Some len ok(5) show ?thesis
      by (auto simp: view_def old_values_def)
  qed
qed

section \<open>Adding values one by one\<close>

text \<open>
  The interface that \<open>fromRequest\<close> folds over: adding a value to a key appends to that key's
  values and changes no other key's.
\<close>

definition values_of :: "string \<Rightarrow> KeyValue list \<Rightarrow> string list" where
  "values_of k kvs = map Value (filter (\<lambda>kv. Key kv = k) kvs)"

locale value_index =
  fixes add :: "string \<Rightarrow> string \<Rightarrow> 's \<Rightarrow> 's"
    and vals :: "'s \<Rightarrow> string \<Rightarrow> string list option"
    and ok :: "'s \<Rightarrow> bool"
  assumes ok_add: "ok s \<Longrightarrow> ok (add k v s)"
    and vals_add: "ok s \<Longrightarrow> vals (add k v s) = (vals s)(k \<mapsto> old_values (vals s k) @ [v])"
begin

lemma vals_fold:
  "ok s \<Longrightarrow> ok (fold (\<lambda>kv. add (Key kv) (Value kv)) kvs s) \<and>
     vals (fold (\<lambda>kv. add (Key kv) (Value kv)) kvs s) k =
       (if values_of k kvs = [] then vals s k
        else Some (old_values (vals s k) @ values_of k kvs))"
proof (induction kvs arbitrary: s)
  case Nil
  then show ?case by (simp add: values_of_def)
next
  case (Cons kv kvs)
  from Cons.IH [OF ok_add [OF Cons.prems], of "Key kv" "Value kv"] show ?case
    using vals_add [OF Cons.prems]
    by (auto simp: values_of_def old_values_def split: option.splits)
qed

end

definition md_add :: "string \<Rightarrow> string \<Rightarrow> (nat \<Rightarrow> nat \<Rightarrow> nat) \<times> MDmap \<times> store \<Rightarrow>
    (nat \<Rightarrow> nat \<Rightarrow> nat) \<times> MDmap \<times> store" where
  "md_add k v s = (case s of (grow, f, h) \<Rightarrow>
     (case str_append grow (case f k of None \<Rightarrow> None | Some s \<Rightarrow> s) [v] h of
        (s', h') \<Rightarrow> (grow, f(k \<mapsto> s'), h')))"

interpretation md: value_index md_add "\<lambda>(grow, f, h). view h f" "\<lambda>(grow, f, h). grow_ok grow \<and> md_ok h f"
proof (unfold_locales, goal_cases)
  case (1 s k v)
  then show ?case
    by (auto simp: md_add_def split: prod.splits option.splits intro!: md_append_ok(1))
next
  case (2 s k v)
  then show ?case
    by (auto simp: md_add_def old_values_def view_def [of _ _ k] split: prod.splits option.splits
        dest!: md_append_ok(2) [of _ _ _ k])
qed

lemma fromRequest_fold:
  "fold (\<lambda>kv. md_add (Key kv) (Value kv)) kvs (grow, f, h) = (case fromRequest grow f kvs h of (f', h') \<Rightarrow> (grow, f', h'))"
  by (induction kvs arbitrary: f h) (auto simp: md_add_def split: prod.splits)

section \<open>Cloning\<close>

text \<open>
  While the copying loop runs: what remains of the backing array is free, and the slices of the
  clone lie before it in the same array.
\<close>

definition clone_inv :: "store \<Rightarrow> MDmap \<Rightarrow> sref \<Rightarrow> MDmap \<Rightarrow> bool" where
  "clone_inv h f sv m2 \<longleftrightarrow>
     valid h (Some sv) \<and> s_cap sv = s_len sv \<and> md_ok h m2 \<and>
     (\<forall>k s. f k = Some s \<longrightarrow> valid h s) \<and>
     (\<forall>k r. f k = Some (Some r) \<longrightarrow> s_arr r \<noteq> s_arr sv) \<and>
     (\<forall>k r. m2 k = Some (Some r) \<longrightarrow> s_arr r = s_arr sv \<and> s_off r + s_cap r \<le> s_off sv)"

lemma clone_invD:
  assumes "clone_inv h f sv m2"
  shows "f k = Some t \<Longrightarrow> valid h t \<and> apart (Some sv) t"
    "m2 k = Some t \<Longrightarrow> valid h t \<and> apart (Some sv) t \<and> apart (Some (sv\<lparr>s_len := n, s_cap := n\<rparr>)) t"
  using assms by (cases t; auto simp: clone_inv_def apart_def md_ok_def)+

lemma clone_turn:
  assumes inv: "clone_inv h f sv m2" and f: "f k = Some (Some r)" and k: "m2 k = None"
    and len: "s_len r \<le> s_len sv" and copy: "sv_copy sv (Some r) h = (n, h')"
  defines "sv' \<equiv> sv\<lparr>s_off := s_off sv + n, s_len := s_len sv - n, s_cap := s_cap sv - n\<rparr>"
    and "new \<equiv> sv\<lparr>s_len := n, s_cap := n\<rparr>"
  shows "clone_inv h' f sv' (m2(k \<mapsto> Some new))" "n = s_len r"
    "str_read h' (Some new) = str_read h (Some r)"
    "\<And>t. valid h t \<Longrightarrow> apart (Some sv) t \<Longrightarrow> str_read h' t = str_read h t \<and> valid h' t"
proof -
  from inv f have vr: "valid h (Some r)" and vs: "valid h (Some sv)" and cap: "s_cap sv = s_len sv"
    by (auto simp: clone_inv_def)
  have read: "length (str_read h (Some r)) = s_len r" using length_str_read [OF vr] by simp
  from copy len read have n: "n = s_len r"
    and h': "h' = str_write (s_arr sv) (s_off sv) (str_read h (Some r)) h"
    by (auto simp: sv_copy_def Let_def)
  from n show "n = s_len r" .
  have frame: "str_read h' t = str_read h t \<and> valid h' t" if "valid h t" "apart (Some sv) t" for t
    using str_write_frame [of sv "s_off sv" "str_read h (Some r)" h t] that vs read len cap
    by (simp add: h')
  then show "\<And>t. valid h t \<Longrightarrow> apart (Some sv) t \<Longrightarrow> str_read h' t = str_read h t \<and> valid h' t" .
  have "str_read h' (Some new) = take (s_len r) (drop (s_off sv) (arrays h' (s_arr sv)))"
    by (simp add: str_read_def new_def n)
  then have at: "str_read h' (Some new) = str_read h (Some r)"
    using take_drop_overwrite_at [of "s_off sv" 0 "arrays h (s_arr sv)" "str_read h (Some r)"]
      vs read len cap
    by (simp add: h' str_write_def valid_def)
  then show "str_read h' (Some new) = str_read h (Some r)" .
  have valid_all: "valid h' t" if "valid h t" for t
    using str_write_valid [of sv "s_off sv" "str_read h (Some r)" h t] that vs read len cap
    by (simp add: h')
  have "valid h' (Some sv)" using valid_all vs by blast
  then have "valid h' (Some sv')" "valid h' (Some new)"
    using n len cap by (auto simp: valid_def sv'_def new_def)
  moreover have "md_ok h' (m2(k \<mapsto> Some new))"
    using calculation inv valid_all clone_invD(2) [OF inv, of _ _ n] unfolding md_ok_def new_def
    by (auto simp: clone_inv_def md_ok_def intro: apart_sym)
  moreover have "s_arr r' = s_arr sv' \<and> s_off r' + s_cap r' \<le> s_off sv'"
    if "(m2(k \<mapsto> Some new)) k' = Some (Some r')" for k' r'
    using inv that by (cases "k' = k") (auto simp: clone_inv_def sv'_def new_def intro: trans_le_add1)
  ultimately show "clone_inv h' f sv' (m2(k \<mapsto> Some new))"
    using inv valid_all cap unfolding clone_inv_def by (simp add: sv'_def)
qed

text \<open>
  What the loop over the keys \<open>ks\<close> has done: the values of these keys are copied into the new array, and
  nothing else has changed.
\<close>

definition cloned :: "store \<Rightarrow> MDmap \<Rightarrow> sref \<Rightarrow> MDmap \<Rightarrow> string list \<Rightarrow> store \<Rightarrow> MDmap \<Rightarrow> bool" where
  "cloned h f sv m2 ks h3 m3 \<longleftrightarrow> md_ok h3 m3 \<and>
    (\<forall>k. k \<notin> set ks \<longrightarrow> m3 k = m2 k \<and> view h3 m3 k = view h m2 k) \<and>
    (\<forall>k\<in>set ks. view h3 m3 k = view h f k \<and> (m3 k = Some None \<longleftrightarrow> f k = Some None)) \<and>
    (\<forall>k r. m3 k = Some (Some r) \<longrightarrow> s_arr r = s_arr sv) \<and>
    (\<forall>t. valid h t \<longrightarrow> (\<forall>r. t = Some r \<longrightarrow> s_arr r \<noteq> s_arr sv) \<longrightarrow> str_read h3 t = str_read h t \<and> valid h3 t)"

lemma cloned_absent: "cloned h f sv m2 ks h3 m3 \<Longrightarrow> k \<notin> set ks \<Longrightarrow> f k = None \<Longrightarrow> m2 k = None \<Longrightarrow>
    cloned h f sv m2 (k # ks) h3 m3"
  by (auto simp: cloned_def view_def)

lemma cloned_nil: "cloned h f sv (m2(k \<mapsto> None)) ks h3 m3 \<Longrightarrow> k \<notin> set ks \<Longrightarrow> f k = Some None \<Longrightarrow>
    cloned h f sv m2 (k # ks) h3 m3"
  by (auto simp: cloned_def view_def)

lemma cloned_copy:
  assumes "clone_inv h f sv m2" "f k = Some (Some r)" "m2 k = None" "s_len r \<le> s_len sv"
    and "sv_copy sv (Some r) h = (n, h')" "k \<notin> set ks"
    and "cloned h' f (sv\<lparr>s_off := s_off sv + n, s_len := s_len sv - n, s_cap := s_cap sv - n\<rparr>)
      (m2(k \<mapsto> Some (sv\<lparr>s_len := n, s_cap := n\<rparr>))) ks h3 m3"
  shows "cloned h f sv m2 (k # ks) h3 m3"
proof -
  note turn = clone_turn [OF assms(1-5)] and rest = assms(7) [unfolded cloned_def]
  have old: "view h' f k' = view h f k'" for k'
    using turn(4) clone_invD(1) [OF assms(1)] by (cases "f k'") (auto simp: view_def)
  have older: "view h' m2 k' = view h m2 k'" for k'
    using turn(4) clone_invD(2) [OF assms(1)] by (cases "m2 k'") (auto simp: view_def)
  have frame: "str_read h3 t = str_read h t \<and> valid h3 t"
    if "valid h t" "\<forall>r. t = Some r \<longrightarrow> s_arr r \<noteq> s_arr sv" for t
  proof -
    have "apart (Some sv) t" using that(2) by (auto simp: apart_def split: option.splits)
    with turn(4) [OF that(1)] rest that(2) show ?thesis by simp
  qed
  show ?thesis unfolding cloned_def
    using rest assms(2,6) turn(3) frame old older by (auto simp: view_def)
qed

lemma clone_loop_ok:
  assumes "clone_inv h f sv m2" "count_values f ks \<le> s_len sv" "distinct ks"
    "\<forall>k\<in>set ks. m2 k = None" "clone_loop f ks sv m2 h = (m3, h3)"
  shows "cloned h f sv m2 ks h3 m3"
  using assms
proof (induction ks arbitrary: sv m2 h)
  case Nil
  then show ?case by (auto simp: clone_inv_def cloned_def)
next
  case (Cons k ks)
  consider "f k = None" | "f k = Some None" | r where "f k = Some (Some r)" by (metis option.exhaust)
  then show ?case
  proof cases
    case 1
    with Cons.prems have "cloned h f sv m2 ks h3 m3" by (intro Cons.IH) (auto simp: count_values_def)
    with 1 Cons.prems show ?thesis by (intro cloned_absent) auto
  next
    case 2
    have "clone_inv h f sv (m2(k \<mapsto> None))"
      using Cons.prems(1) by (auto simp: clone_inv_def md_ok_def)
    moreover have "count_values f ks \<le> s_len sv" "distinct ks" "\<forall>k'\<in>set ks. (m2(k \<mapsto> None)) k' = None"
      "clone_loop f ks sv (m2(k \<mapsto> None)) h = (m3, h3)"
      using Cons.prems 2 by (auto simp: count_values_def)
    ultimately have "cloned h f sv (m2(k \<mapsto> None)) ks h3 m3" by (rule Cons.IH)
    with 2 Cons.prems show ?thesis by (intro cloned_nil) auto
  next
    case 3
    obtain n h' where copy: "sv_copy sv (Some r) h = (n, h')" by fastforce
    let ?sv = "sv\<lparr>s_off := s_off sv + n, s_len := s_len sv - n, s_cap := s_cap sv - n\<rparr>"
    have m2k: "m2 k = None" and len: "s_len r \<le> s_len sv"
      using Cons.prems 3 by (auto simp: count_values_def)
    note turn = clone_turn [OF Cons.prems(1) 3 m2k len copy]
    let ?m2 = "m2(k \<mapsto> Some (sv\<lparr>s_len := n, s_cap := n\<rparr>))"
    have "count_values f ks \<le> s_len ?sv" "distinct ks" "\<forall>k'\<in>set ks. ?m2 k' = None"
      "clone_loop f ks ?sv ?m2 h' = (m3, h3)"
      using Cons.prems 3 turn(2) copy by (auto simp: count_values_def)
    with turn(1) have "cloned h' f ?sv ?m2 ks h3 m3" by (rule Cons.IH)
    with Cons.prems show ?thesis by (intro cloned_copy [OF Cons.prems(1) 3 m2k len copy]) auto
  qed
qed

lemma setRequest_concat:
  "setRequest h ks f md =
     md @ concat (map (\<lambda>k. map (\<lambda>v. \<lparr>Key = k, Value = v\<rparr>) (old_values (view h f k))) ks)"
proof -
  have inner: "fold (\<lambda>v md. md @ [\<lparr>Key = k, Value = v\<rparr>]) vs md = md @ map (\<lambda>v. \<lparr>Key = k, Value = v\<rparr>) vs"
    for k vs md
    by (induction vs arbitrary: md) simp_all
  have "(case f k of None \<Rightarrow> [] | Some values \<Rightarrow> str_read h values) = old_values (view h f k)" for k
    by (simp add: old_values_def view_def split: option.splits)
  then show ?thesis
    by (induction ks arbitrary: md) (simp_all add: setRequest_def inner)
qed

lemma values_of_append: "values_of k (kvs @ kvs') = values_of k kvs @ values_of k kvs'"
  by (simp add: values_of_def)

lemma values_of_setRequest:
  assumes "distinct ks" "set ks = dom f"
  shows "values_of k (setRequest h ks f []) = old_values (view h f k)"
proof -
  have own: "values_of k (map (\<lambda>v. \<lparr>Key = k', Value = v\<rparr>) vs) = (if k = k' then vs else [])" for k' vs
    by (induction vs) (auto simp: values_of_def)
  have "values_of k (concat (map (\<lambda>k. map (\<lambda>v. \<lparr>Key = k, Value = v\<rparr>) (old_values (view h f k))) ks)) =
    (if k \<in> set ks then old_values (view h f k) else [])"
    using assms(1)
  proof (induction ks)
    case (Cons a ks)
    then show ?case by (auto simp: values_of_append own)
  qed (simp add: values_of_def)
  moreover have "old_values (view h f k) = []" if "k \<notin> set ks"
    using that assms(2) by (auto simp: view_def old_values_def domIff)
  ultimately show ?thesis by (simp add: setRequest_concat)
qed

lemma count_values_order:
  assumes "distinct ks1" "distinct ks2" "set ks1 = set ks2"
  shows "count_values f ks1 = count_values f ks2"
  using assms by (simp add: count_values_def sum_list_distinct_conv_sum_set)

lemma Clone_ok:
  assumes "\<forall>k s. f k = Some s \<longrightarrow> valid h s"
    and "distinct ks1" "set ks1 = dom f" "distinct ks2" "set ks2 = dom f"
    and "Clone ks1 ks2 (Some f) h = (m, h2)"
  shows "\<exists>m2. m = Some m2 \<and> md_ok h2 m2 \<and> view h2 m2 = view h f \<and> view h2 f = view h f \<and>
    (\<forall>k. m2 k = Some None \<longleftrightarrow> f k = Some None) \<and>
    (\<forall>k. f k = None \<longrightarrow> m2 k = None) \<and>
    (\<forall>k k' s s'. m2 k = Some s \<longrightarrow> f k' = Some s' \<longrightarrow> apart s s') \<and>
    (\<forall>k s. f k = Some s \<longrightarrow> valid h2 s)"
proof -
  define nv where "nv = count_values f ks1"
  obtain a h1 where alloc: "str_alloc (replicate nv '''') h = (a, h1)" by fastforce
  let ?sv = "\<lparr>s_arr = a, s_off = 0, s_len = nv, s_cap = nv\<rparr>"
  obtain m2 where loop: "clone_loop f ks2 ?sv Map.empty h1 = (m2, h2)" and m: "m = Some m2"
    using assms(6) alloc by (auto simp: Clone_def nv_def Let_def split: prod.splits)
  have fr: "str_read h1 t = str_read h t" "valid h1 t" if "valid h t" for t
    using str_alloc_frame [OF alloc that] by simp_all
  have new: "a = next_array h" "next_array h1 = Suc (next_array h)" "arrays h1 a = replicate nv ''''"
    using str_alloc_frame [OF alloc, of None] by simp_all
  have vsv: "valid h1 (Some ?sv)" using new by (simp add: valid_def)
  have off: "s_arr r \<noteq> a" if "f k = Some (Some r)" for k r
    using assms(1) [rule_format, OF that] new(1) by (auto simp: valid_def)
  have "clone_inv h1 f ?sv Map.empty"
    using new fr(2) assms(1) off vsv by (auto simp: clone_inv_def md_ok_def)
  moreover have "count_values f ks2 \<le> s_len ?sv"
    using count_values_order [of ks1 ks2 f] assms by (simp add: nv_def)
  ultimately have "cloned h1 f ?sv Map.empty ks2 h2 m2"
    using clone_loop_ok [OF _ _ assms(4) _ loop] by simp
  note copied = this [unfolded cloned_def]
  note L = copied [THEN conjunct1] copied [THEN conjunct2, THEN conjunct1, rule_format]
    copied [THEN conjunct2, THEN conjunct2, THEN conjunct1, rule_format]
    copied [THEN conjunct2, THEN conjunct2, THEN conjunct2, THEN conjunct1, rule_format]
    copied [THEN conjunct2, THEN conjunct2, THEN conjunct2, THEN conjunct2, rule_format]
  have keep: "str_read h2 s = str_read h s \<and> valid h2 s" if "f k = Some s" for k s
    using L(5) [of s] fr [of s] assms(1) off that by auto
  have f1: "view h1 f k = view h f k" for k
    using fr(1) assms(1) by (cases "f k") (auto simp: view_def)
  have "view h2 m2 k = view h f k" for k
    using L(2,3) [of k] f1 [of k] assms(5) by (cases "k \<in> set ks2") (auto simp: view_def domIff)
  moreover have "view h2 f k = view h f k" for k
    using keep [of k] by (cases "f k") (auto simp: view_def)
  moreover have "m2 k = Some None \<longleftrightarrow> f k = Some None" for k
    using L(2,3) [of k] assms(5) by (cases "k \<in> set ks2") (auto simp: domIff)
  moreover have "m2 k = None" if "f k = None" for k
    using L(2) [of k] assms(5) that by (auto simp: domIff)
  moreover have "apart s s'" if "m2 k = Some s" "f k' = Some s'" for k k' s s'
    using that L(4) off by (cases s; cases s') (fastforce simp: apart_def)+
  ultimately show ?thesis using m L(1) keep by (intro exI [of _ m2]) (auto simp: fun_eq_iff)
qed

section \<open>Properties of the metadata\<close>

text \<open>
  \<open>Set\<close> and \<open>Get\<close> agree on keys up to case: after \<open>Set\<close> with values, \<open>Get\<close> of the key
  in any case returns these values; after \<open>Set\<close> with none, the key is gone; every other key reads
  as before; and neither panics on a map that was made.
\<close>

lemma md_get_after_set:
  "\<exists>f'. Set (Some f) key values = Some (Some f') \<and>
    (\<forall>k. Get (Some f') k =
       (if strings_ToLower k \<noteq> strings_ToLower key then Get (Some f) k
        else if str_len values = 0 then (None, False) else (values, True)))"
  by (auto simp: Set_def Get_def md_index_def Let_def)

text \<open>
  \<open>Append\<close> adds the given values after those the key has, under the lower-case key, and
  changes no other key of the map, whether it writes into the key's array or moves to a new one.
  The map stays well-formed, and every slice outside the key's own capacity reads as before.
\<close>

lemma md_append_values:
  assumes "grow_ok grow" and "md_ok h f" and "valid h values"
    and "\<forall>k s. f k = Some s \<longrightarrow> apart values s"
    and "Append grow (Some f) key values h = (m, h')"
  shows "\<exists>f'. m = Some (Some f') \<and> md_ok h' f' \<and>
    view h' f' =
      (if str_len values = 0 then view h f
       else (view h f)(strings_ToLower key \<mapsto>
         old_values (view h f (strings_ToLower key)) @ str_read h values)) \<and>
    (\<forall>t. valid h t \<longrightarrow> (\<forall>s. f (strings_ToLower key) = Some s \<longrightarrow> apart s t) \<longrightarrow>
       str_read h' t = str_read h t)"
  using assms by (rule Append_ok)

definition example_store :: store where
  "example_store = \<lparr>arrays = (\<lambda>a. if a = 0 then [''1'', ''2'', ''3''] else []), next_array = 1\<rparr>"

definition example_slice :: "nat \<Rightarrow> nat \<Rightarrow> strings" where
  "example_slice off n = Some \<lparr>s_arr = 0, s_off = off, s_len = n, s_cap = n\<rparr>"

lemma md_append_values_witness:
  "\<exists>f' h'. Append (\<lambda>c n. n) (Some [''foo'' \<mapsto> example_slice 0 1]) ''FOO'' (example_slice 1 2) example_store
      = (Some (Some f'), h') \<and>
    view h' f' ''foo'' = Some [''1'', ''2'', ''3'']"
proof -
  let ?f = "[''foo'' \<mapsto> example_slice 0 1]"
  obtain m h' where run: "Append (\<lambda>c n. n) (Some ?f) ''FOO'' (example_slice 1 2) example_store = (m, h')"
    by fastforce
  have lower: "strings_ToLower ''FOO'' = ''foo''"
    by code_simp
  have "grow_ok (\<lambda>c n. n)" "md_ok example_store ?f" "valid example_store (example_slice 1 2)"
    "\<forall>k s. ?f k = Some s \<longrightarrow> apart (example_slice 1 2) s"
    by (auto simp: grow_ok_def md_ok_def valid_def apart_def example_slice_def example_store_def
        split: if_splits)
  from md_append_values [OF this run] obtain f' where "m = Some (Some f')"
    "view h' f' = (view example_store ?f)(''foo'' \<mapsto>
       old_values (view example_store ?f ''foo'') @ str_read example_store (example_slice 1 2))"
    unfolding lower by (auto simp: example_slice_def)
  moreover have "old_values (view example_store ?f ''foo'') @ str_read example_store (example_slice 1 2)
      = [''1'', ''2'', ''3'']"
    by (simp add: view_def old_values_def str_read_def example_slice_def example_store_def)
  ultimately show ?thesis using run by auto
qed

text \<open>
  Claim C40. \<open>Clone\<close> keeps every key with its values, nil slices included, whatever orders the two
  loops visit the keys in; it leaves the original as it was; and its slices, which share one array,
  are full and pairwise apart, so that a later \<open>Append\<close> to any key of the clone changes neither
  another key of the clone nor the original.
\<close>

theorem md_clone_isolated:
  assumes "\<forall>k s. f k = Some s \<longrightarrow> valid h s"
    and "distinct ks1" and "set ks1 = dom f" and "distinct ks2" and "set ks2 = dom f"
    and "Clone ks1 ks2 (Some f) h = (m, h2)"
  shows "\<exists>m2. m = Some m2 \<and> md_ok h2 m2 \<and> view h2 m2 = view h f \<and> view h2 f = view h f \<and>
    (\<forall>k. m2 k = Some None \<longleftrightarrow> f k = Some None) \<and>
    (\<forall>grow key values m3 h3. grow_ok grow \<longrightarrow> valid h2 values \<longrightarrow>
       (\<forall>k s. m2 k = Some s \<longrightarrow> apart values s) \<longrightarrow>
       Append grow (Some m2) key values h2 = (m3, h3) \<longrightarrow>
       view h3 f = view h f \<and>
       (\<exists>f3. m3 = Some (Some f3) \<and>
          (\<forall>k. k \<noteq> strings_ToLower key \<longrightarrow> view h3 f3 k = view h f k)))"
proof -
  obtain m2 where m2: "m = Some m2" "md_ok h2 m2" "view h2 m2 = view h f" "view h2 f = view h f"
    "\<forall>k. m2 k = Some None \<longleftrightarrow> f k = Some None"
    "\<forall>k k' s s'. m2 k = Some s \<longrightarrow> f k' = Some s' \<longrightarrow> apart s s'"
    "\<forall>k s. f k = Some s \<longrightarrow> valid h2 s"
    using Clone_ok [OF assms] by blast
  have "view h3 f = view h f \<and> (\<exists>f3. m3 = Some (Some f3) \<and>
      (\<forall>k. k \<noteq> strings_ToLower key \<longrightarrow> view h3 f3 k = view h f k))"
    if app: "grow_ok grow" "valid h2 vs" "\<forall>k s. m2 k = Some s \<longrightarrow> apart vs s"
      "Append grow (Some m2) key vs h2 = (m3, h3)" for grow key vs m3 h3
  proof -
    from Append_ok [OF app(1) m2(2) app(2) app(3) app(4)] obtain f3 where
      f3: "m3 = Some (Some f3)" "view h3 f3 = (if str_len vs = 0 then view h2 m2
        else (view h2 m2)(strings_ToLower key \<mapsto>
          old_values (view h2 m2 (strings_ToLower key)) @ str_read h2 vs))"
      and frame: "\<And>t. valid h2 t \<Longrightarrow> (\<And>s. m2 (strings_ToLower key) = Some s \<Longrightarrow> apart s t) \<Longrightarrow>
        str_read h3 t = str_read h2 t" by blast
    have "view h3 f k = view h2 f k" for k
      using frame m2(6,7) by (cases "f k") (auto simp: view_def)
    then have "view h3 f = view h f" using m2(4) by (simp add: fun_eq_iff)
    with f3 m2(3) show ?thesis by auto
  qed
  with m2 show ?thesis by blast
qed

theorem md_clone_isolated_witness:
  "\<exists>m2 h2. Clone [''a'', ''b''] [''b'', ''a'']
      (Some [''a'' \<mapsto> example_slice 0 1, ''b'' \<mapsto> example_slice 1 2]) example_store = (Some m2, h2) \<and>
    view h2 m2 ''b'' = Some [''2'', ''3'']"
proof -
  let ?f = "[''a'' \<mapsto> example_slice 0 1, ''b'' \<mapsto> example_slice 1 2]"
  obtain m h2 where run: "Clone [''a'', ''b''] [''b'', ''a''] (Some ?f) example_store = (m, h2)"
    by fastforce
  have "\<forall>k s. ?f k = Some s \<longrightarrow> valid example_store s"
    by (auto simp: valid_def example_slice_def example_store_def split: if_splits)
  moreover have "distinct [''a'', ''b'']" "set [''a'', ''b''] = dom ?f"
    "distinct [''b'', ''a'']" "set [''b'', ''a''] = dom ?f" by auto
  ultimately obtain m2 where "m = Some m2" "view h2 m2 = view example_store ?f"
    using md_clone_isolated [OF _ _ _ _ _ run] by blast
  moreover have "view example_store ?f ''b'' = Some [''2'', ''3'']"
    by (simp add: view_def str_read_def example_slice_def example_store_def)
  ultimately show ?thesis using run by metis
qed

text \<open>Into an empty map \<open>fromRequest\<close> puts, for every key, the values of its pairs in order.\<close>

lemma fromRequest_values:
  assumes "grow_ok grow" and "fromRequest grow Map.empty kvs h = (f, h2)"
  shows "view h2 f k = (if values_of k kvs = [] then None else Some (values_of k kvs))"
proof -
  have "md_ok h Map.empty" by (simp add: md_ok_def)
  with md.vals_fold [of "(grow, Map.empty, h)" kvs k] assms show ?thesis
    by (simp add: fromRequest_fold view_def old_values_def)
qed

text \<open>
  Metadata survives the wire: the pairs that \<open>setRequest\<close> writes, in whatever order it
  visits the keys, make \<open>fromRequest\<close> rebuild, in an empty map, every key with its values in order;
  a key with no values is not sent.
\<close>

lemma md_wire_roundtrip:
  assumes "grow_ok grow" and "distinct ks" and "set ks = dom f"
    and "fromRequest grow Map.empty (setRequest h ks f []) h0 = (f', h')"
  shows "view h' f' k = (case view h f k of Some (v # vs) \<Rightarrow> Some (v # vs) | _ \<Rightarrow> None)"
proof -
  note fromRequest_values [OF assms(1,4), of k]
  with values_of_setRequest [OF assms(2,3), of k h] show ?thesis
    by (auto simp: old_values_def split: option.splits list.splits)
qed

lemma md_wire_roundtrip_witness:
  "\<exists>f' h'. fromRequest (\<lambda>c n. n) Map.empty
      (setRequest example_store [''a''] [''a'' \<mapsto> example_slice 1 2] []) example_store = (f', h') \<and>
    view h' f' ''a'' = Some [''2'', ''3'']"
proof -
  obtain f' h' where run: "fromRequest (\<lambda>c n. n) Map.empty
      (setRequest example_store [''a''] [''a'' \<mapsto> example_slice 1 2] []) example_store = (f', h')"
    by fastforce
  have "grow_ok (\<lambda>c n. n)" "distinct [''a'']" "set [''a''] = dom [''a'' \<mapsto> example_slice 1 2]"
    by (simp_all add: grow_ok_def)
  moreover have "view example_store [''a'' \<mapsto> example_slice 1 2] ''a'' = Some [''2'', ''3'']"
    by (simp add: view_def str_read_def example_slice_def example_store_def)
  ultimately show ?thesis using md_wire_roundtrip [OF _ _ _ run, of "''a''"] run by simp
qed

end
