(* ===== verification/Ttrpc_Codec.thy ===== *)
theory Ttrpc_Codec
  imports Ttrpc_Metadata
begin

text \<open>
  The messages of the protocol (\<open>request.proto\<close>, as the code reads and fills their Go structs) and
  their encoding: the \<open>codec\<close> of \<open>codec.go\<close> and the payload functions of \<open>services.go\<close>.

  Protocol buffers are not part of the repository: the encoder and the decoder are the fields of
  the record \<open>proto\<close>, and \<open>proto_ok\<close> states the documented round trip, in which an empty bytes field
  comes back nil. \<open>'u\<close> is the type of the user's messages, of one or of several Go types: \<open>same_user\<close> tells
  whether two of them are of the same Go type.
\<close>

section \<open>Requests, responses and values of type any\<close>

record Request =
  Service :: string
  Method :: string
  Payload :: gobytes
  TimeoutNano :: int
  Metadata :: "KeyValue list"

definition empty_request :: Request where
  "empty_request = \<lparr>Service = '''', Method = '''', Payload = None, TimeoutNano = 0, Metadata = []\<rparr>"

record Response =
  RStatus :: "status option"
  RPayload :: gobytes

definition empty_response :: Response where
  "empty_response = \<lparr>RStatus = None, RPayload = None\<rparr>"

datatype 'u message_value = MRequest Request | MResponse Response | MUser 'u

text \<open>
  A value of type \<open>any\<close>: nil, a proto message behind a pointer that may be nil, or a value of
  another type, of which the code only prints the type.
\<close>

datatype 'u any = AnyNil | AnyMessage "'u message_value option" | AnyOther string

fun type_name :: "'u any \<Rightarrow> string" where
  "type_name AnyNil = ''<nil>''"
| "type_name (AnyMessage m) = ''proto.Message''"
| "type_name (AnyOther t) = t"

record 'u proto =
  Marshal :: "'u message_value option \<Rightarrow> error + gobytes"
  Unmarshal :: "gobytes \<Rightarrow> 'u message_value option \<Rightarrow> error + 'u message_value option"
  same_user :: "'u \<Rightarrow> 'u \<Rightarrow> bool"

fun same_type :: "'u proto \<Rightarrow> 'u message_value \<Rightarrow> 'u message_value \<Rightarrow> bool" where
  "same_type P (MRequest a) (MRequest b) = True"
| "same_type P (MResponse a) (MResponse b) = True"
| "same_type P (MUser a) (MUser b) = same_user P a b"
| "same_type P a b = False"

definition norm_bytes :: "gobytes \<Rightarrow> gobytes" where
  "norm_bytes p = (if slice p = [] then None else p)"

fun norm_message :: "'u message_value \<Rightarrow> 'u message_value" where
  "norm_message (MRequest r) = MRequest (r\<lparr>Payload := norm_bytes (Payload r)\<rparr>)"
| "norm_message (MResponse r) = MResponse (r\<lparr>RPayload := norm_bytes (RPayload r)\<rparr>)"
| "norm_message (MUser u) = MUser u"

definition proto_ok :: "'u proto \<Rightarrow> bool" where
  "proto_ok P \<longleftrightarrow> (\<forall>m b target. Marshal P (Some m) = Inr b \<longrightarrow> same_type P m target \<longrightarrow>
     Unmarshal P b (Some target) = Inr (Some (norm_message m)))"

section \<open>The codec\<close>

definition codec_Marshal :: "'u proto \<Rightarrow> 'u any \<Rightarrow> error + gobytes" where
  "codec_Marshal P msg =
     (case msg of
        AnyMessage v \<Rightarrow> Marshal P v
      | _ \<Rightarrow> Inl (ErrorString (''ttrpc: cannot marshal unknown type: '' @ type_name msg)))"

definition codec_Unmarshal :: "'u proto \<Rightarrow> gobytes \<Rightarrow> 'u any \<Rightarrow> error + 'u any" where
  "codec_Unmarshal P p msg =
     (case msg of
        AnyMessage v \<Rightarrow> map_sum id AnyMessage (Unmarshal P p v)
      | _ \<Rightarrow> Inl (ErrorString (''ttrpc: cannot unmarshal into unknown type: '' @ type_name msg)))"

section \<open>Payloads\<close>

definition protoUnmarshal :: "(status \<Rightarrow> string) \<Rightarrow> 'u proto \<Rightarrow> gobytes \<Rightarrow> 'u any \<Rightarrow> error + 'u any" where
  "protoUnmarshal txt P p obj =
     (case obj of
        AnyMessage v \<Rightarrow>
          (case Unmarshal P p v of
             Inl err \<Rightarrow> Inl (StatusError (Status Internal
               (''ttrpc: error unmarshalling payload: '' @ error_text txt err)))
           | Inr v' \<Rightarrow> Inr (AnyMessage v'))
      | _ \<Rightarrow> Inl (StatusError (Status Internal
               (''ttrpc: error unsupported request type: '' @ type_name obj))))"

definition protoMarshal :: "(status \<Rightarrow> string) \<Rightarrow> 'u proto \<Rightarrow> 'u any \<Rightarrow> error + gobytes" where
  "protoMarshal txt P obj =
     (if obj = AnyNil then Inr None
      else
        (case obj of
           AnyMessage v \<Rightarrow>
             (case Marshal P v of
                Inl err \<Rightarrow> Inl (StatusError (Status Internal
                  (''ttrpc: error marshaling payload: '' @ error_text txt err)))
              | Inr r \<Rightarrow> Inr r)
         | _ \<Rightarrow> Inl (StatusError (Status Internal
                  (''ttrpc: error unsupported response type: '' @ type_name obj)))))"

text \<open>\<open>isNil\<close> looks at the data word of the interface: nil itself and a nil pointer.\<close>

definition isNil :: "'u any \<Rightarrow> bool" where
  "isNil resp = (case resp of AnyNil \<Rightarrow> True | AnyMessage None \<Rightarrow> True | _ \<Rightarrow> False)"

lemma payload_roundtrip:
  assumes "proto_ok P" "same_type P m target" "protoMarshal txt P (AnyMessage (Some m)) = Inr b"
  shows "protoUnmarshal txt P b (AnyMessage (Some target)) = Inr (AnyMessage (Some (norm_message m)))"
  using assms by (auto simp: protoMarshal_def protoUnmarshal_def proto_ok_def split: sum.splits)

lemma codec_roundtrip:
  assumes "proto_ok P" "same_type P m target" "codec_Marshal P (AnyMessage (Some m)) = Inr b"
  shows "codec_Unmarshal P b (AnyMessage (Some target)) = Inr (AnyMessage (Some (norm_message m)))"
  using assms by (auto simp: codec_Marshal_def codec_Unmarshal_def proto_ok_def)

lemma protoMarshal_errors_have_status:
  "protoMarshal txt P obj = Inl err \<Longrightarrow> \<exists>s. err = StatusError s \<and> status_code s = Internal"
  by (auto simp: protoMarshal_def split: if_splits any.splits sum.splits)

section \<open>A concrete encoding\<close>

text \<open>
  An instance for closed examples, with byte strings as the user's messages. It encodes requests
  without timeout and metadata, and statuses with a code that has a name; texts are short.
\<close>

definition code_names :: "code list" where
  "code_names = [OK, Canceled, Unknown, InvalidArgument, DeadlineExceeded, NotFound, AlreadyExists,
     PermissionDenied, ResourceExhausted, FailedPrecondition, OutOfRange, Unimplemented, Internal]"

fun code_byte :: "code \<Rightarrow> u8" where
  "code_byte OK = 1" | "code_byte Canceled = 2" | "code_byte Unknown = 3"
| "code_byte InvalidArgument = 4" | "code_byte DeadlineExceeded = 5" | "code_byte NotFound = 6"
| "code_byte AlreadyExists = 7" | "code_byte PermissionDenied = 8" | "code_byte ResourceExhausted = 9"
| "code_byte FailedPrecondition = 10" | "code_byte OutOfRange = 11" | "code_byte Unimplemented = 12"
| "code_byte Internal = 13" | "code_byte (OtherCode n) = 0"

definition str_bytes :: "string \<Rightarrow> bytes" where
  "str_bytes s = map (\<lambda>c. word_of_nat (of_char c)) s"

definition bytes_str :: "bytes \<Rightarrow> string" where
  "bytes_str bs = map (\<lambda>b. char_of (unat b)) bs"

lemma bytes_str_str_bytes [simp]: "bytes_str (str_bytes s) = s"
proof -
  have "unat (word_of_nat (of_char c) :: u8) = of_char c" for c
  proof -
    have "(of_char c :: nat) < 256" by (rule nat_of_char_less_256)
    then show ?thesis by (simp add: unsigned_of_nat take_bit_nat_eq_self)
  qed
  then show ?thesis by (simp add: bytes_str_def str_bytes_def o_def)
qed

lemma length_str_bytes [simp]: "length (str_bytes s) = length s"
  by (simp add: str_bytes_def)

definition opt_bytes :: "bytes \<Rightarrow> gobytes" where
  "opt_bytes bs = (if bs = [] then None else Some bs)"

definition example_marshal :: "bytes message_value option \<Rightarrow> error + gobytes" where
  "example_marshal m =
     (case m of
        None \<Rightarrow> Inr None
      | Some (MUser bs) \<Rightarrow> Inr (Some bs)
      | Some (MResponse r) \<Rightarrow>
          (case RStatus r of
             None \<Rightarrow> Inr (Some (0 # slice (RPayload r)))
           | Some st \<Rightarrow>
               if status_code st \<in> set code_names \<and> length (status_msg st) < 256
               then Inr (Some (code_byte (status_code st) # word_of_nat (length (status_msg st)) #
                 str_bytes (status_msg st) @ slice (RPayload r)))
               else Inl (ErrorString ''status''))
      | Some (MRequest r) \<Rightarrow>
          (if TimeoutNano r = 0 \<and> Metadata r = [] \<and> length (Service r) < 256 \<and> length (Method r) < 256
           then Inr (Some (word_of_nat (length (Service r)) # word_of_nat (length (Method r)) #
             str_bytes (Service r) @ str_bytes (Method r) @ slice (Payload r)))
           else Inl (ErrorString ''request'')))"

definition example_unmarshal ::
    "gobytes \<Rightarrow> bytes message_value option \<Rightarrow> error + bytes message_value option" where
  "example_unmarshal p target =
     (case (target, slice p) of
        (None, bs) \<Rightarrow> Inr None
      | (Some (MUser _), bs) \<Rightarrow> Inr (Some (MUser bs))
      | (Some (MResponse _), b # bs) \<Rightarrow>
          if b = 0 then Inr (Some (MResponse \<lparr>RStatus = None, RPayload = opt_bytes bs\<rparr>))
          else
            (case bs of
               n # cs \<Rightarrow>
                 Inr (Some (MResponse
                   \<lparr>RStatus = Some (Status (code_names ! (unat b - 1)) (bytes_str (take (unat n) cs))),
                    RPayload = opt_bytes (drop (unat n) cs)\<rparr>))
             | [] \<Rightarrow> Inl (ErrorString ''proto: cannot parse''))
      | (Some (MRequest _), m # n # bs) \<Rightarrow>
          Inr (Some (MRequest \<lparr>Service = bytes_str (take (unat m) bs),
            Method = bytes_str (take (unat n) (drop (unat m) bs)),
            Payload = opt_bytes (drop (unat m + unat n) bs), TimeoutNano = 0, Metadata = []\<rparr>))
      | _ \<Rightarrow> Inl (ErrorString ''proto: cannot parse''))"

definition example_proto :: "bytes proto" where
  "example_proto = \<lparr>Marshal = example_marshal, Unmarshal = example_unmarshal,
     same_user = (\<lambda>_ _. True)\<rparr>"

lemma example_proto_user [simp]: "same_user example_proto a b"
  by (simp add: example_proto_def)

lemma norm_bytes_opt: "norm_bytes p = opt_bytes (slice p)"
  by (cases p) (auto simp: norm_bytes_def opt_bytes_def)

lemma example_proto_ok: "proto_ok example_proto"
proof -
  have byte: "unat (word_of_nat n :: u8) = n" if "n < 256" for n
    using that by (simp add: unsigned_of_nat take_bit_nat_eq_self)
  have code: "code_byte c \<noteq> 0 \<and> code_names ! (unat (code_byte c) - Suc 0) = c" if "c \<in> set code_names" for c
    using that by (auto simp: code_names_def)
  have "example_unmarshal b (Some target) = Inr (Some (norm_message m))"
    if "example_marshal (Some m) = Inr b" "same_type example_proto m target" for m b target
    using that
    by (cases m; cases target)
      (auto simp: example_marshal_def example_unmarshal_def byte code norm_bytes_opt
        split: if_splits option.splits)
  then show ?thesis by (simp add: proto_ok_def example_proto_def)
qed

end
