(* ===== verification/Ttrpc_Interceptor.thy ===== *)
theory Ttrpc_Interceptor
  imports Ttrpc_Codec
begin

text \<open>
  Interceptors and their chains (\<open>interceptor.go\<close>, \<open>config.go\<close> and the options of \<open>client.go\<close>).

  A handler, an invoker and an interceptor are functions whose result type \<open>'r\<close> is left open, so
  that it can be a plain result or a computation over a state. The locale \<open>chaining\<close> states what
  the server's and the client's chain functions share.
\<close>

section \<open>Types\<close>

record UnaryServerInfo =
  us_FullMethod :: string

record UnaryClientInfo =
  uc_FullMethod :: string

record StreamServerInfo =
  ss_FullMethod :: string
  ss_StreamingClient :: bool
  ss_StreamingServer :: bool

type_synonym ('c, 'u, 'r) server_method = "'c \<Rightarrow> 'u \<Rightarrow> 'r"
type_synonym ('c, 'u, 'r) server_interceptor =
  "'c \<Rightarrow> 'u \<Rightarrow> UnaryServerInfo \<Rightarrow> ('c, 'u, 'r) server_method \<Rightarrow> 'r"
type_synonym ('c, 'q, 'p, 'r) invoker = "'c \<Rightarrow> 'q \<Rightarrow> 'p \<Rightarrow> 'r"
type_synonym ('c, 'q, 'p, 'r) client_interceptor =
  "'c \<Rightarrow> 'q \<Rightarrow> 'p \<Rightarrow> UnaryClientInfo \<Rightarrow> ('c, 'q, 'p, 'r) invoker \<Rightarrow> 'r"
type_synonym ('c, 's, 'r) stream_interceptor =
  "'c \<Rightarrow> 's \<Rightarrow> StreamServerInfo \<Rightarrow> ('c \<Rightarrow> 's \<Rightarrow> 'r) \<Rightarrow> 'r"

definition defaultServerInterceptor :: "('c, 'u, 'r) server_interceptor" where
  "defaultServerInterceptor ctx unmarshal info method = method ctx unmarshal"

definition defaultClientInterceptor :: "('c, 'q, 'p, 'r) client_interceptor" where
  "defaultClientInterceptor ctx req resp info invoker = invoker ctx req resp"

definition defaultStreamServerInterceptor :: "('c, 's, 'r) stream_interceptor" where
  "defaultStreamServerInterceptor ctx ss info stream = stream ctx ss"

section \<open>Chains\<close>

fun chainUnaryServerInterceptors ::
    "UnaryServerInfo \<Rightarrow> ('c, 'u, 'r) server_method \<Rightarrow> ('c, 'u, 'r) server_interceptor list \<Rightarrow>
     ('c, 'u, 'r) server_method" where
  "chainUnaryServerInterceptors info method [] = method"
| "chainUnaryServerInterceptors info method (i # is) =
     (\<lambda>ctx unmarshal. i ctx unmarshal info (chainUnaryServerInterceptors info method is))"

fun chainUnaryInterceptors ::
    "('c, 'q, 'p, 'r) client_interceptor list \<Rightarrow> ('c, 'q, 'p, 'r) invoker \<Rightarrow> UnaryClientInfo \<Rightarrow>
     ('c, 'q, 'p, 'r) invoker" where
  "chainUnaryInterceptors [] final info = final"
| "chainUnaryInterceptors (i # is) final info =
     (\<lambda>ctx req reply. i ctx req reply info (chainUnaryInterceptors is final info))"

text \<open>
  What a chain of layers does to what it wraps, and what wrapping one layer is: a chain is the
  nesting of its layers, the first outermost, and chains compose.
\<close>

locale chaining =
  fixes chain :: "'i list \<Rightarrow> 'm \<Rightarrow> 'm"
    and wrap :: "'i \<Rightarrow> 'm \<Rightarrow> 'm"
  assumes chain_Nil: "chain [] m = m"
    and chain_Cons: "chain (i # is) m = wrap i (chain is m)"
begin

lemma chain_foldr: "chain is m = foldr wrap is m"
  by (induction "is") (simp_all add: chain_Nil chain_Cons)

lemma chain_append: "chain (is @ js) m = chain is (chain js m)"
  by (simp add: chain_foldr)

lemma chain_transparent: "list_all (\<lambda>i. \<forall>m. wrap i m = m) is \<Longrightarrow> chain is m = m"
  by (induction "is") (simp_all add: chain_Nil chain_Cons)

end

interpretation srv: chaining "\<lambda>is m. chainUnaryServerInterceptors info m is"
    "\<lambda>i m ctx unmarshal. i ctx unmarshal info m"
  for info
  by unfold_locales simp_all

interpretation cli: chaining "\<lambda>is m. chainUnaryInterceptors is m info"
    "\<lambda>i m ctx req reply. i ctx req reply info m"
  for info
  by unfold_locales simp_all

section \<open>Server options\<close>

record ('h, 'i) serverConfig =
  handshaker :: "'h option"
  interceptor :: "'i option"

definition empty_config :: "('h, 'i) serverConfig" where
  "empty_config = \<lparr>handshaker = None, interceptor = None\<rparr>"

definition WithServerHandshaker ::
    "'h option \<Rightarrow> ('h, 'i) serverConfig \<Rightarrow> error + ('h, 'i) serverConfig" where
  "WithServerHandshaker hs c =
     (if handshaker c \<noteq> None then Inl (ErrorString ''only one handshaker allowed per server'')
      else Inr (c\<lparr>handshaker := hs\<rparr>))"

definition WithUnaryServerInterceptor ::
    "'i option \<Rightarrow> ('h, 'i) serverConfig \<Rightarrow> error + ('h, 'i) serverConfig" where
  "WithUnaryServerInterceptor i c =
     (if interceptor c \<noteq> None
      then Inl (ErrorString ''only one unchained interceptor allowed per server'')
      else Inr (c\<lparr>interceptor := i\<rparr>))"

definition WithChainUnaryServerInterceptor ::
    "('c, 'u, 'r) server_interceptor list \<Rightarrow> ('h, ('c, 'u, 'r) server_interceptor) serverConfig \<Rightarrow>
     error + ('h, ('c, 'u, 'r) server_interceptor) serverConfig" where
  "WithChainUnaryServerInterceptor interceptors c =
     (if interceptors = [] then Inr c
      else
        (case (case interceptor c of Some i \<Rightarrow> i # interceptors | None \<Rightarrow> interceptors) of
           [] \<Rightarrow> Inr c
         | first # others \<Rightarrow>
             Inr (c\<lparr>interceptor := Some (\<lambda>ctx unmarshal info method.
               first ctx unmarshal info (chainUnaryServerInterceptors info method others))\<rparr>)))"

text \<open>
  The part of \<open>NewServer\<close> that applies the options, in order and up to the first error, and falls
  back to the default interceptor.
\<close>

fun apply_opts :: "('cfg \<Rightarrow> error + 'cfg) list \<Rightarrow> 'cfg \<Rightarrow> error + 'cfg" where
  "apply_opts [] c = Inr c"
| "apply_opts (opt # opts) c = (case opt c of Inl err \<Rightarrow> Inl err | Inr c' \<Rightarrow> apply_opts opts c')"

definition new_config ::
    "(('h, ('c, 'u, 'r) server_interceptor) serverConfig \<Rightarrow>
        error + ('h, ('c, 'u, 'r) server_interceptor) serverConfig) list \<Rightarrow>
     error + ('h, ('c, 'u, 'r) server_interceptor) serverConfig" where
  "new_config opts =
     (case apply_opts opts empty_config of
        Inl err \<Rightarrow> Inl err
      | Inr c \<Rightarrow>
          Inr (if interceptor c = None then c\<lparr>interceptor := Some defaultServerInterceptor\<rparr> else c))"

section \<open>Client options\<close>

text \<open>The fields of a client that options set; no \<open>userCloseFunc\<close> stands for the function that does nothing.\<close>

record ('f, 'i) clientConfig =
  userCloseFunc :: "'f option"
  clientInterceptor :: "'i option"

definition empty_client_config :: "('f, 'i) clientConfig" where
  "empty_client_config = \<lparr>userCloseFunc = None, clientInterceptor = None\<rparr>"

definition WithOnClose :: "'f \<Rightarrow> ('f, 'i) clientConfig \<Rightarrow> ('f, 'i) clientConfig" where
  "WithOnClose onClose c = c\<lparr>userCloseFunc := Some onClose\<rparr>"

definition WithUnaryClientInterceptor :: "'i \<Rightarrow> ('f, 'i) clientConfig \<Rightarrow> ('f, 'i) clientConfig" where
  "WithUnaryClientInterceptor i c = c\<lparr>clientInterceptor := Some i\<rparr>"

definition WithChainUnaryClientInterceptor ::
    "('c, 'q, 'p, 'r) client_interceptor list \<Rightarrow> ('f, ('c, 'q, 'p, 'r) client_interceptor) clientConfig \<Rightarrow>
     ('f, ('c, 'q, 'p, 'r) client_interceptor) clientConfig" where
  "WithChainUnaryClientInterceptor interceptors c =
     (if interceptors = [] then c
      else
        (case (case clientInterceptor c of Some i \<Rightarrow> i # interceptors | None \<Rightarrow> interceptors) of
           [] \<Rightarrow> c
         | first # others \<Rightarrow>
             c\<lparr>clientInterceptor := Some (\<lambda>ctx req reply info final.
               first ctx req reply info (chainUnaryInterceptors others final info))\<rparr>))"

text \<open>The part of \<open>NewClient\<close> that applies the options in order, then falls back to the default interceptor.\<close>

definition client_config ::
    "(('f, ('c, 'q, 'p, 'r) client_interceptor) clientConfig \<Rightarrow>
        ('f, ('c, 'q, 'p, 'r) client_interceptor) clientConfig) list \<Rightarrow>
     ('f, ('c, 'q, 'p, 'r) client_interceptor) clientConfig" where
  "client_config opts =
     (let c = fold (\<lambda>opt c. opt c) opts empty_client_config
      in if clientInterceptor c = None then c\<lparr>clientInterceptor := Some defaultClientInterceptor\<rparr> else c)"

definition client_interceptor_of ::
    "(('f, ('c, 'q, 'p, 'r) client_interceptor) clientConfig \<Rightarrow>
        ('f, ('c, 'q, 'p, 'r) client_interceptor) clientConfig) list \<Rightarrow>
     ('c, 'q, 'p, 'r) client_interceptor" where
  "client_interceptor_of opts = the (clientInterceptor (client_config opts))"

section \<open>Lists of options\<close>

text \<open>The server options as data, in the order they are given.\<close>

datatype ('h, 'i) server_opt = OptHandshaker 'h | OptInterceptor 'i | OptChain "'i list"

fun opt_fun ::
    "('h, ('c, 'u, 'r) server_interceptor) server_opt \<Rightarrow>
     ('h, ('c, 'u, 'r) server_interceptor) serverConfig \<Rightarrow>
     error + ('h, ('c, 'u, 'r) server_interceptor) serverConfig" where
  "opt_fun (OptHandshaker h) = WithServerHandshaker (Some h)"
| "opt_fun (OptInterceptor i) = WithUnaryServerInterceptor (Some i)"
| "opt_fun (OptChain is) = WithChainUnaryServerInterceptor is"

text \<open>What they install: all handshakers and all interceptors, in order.\<close>

fun opt_handshakers :: "('h, 'i) server_opt list \<Rightarrow> 'h list" where
  "opt_handshakers [] = []"
| "opt_handshakers (OptHandshaker h # opts) = h # opt_handshakers opts"
| "opt_handshakers (_ # opts) = opt_handshakers opts"

fun opt_interceptors :: "('h, 'i) server_opt list \<Rightarrow> 'i list" where
  "opt_interceptors [] = []"
| "opt_interceptors (OptInterceptor i # opts) = i # opt_interceptors opts"
| "opt_interceptors (OptChain is # opts) = is @ opt_interceptors opts"
| "opt_interceptors (OptHandshaker h # opts) = opt_interceptors opts"

text \<open>An unchained interceptor comes before every other interceptor.\<close>

fun unchained_first :: "bool \<Rightarrow> ('h, 'i) server_opt list \<Rightarrow> bool" where
  "unchained_first seen [] = True"
| "unchained_first seen (OptInterceptor i # opts) = (\<not> seen \<and> unchained_first True opts)"
| "unchained_first seen (OptChain is # opts) = unchained_first (seen \<or> is \<noteq> []) opts"
| "unchained_first seen (OptHandshaker h # opts) = unchained_first seen opts"

text \<open>The configuration holds these interceptors, nested in order.\<close>

definition holds ::
    "('h, ('c, 'u, 'r) server_interceptor) serverConfig \<Rightarrow> ('c, 'u, 'r) server_interceptor list \<Rightarrow> bool" where
  "holds c is \<longleftrightarrow>
     (case interceptor c of
        None \<Rightarrow> is = []
      | Some i \<Rightarrow> is \<noteq> [] \<and> (\<forall>ctx unmarshal info method.
          i ctx unmarshal info method = chainUnaryServerInterceptors info method is ctx unmarshal))"

lemma empty_config_simps [simp]:
  "handshaker empty_config = None" "interceptor empty_config = None"
  by (simp_all add: empty_config_def)

lemma holds_chain:
  assumes "holds c is"
  shows "\<exists>c'. WithChainUnaryServerInterceptor js c = Inr c' \<and> holds c' (is @ js) \<and>
    handshaker c' = handshaker c"
proof (cases js)
  case Nil
  with assms show ?thesis by (auto simp: WithChainUnaryServerInterceptor_def)
next
  case (Cons j js')
  with assms show ?thesis
    by (cases "interceptor c")
      (auto simp: WithChainUnaryServerInterceptor_def holds_def srv.chain_append)
qed

lemma apply_server_opts:
  assumes "holds c is"
  shows "case apply_opts (map opt_fun opts) c of
      Inl err \<Rightarrow> \<not> (length (opt_handshakers opts) + (if handshaker c = None then 0 else 1) \<le> 1 \<and>
        unchained_first (is \<noteq> []) opts)
    | Inr c' \<Rightarrow> length (opt_handshakers opts) + (if handshaker c = None then 0 else 1) \<le> 1 \<and>
        unchained_first (is \<noteq> []) opts \<and> holds c' (is @ opt_interceptors opts) \<and>
        handshaker c' =
          (case opt_handshakers opts of [] \<Rightarrow> handshaker c | h # hs \<Rightarrow> Some h)"
  using assms
proof (induction opts arbitrary: c "is")
  case Nil
  then show ?case by simp
next
  case (Cons opt opts)
  show ?case
  proof (cases opt)
    case (OptHandshaker h)
    have "holds (c\<lparr>handshaker := Some h\<rparr>) is" using Cons.prems by (simp add: holds_def)
    from Cons.IH [OF this] OptHandshaker show ?thesis
      by (cases "opt_handshakers opts") (auto simp: WithServerHandshaker_def split: sum.splits)
  next
    case (OptInterceptor i)
    show ?thesis
    proof (cases "interceptor c")
      case None
      with Cons.prems have "is = []" "holds (c\<lparr>interceptor := Some i\<rparr>) [i]"
        by (simp_all add: holds_def)
      with Cons.IH [OF this(2)] OptInterceptor None show ?thesis
        by (auto simp: WithUnaryServerInterceptor_def split: sum.splits list.splits if_splits)
    next
      case (Some j)
      with Cons.prems OptInterceptor show ?thesis
        by (auto simp: WithUnaryServerInterceptor_def holds_def)
    qed
  next
    case (OptChain js)
    from holds_chain [OF Cons.prems] obtain c' where
      "WithChainUnaryServerInterceptor js c = Inr c'" "holds c' (is @ js)"
      "handshaker c' = handshaker c" by blast
    with Cons.IH [OF this(2)] OptChain show ?thesis by (auto split: sum.splits list.splits if_splits)
  qed
qed

lemma client_groups_close:
  "userCloseFunc (fold (\<lambda>opt c. opt c) (map WithChainUnaryClientInterceptor groups) c) = userCloseFunc c"
proof (induction groups arbitrary: c)
  case (Cons js groups)
  have "userCloseFunc (WithChainUnaryClientInterceptor js c) = userCloseFunc c"
    by (cases js; cases "clientInterceptor c") (simp_all add: WithChainUnaryClientInterceptor_def)
  with Cons.IH show ?case by simp
qed simp

lemma client_groups_some:
  assumes "clientInterceptor c = Some j"
  shows "\<exists>k. clientInterceptor (fold (\<lambda>opt c. opt c) (map WithChainUnaryClientInterceptor groups) c) = Some k \<and>
     (\<forall>ctx req reply info final. k ctx req reply info final =
        j ctx req reply info (chainUnaryInterceptors (concat groups) final info))"
  using assms
proof (induction groups arbitrary: c j)
  case (Cons js groups)
  let ?j = "\<lambda>ctx req reply info final. j ctx req reply info (chainUnaryInterceptors js final info)"
  have "clientInterceptor (WithChainUnaryClientInterceptor js c) = Some ?j"
    using Cons.prems by (simp add: WithChainUnaryClientInterceptor_def)
  from Cons.IH [OF this] show ?case by (simp add: cli.chain_append)
qed simp

lemma client_groups_none:
  "client_interceptor_of (map (WithChainUnaryClientInterceptor :: _ \<Rightarrow> ('f, _) clientConfig \<Rightarrow> _) groups) ctx req reply info final =
     chainUnaryInterceptors (concat groups) final info ctx req reply"
proof (induction groups)
  case Nil
  then show ?case
    by (simp add: client_interceptor_of_def client_config_def empty_client_config_def defaultClientInterceptor_def)
next
  case group: (Cons js groups)
  show ?case
  proof (cases js)
    case Nil
    with group show ?thesis
      by (simp add: client_interceptor_of_def client_config_def WithChainUnaryClientInterceptor_def)
  next
    case (Cons j js')
    let ?j = "\<lambda>ctx req reply info final. j ctx req reply info (chainUnaryInterceptors js' final info)"
    have "clientInterceptor (WithChainUnaryClientInterceptor js empty_client_config :: ('f, _) clientConfig) = Some ?j"
      using Cons by (simp add: WithChainUnaryClientInterceptor_def empty_client_config_def)
    from client_groups_some [OF this, of groups] Cons show ?thesis
      by (auto simp: client_interceptor_of_def client_config_def Let_def cli.chain_append)
  qed
qed

section \<open>Properties of the options and chains\<close>

text \<open>
  A list of server options is accepted exactly when it has at most one handshaker and
  no unchained interceptor after another interceptor; the configured interceptor then runs all the
  given ones nested in the order given, the first outermost, around the method, and with none
  given it calls the method.
\<close>

lemma server_options:
  "case new_config (map opt_fun opts) of
     Inl err \<Rightarrow> \<not> (length (opt_handshakers opts) \<le> 1 \<and> unchained_first False opts)
   | Inr c \<Rightarrow> length (opt_handshakers opts) \<le> 1 \<and> unchained_first False opts \<and>
       handshaker c = (case opt_handshakers opts of [] \<Rightarrow> None | h # hs \<Rightarrow> Some h) \<and>
       (\<exists>i. interceptor c = Some i \<and> (\<forall>ctx unmarshal info method.
          i ctx unmarshal info method =
          foldr (\<lambda>i m ctx unmarshal. i ctx unmarshal info m) (opt_interceptors opts) method ctx unmarshal))"
proof -
  have "holds empty_config []" by (simp add: holds_def empty_config_def)
  from apply_server_opts [OF this, of opts] show ?thesis
    by (cases "apply_opts (map opt_fun opts) empty_config")
      (auto simp: new_config_def holds_def defaultServerInterceptor_def srv.chain_foldr
        split: if_splits option.splits list.splits)
qed

text \<open>
  The interceptor of a client built from chained groups of interceptors runs all of
  them nested in the order of the options, the first outermost, around the final invoker; with
  none it calls the invoker; and an unchained option discards every interceptor given before it. The last
  \<open>WithOnClose\<close> determines the function that runs when the client has closed.
\<close>

lemma client_options:
  "client_interceptor_of (map WithChainUnaryClientInterceptor groups) ctx req reply info final =
     foldr (\<lambda>i m ctx req reply. i ctx req reply info m) (concat groups) final ctx req reply"
  "client_interceptor_of (opts @ WithUnaryClientInterceptor i #
        map WithChainUnaryClientInterceptor groups) ctx req reply info final =
     foldr (\<lambda>i m ctx req reply. i ctx req reply info m) (i # concat groups) final ctx req reply"
  "userCloseFunc (client_config (opts @ WithOnClose onClose # map WithChainUnaryClientInterceptor groups)) =
     Some onClose"
proof -
  let ?c = "WithUnaryClientInterceptor i (fold (\<lambda>opt c. opt c) opts empty_client_config)"
  have "clientInterceptor ?c = Some i" by (simp add: WithUnaryClientInterceptor_def)
  from client_groups_some [OF this, of groups]
  show "client_interceptor_of (opts @ WithUnaryClientInterceptor i #
        map WithChainUnaryClientInterceptor groups) ctx req reply info final =
     foldr (\<lambda>i m ctx req reply. i ctx req reply info m) (i # concat groups) final ctx req reply"
    by (auto simp: client_interceptor_of_def client_config_def cli.chain_foldr)
qed (simp_all add: client_groups_none cli.chain_foldr client_config_def Let_def client_groups_close WithOnClose_def)

end
