(* ===== verification/Ttrpc_Channel.thy ===== *)
theory Ttrpc_Channel
  imports Ttrpc_Errors
begin

text \<open>
  The framing layer (\<open>channel.go\<close>): the ten-byte header in big-endian order, \<open>recv\<close> over the
  bytes a connection delivers, \<open>send\<close> through the buffered writer, and the receive buffers.

  The connection is the environment. Its reading side is a \<open>reader\<close>: the bytes that will still
  arrive and the error that follows them (\<open>IoEOF\<close> for an orderly close). Its writing side is a
  \<open>wconn\<close>: the bytes it has taken and, in \<open>wc_room\<close>, how many more it takes before it fails with
  \<open>wc_fault\<close> (\<open>None\<close>: it never fails). \<open>bufio.Writer\<close>, \<open>bufio.Reader\<close> and \<open>io.ReadFull\<close> are
  translated from the standard library. \<open>int\<close> is 64 bits wide, so \<open>int(mh.Length)\<close> is exact.
\<close>

section \<open>Messages and headers\<close>

definition messageHeaderLength :: nat where
  "messageHeaderLength = 10"

type_synonym messageType = u8

definition messageTypeRequest :: messageType where "messageTypeRequest = 1"
definition messageTypeResponse :: messageType where "messageTypeResponse = 2"
definition messageTypeData :: messageType where "messageTypeData = 3"

definition messageType_String :: "messageType \<Rightarrow> string" where
  "messageType_String mt =
     (if mt = messageTypeRequest then ''request''
      else if mt = messageTypeResponse then ''response''
      else if mt = messageTypeData then ''data''
      else ''unknown'')"

definition flagRemoteClosed :: u8 where "flagRemoteClosed = 1"
definition flagRemoteOpen :: u8 where "flagRemoteOpen = 2"
definition flagNoData :: u8 where "flagNoData = 4"

lemmas message_consts = messageTypeRequest_def messageTypeResponse_def messageTypeData_def
  flagRemoteClosed_def flagRemoteOpen_def flagNoData_def

text \<open>\<open>flags & f == f\<close>\<close>

definition has_flag :: "u8 \<Rightarrow> u8 \<Rightarrow> bool" where
  "has_flag flags f \<longleftrightarrow> flags AND f = f"

record messageHeader =
  Length :: u32
  StreamID :: u32
  Type :: messageType
  Flags :: u8

definition zero_header :: messageHeader where
  "zero_header = \<lparr>Length = 0, StreamID = 0, Type = 0, Flags = 0\<rparr>"

section \<open>Big-endian words\<close>

definition PutUint32 :: "u32 \<Rightarrow> bytes" where
  "PutUint32 v = [ucast (drop_bit 24 v), ucast (drop_bit 16 v), ucast (drop_bit 8 v), ucast v]"

definition Uint32 :: "bytes \<Rightarrow> u32" where
  "Uint32 b = ucast (b ! 3) OR push_bit 8 (ucast (b ! 2)) OR push_bit 16 (ucast (b ! 1))
     OR push_bit 24 (ucast (b ! 0))"

lemma length_PutUint32 [simp]: "length (PutUint32 v) = 4"
  by (simp add: PutUint32_def)

lemma Uint32_PutUint32 [simp]: "Uint32 (PutUint32 v) = v"
proof (rule bit_word_eqI)
  fix n
  assume "n < LENGTH(32)"
  then consider "n < 8" | "8 \<le> n \<and> n < 16" | "16 \<le> n \<and> n < 24" | "24 \<le> n \<and> n < 32"
    by fastforce
  then show "bit (Uint32 (PutUint32 v)) n = bit v n"
    by cases (auto simp: Uint32_def PutUint32_def bit_simps dest: bit_imp_le_length)
qed

lemma PutUint32_Uint32: "length b = 4 \<Longrightarrow> PutUint32 (Uint32 b) = b"
  by (erule length4E)
    (auto simp: PutUint32_def Uint32_def bit_simps intro!: bit_word_eqI dest: bit_imp_le_length)

section \<open>The reading side\<close>

record reader =
  rd_rest :: bytes
  rd_err :: error

text \<open>
  \<open>io.ReadFull\<close> of \<open>n\<close> bytes: the error after the last byte is \<open>IoErrUnexpectedEOF\<close> in place of
  \<open>IoEOF\<close> when some bytes had been read.
\<close>

definition ReadFull :: "nat \<Rightarrow> reader \<Rightarrow> (error + bytes) \<times> reader" where
  "ReadFull n r =
     (if n \<le> length (rd_rest r) then (Inr (take n (rd_rest r)), r\<lparr>rd_rest := drop n (rd_rest r)\<rparr>)
      else (Inl (if rd_rest r \<noteq> [] \<and> rd_err r = IoEOF then IoErrUnexpectedEOF else rd_err r),
            r\<lparr>rd_rest := []\<rparr>))"

definition Discard :: "nat \<Rightarrow> reader \<Rightarrow> error option \<times> reader" where
  "Discard n r =
     (if n \<le> length (rd_rest r) then (None, r\<lparr>rd_rest := drop n (rd_rest r)\<rparr>)
      else (Some (rd_err r), r\<lparr>rd_rest := []\<rparr>))"

definition readMessageHeader :: "reader \<Rightarrow> (error + messageHeader) \<times> reader" where
  "readMessageHeader r =
     (case ReadFull messageHeaderLength r of
        (Inl err, r') \<Rightarrow> (Inl err, r')
      | (Inr p, r') \<Rightarrow>
          (Inr \<lparr>Length = Uint32 (take 4 p), StreamID = Uint32 (take 4 (drop 4 p)),
                Type = p ! 8, Flags = p ! 9\<rparr>, r'))"

text \<open>
  \<open>getmbuf\<close>: \<open>pool\<close> is what \<open>buffers.Get()\<close> returned, \<open>None\<close> when the pool had no buffer, else a
  buffer listed over its whole capacity.
\<close>

definition getmbuf :: "bytes option \<Rightarrow> nat \<Rightarrow> bytes" where
  "getmbuf pool sz =
     (case pool of
        None \<Rightarrow> replicate sz 0
      | Some b \<Rightarrow> if length b < sz then replicate sz 0 else take sz b)"

definition putmbuf :: "gobytes \<Rightarrow> gobytes list \<Rightarrow> gobytes list" where
  "putmbuf p buffers = p # buffers"

lemma length_getmbuf [simp]: "length (getmbuf pool sz) = sz"
  by (auto simp: getmbuf_def split: option.splits)

text \<open>
  \<open>recv\<close> returns the header, the payload (nil when its length is zero) and the error.
\<close>

definition recv :: "bytes option \<Rightarrow> reader \<Rightarrow> (messageHeader \<times> gobytes \<times> error option) \<times> reader" where
  "recv pool r =
     (case readMessageHeader r of
        (Inl err, r1) \<Rightarrow> ((zero_header, None, Some err), r1)
      | (Inr mh, r1) \<Rightarrow>
          if word_of_nat messageLengthMax < Length mh then
            (case Discard (unat (Length mh)) r1 of
               (Some err, r2) \<Rightarrow>
                 ((mh, None,
                   Some (Wrapf ''failed to discard after receiving oversized message: '' err '''')),
                  r2)
             | (None, r2) \<Rightarrow>
                 ((mh, None, Some (StatusError (oversized_status (unat (Length mh))))), r2))
          else if Length mh > 0 then
            (case ReadFull (length (getmbuf pool (unat (Length mh)))) r1 of
               (Inl err, r2) \<Rightarrow>
                 ((zero_header, None, Some (Wrapf ''failed reading message: '' err '''')), r2)
             | (Inr p, r2) \<Rightarrow> ((mh, Some p, None), r2))
          else ((mh, None, None), r1))"

section \<open>The writing side\<close>

record wconn =
  wc_sent :: bytes
  wc_room :: "nat option"
  wc_fault :: error

definition conn_write :: "bytes \<Rightarrow> wconn \<Rightarrow> (nat \<times> error option) \<times> wconn" where
  "conn_write p c =
     (case wc_room c of
        None \<Rightarrow> ((length p, None), c\<lparr>wc_sent := wc_sent c @ p\<rparr>)
      | Some k \<Rightarrow>
          if length p \<le> k
          then ((length p, None), c\<lparr>wc_sent := wc_sent c @ p, wc_room := Some (k - length p)\<rparr>)
          else ((k, Some (wc_fault c)), c\<lparr>wc_sent := wc_sent c @ take k p, wc_room := Some 0\<rparr>))"

text \<open>\<open>bufio.Writer\<close> with its default buffer of 4096 bytes; an error is sticky.\<close>

record bufw =
  w_conn :: wconn
  w_buf :: bytes
  w_err :: "error option"

definition bufio_size :: nat where
  "bufio_size = 4096"

definition Flush :: "bufw \<Rightarrow> error option \<times> bufw" where
  "Flush w =
     (case w_err w of
        Some e \<Rightarrow> (Some e, w)
      | None \<Rightarrow>
          if w_buf w = [] then (None, w)
          else (let ((n, err), c) = conn_write (w_buf w) (w_conn w);
                    err = (if n < length (w_buf w) \<and> err = None then Some IoErrShortWrite else err)
                in case err of
                     None \<Rightarrow> (None, w\<lparr>w_conn := c, w_buf := []\<rparr>)
                   | Some e \<Rightarrow>
                       (Some e, w\<lparr>w_conn := c, w_buf := drop n (w_buf w), w_err := Some e\<rparr>)))"

lemma Flush_shape:
  "Flush w = (err, w') \<Longrightarrow>
     (w_err w = None \<and> w_err w' = None \<longrightarrow> w_buf w' = []) \<and> (w_err w \<noteq> None \<longrightarrow> w' = w)"
  by (auto simp: Flush_def Let_def split: option.splits if_splits prod.splits)

text \<open>One turn of the loop in \<open>bufio.Writer.Write\<close>.\<close>

definition write_turn :: "bytes \<Rightarrow> bufw \<Rightarrow> bytes \<times> bufw" where
  "write_turn p w =
     (if w_buf w = [] then
        (let ((n, err), c) = conn_write p (w_conn w)
         in (drop n p, w\<lparr>w_conn := c, w_err := err\<rparr>))
      else
        (let n = bufio_size - length (w_buf w)
         in (drop n p, snd (Flush (w\<lparr>w_buf := w_buf w @ take n p\<rparr>)))))"

lemma write_turn_progress:
  assumes "bufio_size - length (w_buf w) < length p" "w_err w = None"
    and "write_turn p w = (p', w')"
  shows "w_err w' \<noteq> None \<or> length p' < length p \<or>
     length p' = length p \<and> length (w_buf w') < length (w_buf w)"
proof (cases "w_buf w = []")
  case True
  with assms show ?thesis
    by (auto simp: write_turn_def conn_write_def Let_def bufio_size_def split: option.splits if_splits)
next
  case False
  let ?n = "bufio_size - length (w_buf w)"
  obtain err f where f: "Flush (w\<lparr>w_buf := w_buf w @ take ?n p\<rparr>) = (err, f)"
    by (cases "Flush (w\<lparr>w_buf := w_buf w @ take ?n p\<rparr>)") blast
  with False assms(3) have "p' = drop ?n p" "w' = f"
    by (auto simp: write_turn_def Let_def)
  with f False assms(2) Flush_shape [OF f] show ?thesis
    by (cases "w_err f") auto
qed

function bufio_Write :: "bytes \<Rightarrow> bufw \<Rightarrow> error option \<times> bufw" where
  "bufio_Write p w =
     (if bufio_size - length (w_buf w) < length p \<and> w_err w = None
      then (case write_turn p w of (p', w') \<Rightarrow> bufio_Write p' w')
      else (case w_err w of
              Some e \<Rightarrow> (Some e, w)
            | None \<Rightarrow> (None, w\<lparr>w_buf := w_buf w @ p\<rparr>)))"
  by pat_completeness auto
termination
proof (relation "measures [\<lambda>(p, w). if w_err w = None then 1 else 0, \<lambda>(p, w). length p,
    \<lambda>(p, w). length (w_buf w)]", goal_cases)
  case 1
  show ?case by simp
next
  case (2 p w p' w')
  then have turn: "write_turn p w = (p', w')" by simp
  show ?case using 2 write_turn_progress [OF _ _ turn] by (auto simp: turn)
qed

declare bufio_Write.simps [simp del]

section \<open>Sending\<close>

definition encode_header :: "messageHeader \<Rightarrow> bytes" where
  "encode_header mh = PutUint32 (Length mh) @ PutUint32 (StreamID mh) @ [Type mh, Flags mh]"

definition writeMessageHeader :: "messageHeader \<Rightarrow> bufw \<Rightarrow> error option \<times> bufw" where
  "writeMessageHeader mh w = bufio_Write (encode_header mh) w"

definition send :: "u32 \<Rightarrow> messageType \<Rightarrow> u8 \<Rightarrow> gobytes \<Rightarrow> bufw \<Rightarrow> error option \<times> bufw" where
  "send streamID t flags p w =
     (if slice_len p > messageLengthMax then (OversizedMessageError (slice_len p), w)
      else (case writeMessageHeader
                   \<lparr>Length = word_of_nat (slice_len p), StreamID = streamID, Type = t,
                    Flags = flags\<rparr> w of
              (Some err, w1) \<Rightarrow> (Some err, w1)
            | (None, w1) \<Rightarrow>
                if slice_len p > 0 then
                  (case bufio_Write (slice p) w1 of
                     (Some err, w2) \<Rightarrow> (Some err, w2)
                   | (None, w2) \<Rightarrow> Flush w2)
                else Flush w1))"

record channel =
  ch_w :: bufw
  ch_r :: reader

definition newChannel :: "wconn \<Rightarrow> reader \<Rightarrow> channel" where
  "newChannel c r = \<lparr>ch_w = \<lparr>w_conn = c, w_buf = [], w_err = None\<rparr>, ch_r = r\<rparr>"


section \<open>Headers round trip\<close>

lemma length_encode_header [simp]: "length (encode_header mh) = messageHeaderLength"
  by (simp add: encode_header_def messageHeaderLength_def)

lemma encode_header_parts:
  "take 4 (encode_header mh @ bs) = PutUint32 (Length mh)"
  "take 4 (drop 4 (encode_header mh @ bs)) = PutUint32 (StreamID mh)"
  "(encode_header mh @ bs) ! 8 = Type mh" "(encode_header mh @ bs) ! 9 = Flags mh"
  by (simp_all add: encode_header_def nth_append)

lemma ReadFull_append [simp]:
  "length a = n \<Longrightarrow> ReadFull n \<lparr>rd_rest = a @ b, rd_err = e\<rparr> = (Inr a, \<lparr>rd_rest = b, rd_err = e\<rparr>)"
  by (simp add: ReadFull_def)

lemma readMessageHeader_encode [simp]:
  "readMessageHeader \<lparr>rd_rest = encode_header mh @ bs, rd_err = e\<rparr> =
     (Inr mh, \<lparr>rd_rest = bs, rd_err = e\<rparr>)"
  using encode_header_parts [of mh "[]"] by (simp add: readMessageHeader_def)

lemma list10:
  assumes "length p = 10"
  shows "p = take 4 p @ take 4 (drop 4 p) @ [p ! 8, p ! 9]"
proof (rule nth_equalityI)
  show "length p = length (take 4 p @ take 4 (drop 4 p) @ [p ! 8, p ! 9])"
    using assms by simp
next
  fix i assume "i < length p"
  with assms consider "i < 4" | "4 \<le> i \<and> i < 8" | "i = 8" | "i = 9" by linarith
  then show "p ! i = (take 4 p @ take 4 (drop 4 p) @ [p ! 8, p ! 9]) ! i"
    using assms by cases (auto simp: nth_append)
qed

lemma readMessageHeader_sound:
  assumes "readMessageHeader r = (Inr mh, r')"
  shows "rd_rest r = encode_header mh @ rd_rest r'" "rd_err r' = rd_err r"
proof -
  let ?p = "take 10 (rd_rest r)"
  from assms have len: "length ?p = 10" and r': "r' = r\<lparr>rd_rest := drop 10 (rd_rest r)\<rparr>"
    and mh: "mh = \<lparr>Length = Uint32 (take 4 ?p), StreamID = Uint32 (take 4 (drop 4 ?p)),
                Type = ?p ! 8, Flags = ?p ! 9\<rparr>"
    by (auto simp: readMessageHeader_def ReadFull_def messageHeaderLength_def split: if_splits)
  have "encode_header mh = ?p"
    using list10 [OF len] len by (simp add: encode_header_def mh PutUint32_Uint32)
  with r' show "rd_rest r = encode_header mh @ rd_rest r'" by simp
  from r' show "rd_err r' = rd_err r" by simp
qed

section \<open>Frames round trip\<close>

text \<open>The bytes of a message: its header and its payload.\<close>

type_synonym message = "messageHeader \<times> gobytes"

definition encode_message :: "message \<Rightarrow> bytes" where
  "encode_message m = encode_header (fst m) @ slice (snd m)"

text \<open>A message that \<open>send\<close> writes: its length field is right, within the limit, and an empty
  payload is nil.\<close>

definition message_ok :: "message \<Rightarrow> bool" where
  "message_ok m \<longleftrightarrow>
     unat (Length (fst m)) = slice_len (snd m) \<and> slice_len (snd m) \<le> messageLengthMax \<and>
     (snd m = None \<longleftrightarrow> slice_len (snd m) = 0)"

lemma oversized_iff:
  "word_of_nat messageLengthMax < (w :: u32) \<longleftrightarrow> messageLengthMax < unat w"
  by (simp add: word_less_nat_alt messageLengthMax_def)

lemma length_pos_iff: "0 < (w :: u32) \<longleftrightarrow> 0 < unat w"
  by (simp add: word_less_nat_alt)

lemma recv_encode:
  assumes "message_ok m"
  shows "recv pool \<lparr>rd_rest = encode_message m @ bs, rd_err = e\<rparr> =
    ((fst m, snd m, None), \<lparr>rd_rest = bs, rd_err = e\<rparr>)"
  using assms
  by (cases m; cases "snd m")
    (auto simp: recv_def encode_message_def message_ok_def oversized_iff length_pos_iff)

lemma recv_sound:
  assumes "recv pool r = ((mh, p, None), r')"
  shows "message_ok (mh, p)" "rd_rest r = encode_message (mh, p) @ rd_rest r'"
    "rd_err r' = rd_err r"
proof -
  from assms obtain mh1 r1 where h: "readMessageHeader r = (Inr mh1, r1)"
    by (auto simp: recv_def split: sum.splits prod.splits)
  note parts = readMessageHeader_sound [OF h]
  show "message_ok (mh, p)" "rd_rest r = encode_message (mh, p) @ rd_rest r'"
    "rd_err r' = rd_err r"
    using assms h parts
    by (auto simp: recv_def encode_message_def message_ok_def oversized_iff length_pos_iff
        ReadFull_def split: sum.splits prod.splits option.splits if_splits)
qed

section \<open>Oversized and truncated messages\<close>

lemma recv_oversized:
  assumes "messageLengthMax < unat (Length mh)" "length bs = unat (Length mh)"
  shows "recv pool \<lparr>rd_rest = encode_header mh @ bs @ bs', rd_err = e\<rparr> =
    ((mh, None, Some (StatusError (oversized_status (unat (Length mh))))),
     \<lparr>rd_rest = bs', rd_err = e\<rparr>)"
  using assms by (simp add: recv_def oversized_iff Discard_def)

lemma recv_eof:
  "recv pool \<lparr>rd_rest = [], rd_err = e\<rparr> =
     ((zero_header, None, Some e), \<lparr>rd_rest = [], rd_err = e\<rparr>)"
  by (simp add: recv_def readMessageHeader_def ReadFull_def messageHeaderLength_def)

lemma recv_truncated_header:
  assumes "bs \<noteq> []" "length bs < messageHeaderLength"
  shows "recv pool \<lparr>rd_rest = bs, rd_err = IoEOF\<rparr> =
     ((zero_header, None, Some IoErrUnexpectedEOF), \<lparr>rd_rest = [], rd_err = IoEOF\<rparr>)"
  using assms by (simp add: recv_def readMessageHeader_def ReadFull_def)

lemma recv_truncated_payload:
  assumes "length bs < unat (Length mh)" "unat (Length mh) \<le> messageLengthMax"
  shows "recv pool \<lparr>rd_rest = encode_header mh @ bs, rd_err = e\<rparr> =
     ((zero_header, None,
       Some (Wrapf ''failed reading message: ''
               (if bs \<noteq> [] \<and> e = IoEOF then IoErrUnexpectedEOF else e) '''')),
      \<lparr>rd_rest = [], rd_err = e\<rparr>)"
proof -
  from assms have "0 < unat (Length mh)" by linarith
  with assms show ?thesis
    by (simp add: recv_def oversized_iff length_pos_iff ReadFull_def)
qed

lemma recv_any_pool: "recv pool r = recv None r"
  unfolding recv_def length_getmbuf ..

section \<open>The buffered writer writes through\<close>

text \<open>What a direct write of \<open>p\<close> does to the connection: the error and the new state.\<close>

definition conn_put :: "bytes \<Rightarrow> wconn \<Rightarrow> error option \<times> wconn" where
  "conn_put p c = (snd (fst (conn_write p c)), snd (conn_write p c))"

lemma conn_put_Nil [simp]: "conn_put [] c = (None, c)"
  by (cases c) (simp add: conn_put_def conn_write_def split: option.splits)

lemma conn_put_append:
  "conn_put (p @ q) c =
     (case conn_put p c of (None, c') \<Rightarrow> conn_put q c' | (Some e, c') \<Rightarrow> (Some e, c'))"
  by (cases c) (auto simp: conn_put_def conn_write_def split: option.splits)

lemma conn_write_put:
  "conn_write p c = ((n, err), c') \<Longrightarrow> conn_put p c = (err, c') \<and> (err = None \<longrightarrow> n = length p)
     \<and> (err \<noteq> None \<longrightarrow> n < length p)"
  by (auto simp: conn_put_def conn_write_def split: option.splits if_splits)

lemma Flush_put:
  assumes "w_err w = None"
  shows "fst (Flush w) = fst (conn_put (w_buf w) (w_conn w))"
    "w_conn (snd (Flush w)) = snd (conn_put (w_buf w) (w_conn w))"
    "w_err (snd (Flush w)) = fst (Flush w)"
    "fst (Flush w) = None \<Longrightarrow> w_buf (snd (Flush w)) = []"
  using assms
  by (auto simp: Flush_def Let_def split: prod.splits option.splits dest: conn_write_put)

lemma write_turn_put:
  assumes "w_err w = None" "bufio_size - length (w_buf w) < length p" 
    and "write_turn p w = (p', w')"
  shows "conn_put (w_buf w @ p) (w_conn w) =
    (case w_err w' of None \<Rightarrow> conn_put (w_buf w' @ p') (w_conn w') | Some e \<Rightarrow> (Some e, w_conn w'))"
proof (cases "w_buf w = []")
  case True
  with assms show ?thesis
    by (auto simp: write_turn_def Let_def split: prod.splits option.splits dest: conn_write_put)
next
  case False
  let ?n = "bufio_size - length (w_buf w)"
  let ?w = "w\<lparr>w_buf := w_buf w @ take ?n p\<rparr>"
  from False assms have p': "p' = drop ?n p" and w': "w' = snd (Flush ?w)"
    by (auto simp: write_turn_def Let_def)
  have "conn_put (w_buf w @ p) (w_conn w) =
     (case conn_put (w_buf ?w) (w_conn ?w) of
        (None, c') \<Rightarrow> conn_put (drop ?n p) c' | (Some e, c') \<Rightarrow> (Some e, c'))"
    using conn_put_append [of "w_buf w @ take ?n p" "drop ?n p" "w_conn w"] by simp
  then show ?thesis
    unfolding p' w' using assms(1) Flush_put [of ?w]
    by (auto split: prod.splits option.splits)
qed

lemma bufio_Write_put:
  assumes "bufio_Write p w = (err, w')" "w_err w = None"
  shows "w_err w' = err \<and>
    (case err of
       None \<Rightarrow> conn_put (w_buf w' ) (w_conn w') = conn_put (w_buf w @ p) (w_conn w)
     | Some e \<Rightarrow> conn_put (w_buf w @ p) (w_conn w) = (Some e, w_conn w'))"
  using assms
proof (induction p w arbitrary: err w' rule: bufio_Write.induct)
  case (1 p w)
  show ?case
  proof (cases "bufio_size - length (w_buf w) < length p")
    case True
    obtain p1 w1 where turn: "write_turn p w = (p1, w1)" by fastforce
    note put = write_turn_put [OF 1(3) True turn]
    from 1(2,3) True turn have rec: "bufio_Write p1 w1 = (err, w')"
      by (simp add: bufio_Write.simps [of p w])
    show ?thesis
    proof (cases "w_err w1")
      case None
      with 1(1) [OF _ turn [symmetric] rec] 1(3) True put show ?thesis
        by (simp split: option.splits)
    next
      case (Some e)
      then have "err = Some e" "w' = w1" using rec by (auto simp: bufio_Write.simps [of p1 w1])
      with Some put show ?thesis by simp
    qed
  next
    case False
    with 1(2,3) show ?thesis by (auto simp: bufio_Write.simps [of p w])
  qed
qed

lemma bufio_Write_sticky: "w_err w = Some e \<Longrightarrow> bufio_Write p w = (Some e, w)"
  by (simp add: bufio_Write.simps)

lemma send_through_buffer:
  assumes "w_err w = None" "w_buf w = []" "slice_len p \<le> messageLengthMax"
    and mh: "mh = \<lparr>Length = word_of_nat (slice_len p), StreamID = sid, Type = t, Flags = fl\<rparr>"
    and "send sid t fl p w = (err, w')"
  shows "conn_put (encode_message (mh, p)) (w_conn w) = (err, w_conn w')" "w_err w' = err"
    "err = None \<Longrightarrow> w_buf w' = []"
proof -
  obtain e1 w1 where 1: "bufio_Write (encode_header mh) w = (e1, w1)" by fastforce
  obtain e2 w2 where 2: "bufio_Write (slice p) w1 = (e2, w2)" by fastforce
  note put1 = bufio_Write_put [OF 1 assms(1)]
  have split: "conn_put (encode_message (mh, p)) (w_conn w) =
      (case conn_put (encode_header mh) (w_conn w) of
         (None, c') \<Rightarrow> conn_put (slice p) c' | (Some e, c') \<Rightarrow> (Some e, c'))"
    by (simp add: encode_message_def conn_put_append)
  have "conn_put (encode_message (mh, p)) (w_conn w) = (err, w_conn w') \<and> w_err w' = err \<and>
    (err = None \<longrightarrow> w_buf w' = [])"
  proof (cases e1)
    case (Some e)
    with assms 1 put1 split show ?thesis by (auto simp: send_def writeMessageHeader_def)
  next
    case None
    with put1 assms(2) have w1: "w_err w1 = None"
      and "conn_put (w_buf w1) (w_conn w1) = conn_put (encode_header mh) (w_conn w)" by auto
    with split have all:
      "conn_put (w_buf w1 @ slice p) (w_conn w1) = conn_put (encode_message (mh, p)) (w_conn w)"
      by (simp add: conn_put_append)
    note put2 = bufio_Write_put [OF 2 w1]
    show ?thesis
    proof (cases "slice_len p = 0")
      case True
      then have "slice p = []" "\<not> 0 < slice_len p" by (simp_all add: slice_len_def)
      with assms 1 None have "Flush w1 = (err, w')" by (simp add: send_def writeMessageHeader_def)
      with Flush_put [OF w1] all \<open>slice p = []\<close> show ?thesis by (auto intro: prod_eqI)
    next
      case False
      show ?thesis
      proof (cases e2)
        case (Some e)
        with False assms 1 2 None put2 all show ?thesis
          by (auto simp: send_def writeMessageHeader_def)
      next
        case None2: None
        with False assms 1 2 None have flush: "Flush w2 = (err, w')"
          by (simp add: send_def writeMessageHeader_def)
        from put2 None2 have w2: "w_err w2 = None" by simp
        from put2 None2 all have "conn_put (w_buf w2) (w_conn w2) =
            conn_put (encode_message (mh, p)) (w_conn w)" by simp
        with Flush_put [OF w2] flush show ?thesis by (auto intro: prod_eqI)
      qed
    qed
  qed
  then show "conn_put (encode_message (mh, p)) (w_conn w) = (err, w_conn w')" "w_err w' = err"
    "err = None \<Longrightarrow> w_buf w' = []" by auto
qed

section \<open>The framing interface\<close>

text \<open>
  What the two ends of a connection rely on: encoded messages can be parsed back one by one,
  whatever follows them, and only encoded messages parse.
\<close>

fun parse_n :: "(bytes \<Rightarrow> ('m \<times> bytes) option) \<Rightarrow> nat \<Rightarrow> bytes \<Rightarrow> ('m list \<times> bytes) option" where
  "parse_n parse 0 bs = Some ([], bs)"
| "parse_n parse (Suc n) bs =
     (case parse bs of
        None \<Rightarrow> None
      | Some (m, bs1) \<Rightarrow>
          (case parse_n parse n bs1 of None \<Rightarrow> None | Some (ms, bs2) \<Rightarrow> Some (m # ms, bs2)))"

locale framing =
  fixes enc :: "'m \<Rightarrow> bytes"
    and parse :: "bytes \<Rightarrow> ('m \<times> bytes) option"
    and fits :: "'m \<Rightarrow> bool"
  assumes parse_enc: "fits m \<Longrightarrow> parse (enc m @ bs) = Some (m, bs)"
    and parse_sound: "parse bs = Some (m, bs') \<Longrightarrow> fits m \<and> bs = enc m @ bs'"
    and enc_nonempty: "enc m \<noteq> []"
begin

lemma parse_n_enc:
  "list_all fits ms \<Longrightarrow> parse_n parse (length ms) (concat (map enc ms) @ bs) = Some (ms, bs)"
  by (induction ms) (simp_all add: parse_enc)

lemma parse_n_sound:
  "parse_n parse n bs = Some (ms, bs') \<Longrightarrow>
     length ms = n \<and> list_all fits ms \<and> bs = concat (map enc ms) @ bs'"
proof (induction n arbitrary: bs ms)
  case (Suc n)
  then obtain m bs1 ms1 where "parse bs = Some (m, bs1)" "parse_n parse n bs1 = Some (ms1, bs')"
    "ms = m # ms1"
    by (auto split: option.splits)
  with Suc.IH [of bs1 ms1] parse_sound [of bs m bs1] show ?case by simp
qed simp

lemma enc_prefix_free:
  assumes "fits m" "fits m'" "enc m @ bs = enc m' @ bs'"
  shows "m = m' \<and> bs = bs'"
proof -
  have "Some (m, bs) = parse (enc m @ bs)" by (rule parse_enc [OF assms(1), symmetric])
  also have "\<dots> = Some (m', bs')" unfolding assms(3) by (rule parse_enc [OF assms(2)])
  finally show ?thesis by simp
qed

lemma enc_stream_inj:
  assumes "list_all fits ms" "list_all fits ms'" "concat (map enc ms) = concat (map enc ms')"
  shows "ms = ms'"
  using assms
proof (induction ms arbitrary: ms')
  case Nil
  then show ?case by (cases ms') (auto simp: enc_nonempty)
next
  case (Cons m ms)
  from Cons.prems obtain m' ms1 where ms': "ms' = m' # ms1"
    by (cases ms') (simp_all add: enc_nonempty)
  with Cons.prems have "fits m" "fits m'"
    "enc m @ concat (map enc ms) = enc m' @ concat (map enc ms1)" by simp_all
  then have "m = m' \<and> concat (map enc ms) = concat (map enc ms1)"
    by (rule enc_prefix_free)
  with Cons.IH [of ms1] Cons.prems ms' show ?case by simp
qed

end

definition parse_message :: "bytes \<Rightarrow> (message \<times> bytes) option" where
  "parse_message bs =
     (case recv None \<lparr>rd_rest = bs, rd_err = IoEOF\<rparr> of
        ((mh, p, None), r) \<Rightarrow> Some ((mh, p), rd_rest r)
      | _ \<Rightarrow> None)"

interpretation frames: framing encode_message parse_message message_ok
proof
  fix m bs assume "message_ok m"
  then show "parse_message (encode_message m @ bs) = Some (m, bs)"
    by (simp add: parse_message_def recv_encode)
next
  fix bs m bs' assume "parse_message bs = Some (m, bs')"
  then show "message_ok m \<and> bs = encode_message m @ bs'"
    by (auto simp: parse_message_def split: prod.splits option.splits dest: recv_sound)
next
  show "encode_message m \<noteq> []" for m
    by (simp add: encode_message_def encode_header_def)
qed

text \<open>A writer over a connection that takes all bytes, with nothing buffered.\<close>

definition healthy :: "bufw \<Rightarrow> bool" where
  "healthy w \<longleftrightarrow> wc_room (w_conn w) = None \<and> w_err w = None \<and> w_buf w = []"

definition frame :: "u32 \<Rightarrow> messageType \<Rightarrow> u8 \<Rightarrow> gobytes \<Rightarrow> bytes" where
  "frame sid t fl p = encode_message
     (\<lparr>Length = word_of_nat (slice_len p), StreamID = sid, Type = t, Flags = fl\<rparr>, p)"

lemma send_healthy:
  assumes "healthy w" "slice_len p \<le> messageLengthMax"
  shows "\<exists>w'. send sid t fl p w = (None, w') \<and> healthy w' \<and>
    wc_sent (w_conn w') = wc_sent (w_conn w) @ frame sid t fl p"
proof -
  obtain err w' where run: "send sid t fl p w = (err, w')" by fastforce
  from send_through_buffer [OF _ _ assms(2) refl run] assms(1)
  have "err = None" "w_err w' = None" "w_buf w' = []" "w_conn w' = (w_conn w)\<lparr>wc_sent :=
      wc_sent (w_conn w) @ frame sid t fl p\<rparr>"
    by (auto simp: healthy_def frame_def conn_put_def conn_write_def)
  with run assms(1) show ?thesis by (simp add: healthy_def)
qed

section \<open>Sequences of messages\<close>

text \<open>Receiving \<open>n\<close> messages, up to the first error.\<close>

fun recv_n :: "nat \<Rightarrow> reader \<Rightarrow> error + message list \<times> reader" where
  "recv_n 0 r = Inr ([], r)"
| "recv_n (Suc n) r =
     (case recv None r of
        ((mh, p, Some err), r1) \<Rightarrow> Inl err
      | ((mh, p, None), r1) \<Rightarrow>
          (case recv_n n r1 of Inl err \<Rightarrow> Inl err | Inr (ms, r2) \<Rightarrow> Inr ((mh, p) # ms, r2)))"

definition send_message :: "message \<Rightarrow> bufw \<Rightarrow> error option \<times> bufw" where
  "send_message m w = send (StreamID (fst m)) (Type (fst m)) (Flags (fst m)) (snd m) w"

text \<open>Sending one message after the other, whatever errors occur; the errors in order.\<close>

fun send_all :: "message list \<Rightarrow> bufw \<Rightarrow> error option list \<times> bufw" where
  "send_all [] w = ([], w)"
| "send_all (m # ms) w =
     (case send_message m w of (err, w1) \<Rightarrow>
        (case send_all ms w1 of (errs, w2) \<Rightarrow> (err # errs, w2)))"

lemma recv_n_parse_n:
  "parse_n parse_message n bs = Some (ms, bs') \<Longrightarrow>
     recv_n n \<lparr>rd_rest = bs, rd_err = e\<rparr> = Inr (ms, \<lparr>rd_rest = bs', rd_err = e\<rparr>)"
proof (induction n arbitrary: bs ms)
  case (Suc n)
  from Suc.prems obtain m bs1 ms1 where p: "parse_message bs = Some (m, bs1)"
    and r: "parse_n parse_message n bs1 = Some (ms1, bs')" and ms: "ms = m # ms1"
    by (auto split: option.splits)
  from frames.parse_sound [OF p] have "message_ok m" "bs = encode_message m @ bs1" by auto
  then show ?case
    using Suc.IH [OF r] ms by (simp add: recv_encode)
qed simp

lemma message_ok_header:
  assumes "message_ok m"
  shows "\<lparr>Length = word_of_nat (slice_len (snd m)), StreamID = StreamID (fst m),
    Type = Type (fst m), Flags = Flags (fst m)\<rparr> = fst m"
proof -
  have "word_of_nat (unat (Length (fst m))) = Length (fst m)" by simp
  with assms have "word_of_nat (slice_len (snd m)) = Length (fst m)"
    by (simp only: message_ok_def)
  then show ?thesis by simp
qed

lemma send_message_put:
  assumes "message_ok m" "w_err w = None" "w_buf w = []" "send_message m w = (err, w')"
  shows "conn_put (encode_message m) (w_conn w) = (err, w_conn w')" "w_err w' = err"
    "err = None \<Longrightarrow> w_buf w' = []"
  using send_through_buffer [OF assms(2,3) _ refl assms(4) [unfolded send_message_def]] assms(1)
  by (auto simp: message_ok_header message_ok_def)

lemma send_message_sticky:
  "message_ok m \<Longrightarrow> w_err w = Some e \<Longrightarrow> send_message m w = (Some e, w)"
  by (simp add: send_message_def send_def writeMessageHeader_def bufio_Write_sticky message_ok_def)

lemma send_all_sticky:
  "list_all message_ok ms \<Longrightarrow> w_err w = Some e \<Longrightarrow>
     send_all ms w = (replicate (length ms) (Some e), w)"
  by (induction ms) (simp_all add: send_message_sticky)

lemma conn_put_room:
  "wc_room c = None \<Longrightarrow> conn_put p c = (None, c\<lparr>wc_sent := wc_sent c @ p\<rparr>)"
  by (simp add: conn_put_def conn_write_def)

lemma send_all_healthy:
  assumes "list_all message_ok ms" "wc_room (w_conn w) = None" "w_err w = None" "w_buf w = []"
  shows "fst (send_all ms w) = replicate (length ms) None \<and>
    wc_sent (w_conn (snd (send_all ms w))) = wc_sent (w_conn w) @ concat (map encode_message ms)"
  using assms
proof (induction ms arbitrary: w)
  case (Cons m ms)
  obtain err w1 where s: "send_message m w = (err, w1)" by fastforce
  note put = send_message_put [OF _ Cons.prems(3,4) s]
  from put Cons.prems have "err = None" 
    "w_conn w1 = (w_conn w)\<lparr>wc_sent := wc_sent (w_conn w) @ encode_message m\<rparr>"
    "w_err w1 = None" "w_buf w1 = []"
    by (auto simp: conn_put_room)
  with Cons.IH [of w1] Cons.prems s show ?case by (auto split: prod.splits)
qed simp

text \<open>A failing write leaves a proper prefix on the wire.\<close>

definition proper_prefix :: "'a list \<Rightarrow> 'a list \<Rightarrow> bool" where
  "proper_prefix p q \<longleftrightarrow> length p < length q \<and> p = take (length p) q"

lemma conn_put_prefix:
  assumes "conn_put p c = (Some e, c')"
  shows "\<exists>tail. wc_sent c' = wc_sent c @ tail \<and> proper_prefix tail p"
proof (cases "wc_room c")
  case (Some k)
  with assms have "k < length p" "wc_sent c' = wc_sent c @ take k p"
    by (auto simp: conn_put_def conn_write_def split: if_splits)
  then show ?thesis by (auto simp: proper_prefix_def)
qed (use assms in \<open>simp add: conn_put_room\<close>)

lemma conn_put_sent: "conn_put p c = (None, c') \<Longrightarrow> wc_sent c' = wc_sent c @ p"
  by (auto simp: conn_put_def conn_write_def split: option.splits if_splits)

text \<open>
  The bytes after \<open>before\<close> when \<open>n\<close> of the messages \<open>ms\<close> have gone out whole, and the writer has
  failed with \<open>failed\<close> if not all did.
\<close>

definition wire_holds ::
    "bytes \<Rightarrow> message list \<Rightarrow> nat \<Rightarrow> error option \<Rightarrow> bytes \<Rightarrow> bool" where
  "wire_holds before ms n failed wire \<longleftrightarrow>
     (case failed of
        None \<Rightarrow> n = length ms \<and> wire = before @ concat (map encode_message ms)
      | Some e \<Rightarrow> n < length ms \<and>
          (\<exists>tail. wire = before @ concat (map encode_message (take n ms)) @ tail \<and>
             proper_prefix tail (encode_message (ms ! n))))"

lemma wire_holds_Cons:
  "wire_holds (before @ encode_message m) ms n failed wire \<Longrightarrow>
     wire_holds before (m # ms) (Suc n) failed wire"
  by (auto simp: wire_holds_def split: option.splits)

lemma send_all_wire:
  assumes "list_all message_ok ms" "w_err w = None" "w_buf w = []" "send_all ms w = (errs, w')"
  shows "\<exists>n \<le> length ms. errs = replicate n None @ replicate (length ms - n) (w_err w') \<and>
    wire_holds (wc_sent (w_conn w)) ms n (w_err w') (wc_sent (w_conn w'))"
  using assms
proof (induction ms arbitrary: w errs)
  case Nil
  then show ?case by (auto simp: wire_holds_def)
next
  case (Cons m ms)
  obtain err w1 where s: "send_message m w = (err, w1)" by fastforce
  obtain errs1 w2 where rec: "send_all ms w1 = (errs1, w2)" by fastforce
  from Cons.prems have ok: "message_ok m" "list_all message_ok ms" by simp_all
  from Cons.prems(4) s rec have res: "errs = err # errs1" "w' = w2" by simp_all
  note put = send_message_put [OF ok(1) Cons.prems(2,3) s]
  show ?case
  proof (cases err)
    case (Some e)
    with put have "conn_put (encode_message m) (w_conn w) = (Some e, w_conn w1)" by simp
    then obtain tail where "wc_sent (w_conn w1) = wc_sent (w_conn w) @ tail"
      "proper_prefix tail (encode_message m)" by (blast dest: conn_put_prefix)
    moreover have "errs1 = replicate (length ms) (Some e)" "w2 = w1"
      using Some put rec send_all_sticky [OF ok(2), of w1 e] by auto
    ultimately show ?thesis
      using Some put(2) res by (intro exI [of _ 0]) (auto simp: wire_holds_def)
  next
    case None
    then have w1: "w_err w1 = None" "w_buf w1 = []" using put by simp_all
    from None put have "wc_sent (w_conn w1) = wc_sent (w_conn w) @ encode_message m"
      by (auto dest: conn_put_sent)
    with Cons.IH [OF ok(2) w1] rec res obtain n where "n \<le> length ms"
      "errs1 = replicate n None @ replicate (length ms - n) (w_err w')"
      "wire_holds (wc_sent (w_conn w) @ encode_message m) ms n (w_err w') (wc_sent (w_conn w'))"
      by auto
    with None res show ?thesis
      by (intro exI [of _ "Suc n"]) (auto intro: wire_holds_Cons)
  qed
qed

section \<open>Properties of the framing layer\<close>

text \<open>
  Claim C29. Any sequence of well-formed messages sent on a fresh channel over a connection that
  takes all bytes is sent without error, and the peer's \<open>recv\<close> gives back exactly these headers
  and payloads, in order, leaving whatever follows them unread.
\<close>

theorem send_then_recv:
  assumes "list_all message_ok ms" and "wc_room c = None"
  shows "case send_all ms (ch_w (newChannel c r)) of (errs, w) \<Rightarrow>
    errs = replicate (length ms) None \<and>
    recv_n (length ms)
      \<lparr>rd_rest = drop (length (wc_sent c)) (wc_sent (w_conn w)) @ bs, rd_err = e\<rparr> =
      Inr (ms, \<lparr>rd_rest = bs, rd_err = e\<rparr>)"
proof -
  let ?w = "ch_w (newChannel c r)"
  have "w_conn ?w = c" "w_err ?w = None" "w_buf ?w = []" by (simp_all add: newChannel_def)
  with send_all_healthy [of ms ?w] assms
  have sent: "fst (send_all ms ?w) = replicate (length ms) None"
    "wc_sent (w_conn (snd (send_all ms ?w))) = wc_sent c @ concat (map encode_message ms)"
    by simp_all
  then show ?thesis
    using recv_n_parse_n [OF frames.parse_n_enc [OF assms(1)]] by (auto split: prod.splits)
qed

definition example_conn :: wconn where
  "example_conn = \<lparr>wc_sent = [], wc_room = None, wc_fault = IoErrClosedPipe\<rparr>"

definition example_message :: "u32 \<Rightarrow> bytes \<Rightarrow> message" where
  "example_message sid p =
     (\<lparr>Length = word_of_nat (length p), StreamID = sid, Type = messageTypeRequest, Flags = 0\<rparr>,
      if p = [] then None else Some p)"

theorem send_then_recv_witness:
  "case send_all [example_message 1 [7, 8], example_message 3 []]
      (ch_w (newChannel example_conn \<lparr>rd_rest = [], rd_err = IoEOF\<rparr>)) of (errs, w) \<Rightarrow>
    errs = [None, None] \<and>
    recv_n 2 \<lparr>rd_rest = wc_sent (w_conn w) @ [9], rd_err = IoEOF\<rparr> =
      Inr ([example_message 1 [7, 8], example_message 3 []], \<lparr>rd_rest = [9], rd_err = IoEOF\<rparr>)"
proof -
  let ?ms = "[example_message 1 [7, 8], example_message 3 []]"
  have ok: "list_all message_ok ?ms"
    by (simp add: example_message_def message_ok_def messageLengthMax_def)
  have room: "wc_room example_conn = None" by (simp add: example_conn_def)
  have len: "length ?ms = 2" "replicate 2 None = [None, None]"
    "drop (length (wc_sent example_conn)) bs = bs" for bs
    by (simp_all add: numeral_2_eq_2 example_conn_def)
  show ?thesis
    by (rule send_then_recv [OF ok room, unfolded len])
qed

text \<open>
  Going through the buffered writer changes nothing that can be observed: on a writer
  with an empty buffer, \<open>send\<close> gives the error, and leaves the connection in the state, of one
  direct write of the whole frame; the writer remembers an error, and has nothing buffered
  after a success.
\<close>

lemma send_is_direct_write:
  assumes "w_err w = None" and "w_buf w = []" and "slice_len p \<le> messageLengthMax"
    and "send sid t fl p w = (err, w')"
  shows "conn_put (encode_message
      (\<lparr>Length = word_of_nat (slice_len p), StreamID = sid, Type = t, Flags = fl\<rparr>, p)) (w_conn w)
      = (err, w_conn w')
    \<and> w_err w' = err \<and> (err = None \<longrightarrow> w_buf w' = [])"
  using send_through_buffer [OF assms(1-3) refl assms(4)] by blast

definition example_w :: bufw where
  "example_w = \<lparr>w_conn = \<lparr>wc_sent = [], wc_room = Some 11, wc_fault = IoErrClosedPipe\<rparr>,
     w_buf = [], w_err = None\<rparr>"

lemma send_is_direct_write_witness:
  "conn_put (encode_message
      (\<lparr>Length = 2, StreamID = 1, Type = 1, Flags = 0\<rparr>, Some [5, 6])) (w_conn example_w)
      = (Some IoErrClosedPipe, w_conn (snd (send 1 1 0 (Some [5, 6]) example_w)))"
proof -
  have "fst (send 1 1 0 (Some [5, 6]) example_w) = Some IoErrClosedPipe"
    by (simp add: send_def writeMessageHeader_def bufio_Write.simps encode_header_def
        PutUint32_def example_w_def bufio_size_def messageLengthMax_def Flush_def conn_write_def
        Let_def)
  then obtain w' where "send 1 1 0 (Some [5, 6]) example_w = (Some IoErrClosedPipe, w')"
    by (cases "send 1 1 0 (Some [5, 6]) example_w") simp
  with send_is_direct_write [OF _ _ _ this] show ?thesis
    by (simp add: example_w_def messageLengthMax_def)
qed

text \<open>
  Claim C30. After any sequence of sends on a fresh channel, whatever the connection did, there is
  an \<open>n\<close> such that the first \<open>n\<close> sends succeeded and the others all failed with the writer's
  error; the bytes on the wire are the frames of these \<open>n\<close> messages, in order, followed by a
  proper part of the next frame only if the writer has failed.
\<close>

theorem wire_holds_whole_frames:
  assumes "list_all message_ok ms" and "send_all ms (ch_w (newChannel c r)) = (errs, w)"
  shows "\<exists>n \<le> length ms. errs = replicate n None @ replicate (length ms - n) (w_err w) \<and>
    wire_holds (wc_sent c) ms n (w_err w) (wc_sent (w_conn w))"
  using send_all_wire [OF assms(1) _ _ assms(2)] by (simp add: newChannel_def)

theorem wire_holds_whole_frames_witness:
  "\<exists>errs w. send_all [example_message 1 [7, 8], example_message 3 []]
      (ch_w (newChannel example_conn \<lparr>rd_rest = [], rd_err = IoEOF\<rparr>)) = (errs, w) \<and>
    (\<exists>n \<le> 2. errs = replicate n None @ replicate (2 - n) (w_err w) \<and>
      wire_holds [] [example_message 1 [7, 8], example_message 3 []] n (w_err w)
        (wc_sent (w_conn w)))"
proof -
  let ?ms = "[example_message 1 [7, 8], example_message 3 []]"
  let ?w = "ch_w (newChannel example_conn \<lparr>rd_rest = [], rd_err = IoEOF\<rparr>)"
  have ok: "list_all message_ok ?ms"
    by (simp add: example_message_def message_ok_def messageLengthMax_def)
  obtain errs w where run: "send_all ?ms ?w = (errs, w)" by fastforce
  have "wc_sent example_conn = []" "length ?ms = 2" by (simp_all add: example_conn_def)
  with wire_holds_whole_frames [OF ok run] run show ?thesis by metis
qed

text \<open>
  A received message is exactly what was on the wire: when \<open>recv\<close> gives a header and a
  payload with no error, the bytes it consumed are that header's encoding followed by the payload,
  the length field is the payload's length and within the limit, the payload is nil exactly when
  it is empty, and the bytes that follow are left unread.
\<close>

lemma recv_exact:
  assumes "recv pool r = ((mh, p, None), r')"
  shows "message_ok (mh, p) \<and> rd_rest r = encode_header mh @ slice p @ rd_rest r' \<and>
    rd_err r' = rd_err r"
  using recv_sound [OF assms] by (simp add: encode_message_def)

lemma recv_exact_witness:
  "message_ok (\<lparr>Length = 1, StreamID = 1, Type = 1, Flags = 0\<rparr>, Some [42])"
proof -
  have "recv None \<lparr>rd_rest = [0, 0, 0, 1, 0, 0, 0, 1, 1, 0, 42, 99], rd_err = IoEOF\<rparr> =
    ((\<lparr>Length = 1, StreamID = 1, Type = 1, Flags = 0\<rparr>, Some [42], None),
     \<lparr>rd_rest = [99], rd_err = IoEOF\<rparr>)"
    by (simp add: recv_def readMessageHeader_def ReadFull_def messageHeaderLength_def Uint32_def
        messageLengthMax_def)
  from recv_exact [OF this] show ?thesis by blast
qed

text \<open>
  Claim C31. An oversized message does not desynchronise the connection: \<open>recv\<close> returns its header
  with a ResourceExhausted status, discards exactly the announced bytes, and the next \<open>recv\<close>
  gives the message that follows.
\<close>

theorem recv_skips_oversized:
  assumes "messageLengthMax < unat (Length mh)" and "length body = unat (Length mh)"
    and "message_ok m"
  shows "case recv pool \<lparr>rd_rest = encode_header mh @ body @ encode_message m @ bs, rd_err = e\<rparr> of
    ((mh', p, err), r1) \<Rightarrow>
      mh' = mh \<and> p = None \<and>
      err = Some (StatusError (oversized_status (unat (Length mh)))) \<and>
      recv pool' r1 = ((fst m, snd m, None), \<lparr>rd_rest = bs, rd_err = e\<rparr>)"
  using recv_oversized [OF assms(1,2)] recv_encode [OF assms(3)] by simp

theorem recv_skips_oversized_witness:
  "case recv None \<lparr>rd_rest =
        encode_header \<lparr>Length = 4194305, StreamID = 1, Type = 1, Flags = 0\<rparr> @
        replicate 4194305 0 @ encode_message (example_message 3 [5]) @ [], rd_err = IoEOF\<rparr> of
    ((mh', p, err), r1) \<Rightarrow>
      recv None r1 = ((fst (example_message 3 [5]), Some [5], None),
        \<lparr>rd_rest = [], rd_err = IoEOF\<rparr>)"
proof -
  let ?mh = "\<lparr>Length = 4194305, StreamID = 1, Type = 1, Flags = 0\<rparr>"
  have "messageLengthMax < unat (Length ?mh)"
    "length (replicate 4194305 (0 :: u8)) = unat (Length ?mh)"
    "message_ok (example_message 3 [5])"
    by (simp_all add: messageLengthMax_def example_message_def message_ok_def)
  from recv_skips_oversized [OF this, where pool = None and pool' = None and bs = "[]" and e = IoEOF]
  show ?thesis by (auto simp: example_message_def split: prod.splits)
qed

text \<open>
  The end of the connection is told apart by where it falls: at a frame boundary \<open>recv\<close>
  returns \<open>io.EOF\<close>, inside a header \<open>io.ErrUnexpectedEOF\<close>, inside a payload a wrapped
  \<open>io.ErrUnexpectedEOF\<close>, or a wrapped \<open>io.EOF\<close> when not one byte of the payload came; none of
  these errors carries a status.
\<close>

lemma recv_end_of_connection:
  assumes "header \<noteq> []" and "length header < messageHeaderLength"
    and "length body < unat (Length mh)" and "unat (Length mh) \<le> messageLengthMax"
  shows "fst (recv pool \<lparr>rd_rest = [], rd_err = IoEOF\<rparr>) = (zero_header, None, Some IoEOF)
    \<and> fst (recv pool \<lparr>rd_rest = header, rd_err = IoEOF\<rparr>) =
       (zero_header, None, Some IoErrUnexpectedEOF)
    \<and> (case recv pool \<lparr>rd_rest = encode_header mh @ body, rd_err = IoEOF\<rparr> of
         ((mh', p, Some err), r') \<Rightarrow> mh' = zero_header \<and> p = None \<and> status_in err = None \<and>
           errors_is err (if body = [] then IoEOF else IoErrUnexpectedEOF)
       | _ \<Rightarrow> False)"
  using recv_eof [of pool IoEOF] recv_truncated_header [OF assms(1,2)]
    recv_truncated_payload [OF assms(3,4)] by simp

lemma recv_end_of_connection_witness:
  "fst (recv None \<lparr>rd_rest = [0, 0], rd_err = IoEOF\<rparr>) = (zero_header, None, Some IoErrUnexpectedEOF)"
  using recv_end_of_connection [of "[0, 0]" "[1]" "\<lparr>Length = 2, StreamID = 1, Type = 1, Flags = 0\<rparr>" None]
  by (simp add: messageHeaderLength_def messageLengthMax_def)

text \<open>
  An oversized payload is refused before anything is written: \<open>send\<close> returns an
  \<open>OversizedMessageErr\<close> that holds the length and wraps a ResourceExhausted status, and leaves
  the writer as it was; every other payload is accepted by a connection that takes all bytes.
\<close>

lemma send_limit:
  assumes "wc_room (w_conn w) = None" and "w_err w = None" and "w_buf w = []"
  shows "(if slice_len p > messageLengthMax
     then \<exists>st. send sid t fl p w = (Some (OversizedMessageErr (slice_len p) st), w) \<and>
            status_code st = ResourceExhausted
     else fst (send sid t fl p w) = None)"
proof (cases "slice_len p > messageLengthMax")
  case True
  then show ?thesis
    by (simp add: send_def OversizedMessageError_def oversized_status_def)
next
  case False
  obtain err w' where run: "send sid t fl p w = (err, w')" by fastforce
  from False send_through_buffer(1) [OF assms(2,3) _ refl run] assms(1) have "err = None"
    by (simp add: conn_put_room)
  with False run show ?thesis by simp
qed

lemma send_limit_witness:
  "fst (send 1 1 0 (Some [3]) \<lparr>w_conn = example_conn, w_buf = [], w_err = None\<rparr>) = None"
  using send_limit [of "\<lparr>w_conn = example_conn, w_buf = [], w_err = None\<rparr>" "Some [3]" 1 1 0]
  by (simp add: example_conn_def messageLengthMax_def)

end
