(* ===== verification/Ttrpc_Stream.thy ===== *)
theory Ttrpc_Stream
  imports Ttrpc_Channel
begin

text \<open>
  The client's side of a stream (\<open>stream.go\<close>): its receive queue, its close-once error, and
  \<open>receive\<close>, by which the connection's receive loop hands a message over.

  \<open>receive\<close> blocks, so it is a program with a phase: \<open>receive_next\<close> gives the possible next
  phases from a phase and the stream as it is at that moment, and between two of them the other
  goroutines may change the stream. A Go \<open>select\<close> with several ready cases picks any of them, so
  its cases are a list. A phase in which the timer of one second runs may always fire it.

  Two interfaces are shared with the server's stream handler: \<open>mailbox\<close> (a bounded queue that
  may be shut) and \<open>bounded_wait\<close> (a program with phases that cannot wait for ever).
\<close>

section \<open>Bounded queues\<close>

datatype 'm mail = Offer 'm | Take | Shut

text \<open>One operation: the messages it accepts, those it takes, and the queue after it.\<close>

fun mail_op :: "('m \<Rightarrow> 's \<Rightarrow> 's option) \<Rightarrow> ('s \<Rightarrow> ('m \<times> 's) option) \<Rightarrow> ('s \<Rightarrow> 's) \<Rightarrow>
    'm mail \<Rightarrow> 's \<Rightarrow> 'm list \<times> 'm list \<times> 's" where
  "mail_op offer pick shut (Offer m) s =
     (case offer m s of None \<Rightarrow> ([], [], s) | Some s' \<Rightarrow> ([m], [], s'))"
| "mail_op offer pick shut Take s =
     (case pick s of None \<Rightarrow> ([], [], s) | Some (m, s') \<Rightarrow> ([], [m], s'))"
| "mail_op offer pick shut Shut s = ([], [], shut s)"

fun mail_run :: "('m mail \<Rightarrow> 's \<Rightarrow> 'm list \<times> 'm list \<times> 's) \<Rightarrow> 'm mail list \<Rightarrow> 's \<Rightarrow>
    'm list \<times> 'm list \<times> 's" where
  "mail_run step [] s = ([], [], s)"
| "mail_run step (opn # ops) s =
     (case step opn s of (a, out, s1) \<Rightarrow>
        (case mail_run step ops s1 of (a', out', s2) \<Rightarrow> (a @ a', out @ out', s2)))"

locale mailbox =
  fixes offer :: "'m \<Rightarrow> 's \<Rightarrow> 's option"
    and pick :: "'s \<Rightarrow> ('m \<times> 's) option"
    and shut :: "'s \<Rightarrow> 's"
    and queue :: "'s \<Rightarrow> 'm list"
    and bound :: "'s \<Rightarrow> nat"
  assumes offer_law: "offer m s = Some s' \<Longrightarrow>
      queue s' = queue s @ [m] \<and> bound s' = bound s \<and> length (queue s) < bound s"
    and pick_law: "pick s = Some (m, s') \<Longrightarrow> queue s = m # queue s' \<and> bound s' = bound s"
    and shut_law: "queue (shut s) = queue s \<and> bound (shut s) = bound s"
begin

lemma mail_op_fifo:
  assumes "mail_op offer pick shut opn s = (acc, out, t)"
  shows "queue s @ acc = out @ queue t" "bound t = bound s"
    "length (queue s) \<le> bound s \<Longrightarrow> length (queue t) \<le> bound t"
  using assms
  by (cases opn; auto simp: shut_law split: option.splits dest: offer_law pick_law)+

lemma mail_fifo:
  assumes "mail_run (mail_op offer pick shut) ops s = (acc, out, t)"
  shows "queue s @ acc = out @ queue t \<and> bound t = bound s"
  using assms
proof (induction ops arbitrary: s acc out)
  case (Cons opn ops)
  obtain a b s1 where s1: "mail_op offer pick shut opn s = (a, b, s1)" by (metis prod_cases3)
  obtain a' b' s2 where s2: "mail_run (mail_op offer pick shut) ops s1 = (a', b', s2)"
    by (metis prod_cases3)
  from Cons.prems s1 s2 have [simp]: "acc = a @ a'" "out = b @ b'" "t = s2" by simp_all
  from Cons.IH [OF s2 [folded \<open>t = s2\<close>]] mail_op_fifo(1,2) [OF s1] show ?case
    by (metis \<open>t = s2\<close> append.assoc \<open>acc = a @ a'\<close> \<open>out = b @ b'\<close>)
qed simp

lemma mail_bounded:
  assumes "mail_run (mail_op offer pick shut) ops s = (acc, out, t)" "length (queue s) \<le> bound s"
  shows "length (queue t) \<le> bound t"
  using assms
  by (induction ops arbitrary: s acc out) (auto split: prod.splits dest: mail_op_fifo(3))

end

text \<open>A mailbox that takes nothing more once it is shut.\<close>

locale closing_mailbox = mailbox offer pick shut queue bound
  for offer :: "'m \<Rightarrow> 's \<Rightarrow> 's option" and pick :: "'s \<Rightarrow> ('m \<times> 's) option"
    and shut :: "'s \<Rightarrow> 's" and queue :: "'s \<Rightarrow> 'm list" and bound :: "'s \<Rightarrow> nat" +
  fixes is_shut :: "'s \<Rightarrow> bool"
  assumes refuse_law: "is_shut s \<Longrightarrow> offer m s = None"
    and pick_shut_law: "pick s = Some (m, s') \<Longrightarrow> is_shut s' = is_shut s"
    and shut_shut_law: "is_shut (shut s)"
begin

lemma mail_op_shut:
  "mail_op offer pick shut opn s = (acc, out, t) \<Longrightarrow> is_shut s \<Longrightarrow> acc = [] \<and> is_shut t"
  by (cases opn)
    (auto simp: refuse_law shut_shut_law split: option.splits dest: pick_shut_law)

lemma mail_shut:
  assumes "mail_run (mail_op offer pick shut) ops s = (acc, out, t)" "is_shut s"
  shows "acc = [] \<and> is_shut t"
  using assms
  by (induction ops arbitrary: s acc out) (auto split: prod.splits dest: mail_op_shut)

end

section \<open>Programs that cannot wait for ever\<close>

text \<open>
  \<open>phases next n p p'\<close>: \<open>n\<close> steps lead from phase \<open>p\<close> to \<open>p'\<close>, each from a state of its own,
  so that other goroutines may do anything in between.
\<close>

inductive phases :: "('p \<Rightarrow> 's \<Rightarrow> ('p \<times> 's) list) \<Rightarrow> nat \<Rightarrow> 'p \<Rightarrow> 'p \<Rightarrow> bool"
  for nxt :: "'p \<Rightarrow> 's \<Rightarrow> ('p \<times> 's) list" where
  phases_0: "phases nxt 0 p p"
| phases_Suc: "(p', s') \<in> set (nxt p s) \<Longrightarrow> phases nxt n p' p'' \<Longrightarrow> phases nxt (Suc n) p p''"

locale bounded_wait =
  fixes nxt :: "'p \<Rightarrow> 's \<Rightarrow> ('p \<times> 's) list"
    and rank :: "'p \<Rightarrow> nat"
  assumes rank_law: "(p', s') \<in> set (nxt p s) \<Longrightarrow> rank p' < rank p"
    and enabled_law: "0 < rank p \<Longrightarrow> nxt p s \<noteq> []"
begin

lemma phases_bounded: "phases nxt n p p' \<Longrightarrow> n + rank p' \<le> rank p"
proof (induction rule: phases.induct)
  case (phases_Suc p' s' p s n p'')
  from rank_law [OF phases_Suc.hyps(1)] phases_Suc.IH show ?case by linarith
qed simp

lemma phases_progress: "0 < rank p \<Longrightarrow> \<exists>p' s'. (p', s') \<in> set (nxt p s)"
  using enabled_law [of p s] by (cases "nxt p s") auto

end

section \<open>The stream\<close>

type_synonym streamID = u32
type_synonym streamMessage = message

text \<open>
  \<open>st_once\<close> says that \<open>closeOnce\<close> has run, \<open>st_closed\<close> that the channel \<open>recvClose\<close> is closed.
  The sender of a stream is its client (\<open>Ttrpc_Client\<close>).
\<close>

record stream =
  st_id :: streamID
  st_recv :: "streamMessage chan"
  st_once :: bool
  st_err :: "error option"
  st_closed :: bool

definition newStream :: "streamID \<Rightarrow> nat \<Rightarrow> stream" where
  "newStream sid recvBuf =
     \<lparr>st_id = sid, st_recv = make_chan recvBuf, st_once = False, st_err = None, st_closed = False\<rparr>"

definition closeWithError :: "error option \<Rightarrow> stream \<Rightarrow> stream" where
  "closeWithError err s =
     (if st_once s then s
      else s\<lparr>st_once := True,
             st_err := (case err of Some e \<Rightarrow> Some e | None \<Rightarrow> Some ErrClosed),
             st_closed := True\<rparr>)"

text \<open>
  The cases of the second and the third \<open>select\<close> that are ready; \<open>done\<close> is \<open>ctx.Err()\<close> of
  the connection's context, \<open>None\<close> while it is not done.
\<close>

definition receive_cases ::
    "error option \<Rightarrow> streamMessage \<Rightarrow> stream \<Rightarrow> (error option \<times> stream) list" where
  "receive_cases done msg s =
     (if st_closed s then [(st_err s, s)] else []) @
     (case chan_send msg (st_recv s) of Sent ch \<Rightarrow> [(None, s\<lparr>st_recv := ch\<rparr>)] | _ \<Rightarrow> []) @
     (case done of Some e \<Rightarrow> [(Some e, s)] | None \<Rightarrow> [])"

datatype receive_phase = RcvEnter | RcvSelect | RcvWait | RcvReturn "error option"

fun receive_next ::
    "error option \<Rightarrow> streamMessage \<Rightarrow> receive_phase \<Rightarrow> stream \<Rightarrow> (receive_phase \<times> stream) list" where
  "receive_next done msg RcvEnter s =
     [if st_closed s then (RcvReturn (st_err s), s) else (RcvSelect, s)]"
| "receive_next done msg RcvSelect s =
     (case receive_cases done msg s of
        [] \<Rightarrow> [(RcvWait, s)]
      | cs \<Rightarrow> map (\<lambda>(err, s'). (RcvReturn err, s')) cs)"
| "receive_next done msg RcvWait s =
     map (\<lambda>(err, s'). (RcvReturn err, s')) (receive_cases done msg s) @
     [(RcvReturn (Some ErrStreamFull), closeWithError (Some ErrStreamFull) s)]"
| "receive_next done msg (RcvReturn err) s = []"

text \<open>Taking a message from the queue, as the consumers' \<open>case msg = <-s.recv\<close> does.\<close>

definition stream_take :: "stream \<Rightarrow> (streamMessage \<times> stream) option" where
  "stream_take s =
     (case chan_recv (st_recv s) of
        Received m ch \<Rightarrow> Some (m, s\<lparr>st_recv := ch\<rparr>)
      | _ \<Rightarrow> None)"

text \<open>The send case alone, as an offer to the queue.\<close>

definition stream_offer :: "streamMessage \<Rightarrow> stream \<Rightarrow> stream option" where
  "stream_offer msg s =
     (case chan_send msg (st_recv s) of Sent ch \<Rightarrow> Some (s\<lparr>st_recv := ch\<rparr>) | _ \<Rightarrow> None)"

definition st_queue :: "stream \<Rightarrow> streamMessage list" where
  "st_queue s = chan_buf (st_recv s)"

definition st_bound :: "stream \<Rightarrow> nat" where
  "st_bound s = chan_cap (st_recv s)"

lemmas stream_view = st_queue_def st_bound_def

lemma stream_offer_Some:
  "stream_offer m s = Some s' \<longleftrightarrow>
     \<not> chan_closed (st_recv s) \<and> length (st_queue s) < st_bound s \<and>
     s' = s\<lparr>st_recv := (st_recv s)\<lparr>chan_buf := st_queue s @ [m]\<rparr>\<rparr>"
  by (auto simp: stream_offer_def stream_view chan_send_def)

lemma stream_take_Some:
  "stream_take s = Some (m, s') \<longleftrightarrow>
     (\<exists>xs. st_queue s = m # xs \<and> s' = s\<lparr>st_recv := (st_recv s)\<lparr>chan_buf := xs\<rparr>\<rparr>)"
  by (auto simp: stream_take_def stream_view chan_recv_def split: list.splits)

lemma closeWithError_simps [simp]:
  "st_id (closeWithError err s) = st_id s" "st_recv (closeWithError err s) = st_recv s"
  "st_queue (closeWithError err s) = st_queue s" "st_bound (closeWithError err s) = st_bound s"
  by (simp_all add: closeWithError_def stream_view)

interpretation smail: mailbox stream_offer stream_take "closeWithError err" st_queue st_bound
  by unfold_locales (auto simp: stream_offer_Some stream_take_Some stream_view)

definition receive_rank :: "receive_phase \<Rightarrow> nat" where
  "receive_rank p = (case p of RcvEnter \<Rightarrow> 3 | RcvSelect \<Rightarrow> 2 | RcvWait \<Rightarrow> 1 | RcvReturn e \<Rightarrow> 0)"

definition receive_program ::
    "streamMessage \<Rightarrow> receive_phase \<Rightarrow> error option \<times> stream \<Rightarrow>
     (receive_phase \<times> (error option \<times> stream)) list" where
  "receive_program msg p st =
     (case st of (done, s) \<Rightarrow> map (\<lambda>(p', s'). (p', (done, s'))) (receive_next done msg p s))"

interpretation rwait: bounded_wait "receive_program msg" receive_rank
  by unfold_locales
    (auto simp: receive_rank_def receive_program_def split: receive_phase.splits list.splits if_splits
      elim!: receive_next.elims)

text \<open>All outcomes of a program that nobody interferes with, in at most \<open>n\<close> steps.\<close>

fun run_alone :: "('p \<Rightarrow> 's \<Rightarrow> ('p \<times> 's) list) \<Rightarrow> nat \<Rightarrow> 'p \<Rightarrow> 's \<Rightarrow> ('p \<times> 's) list" where
  "run_alone nxt 0 p s = [(p, s)]"
| "run_alone nxt (Suc n) p s =
     (case nxt p s of
        [] \<Rightarrow> [(p, s)]
      | cs \<Rightarrow> concat (map (\<lambda>(p', s'). run_alone nxt n p' s') cs))"

section \<open>A stream with its goroutines\<close>

text \<open>
  The receive loop hands over one message after the other, consumers take, anyone may close the
  stream, and the connection's context may end. \<open>sy_accepted\<close> and \<open>sy_taken\<close> record the messages
  for which \<open>receive\<close> returned nil and those that consumers got.
\<close>

record stream_sys =
  sy_stream :: stream
  sy_receiving :: "(streamMessage \<times> receive_phase) option"
  sy_done :: "error option"
  sy_accepted :: "streamMessage list"
  sy_taken :: "streamMessage list"

definition stream_start :: "streamID \<Rightarrow> nat \<Rightarrow> stream_sys \<Rightarrow> bool" where
  "stream_start sid n s \<longleftrightarrow>
     s = \<lparr>sy_stream = newStream sid n, sy_receiving = None, sy_done = None, sy_accepted = [],
          sy_taken = []\<rparr>"

inductive stream_step :: "stream_sys \<Rightarrow> stream_sys \<Rightarrow> bool" where
  ss_begin: "sy_receiving s = None \<Longrightarrow> stream_step s (s\<lparr>sy_receiving := Some (m, RcvEnter)\<rparr>)"
| ss_move: "sy_receiving s = Some (m, p) \<Longrightarrow>
     (p', st) \<in> set (receive_next (sy_done s) m p (sy_stream s)) \<Longrightarrow>
     stream_step s (s\<lparr>sy_receiving := Some (m, p'), sy_stream := st,
       sy_accepted := sy_accepted s @ (if p' = RcvReturn None then [m] else [])\<rparr>)"
| ss_return: "sy_receiving s = Some (m, RcvReturn err) \<Longrightarrow>
     stream_step s (s\<lparr>sy_receiving := None\<rparr>)"
| ss_take: "stream_take (sy_stream s) = Some (m, st) \<Longrightarrow>
     stream_step s (s\<lparr>sy_stream := st, sy_taken := sy_taken s @ [m]\<rparr>)"
| ss_close: "stream_step s (s\<lparr>sy_stream := closeWithError err (sy_stream s)\<rparr>)"
| ss_cancel: "stream_step s (s\<lparr>sy_done := Some err\<rparr>)"

definition stream_ok :: "stream \<Rightarrow> bool" where
  "stream_ok s \<longleftrightarrow> (st_once s \<longleftrightarrow> st_closed s) \<and> (st_closed s \<longleftrightarrow> st_err s \<noteq> None) \<and>
     \<not> chan_closed (st_recv s) \<and> length (st_queue s) \<le> st_bound s"

lemma stream_ok_newStream [simp]: "stream_ok (newStream sid n)"
  by (simp add: stream_ok_def newStream_def stream_view)

lemma stream_ok_close: "stream_ok s \<Longrightarrow> stream_ok (closeWithError err s)"
  by (auto simp: stream_ok_def closeWithError_def stream_view split: option.splits)

lemma stream_ok_take: "stream_ok s \<Longrightarrow> stream_take s = Some (m, s') \<Longrightarrow> stream_ok s'"
  by (auto simp: stream_ok_def stream_take_Some stream_view)

lemma closed_after_close [simp]: "st_closed (closeWithError err s) \<longleftrightarrow> st_closed s \<or> \<not> st_once s"
  by (simp add: closeWithError_def)

text \<open>What one step of \<open>receive\<close> does to a stream: nothing, a delivery, or the closing on timeout.\<close>

lemma receive_cases_shape:
  assumes "stream_ok s" "(err, s') \<in> set (receive_cases done msg s)"
  shows "err \<noteq> None \<and> s' = s \<and> (st_closed s \<and> err = st_err s \<or> err = done) \<or>
    err = None \<and> stream_offer msg s = Some s'"
  using assms
  by (auto simp: receive_cases_def stream_ok_def stream_offer_def chan_send_def
      split: if_splits option.splits)

lemma receive_next_shape:
  assumes ok: "stream_ok s" and nxt: "(p', s') \<in> set (receive_next done msg p s)"
  shows "p' \<noteq> RcvReturn None \<and> (s' = s \<or> s' = closeWithError (Some ErrStreamFull) s) \<or>
    p' = RcvReturn None \<and> stream_offer msg s = Some s'"
proof (cases p)
  case RcvEnter
  with nxt ok show ?thesis by (auto simp: stream_ok_def split: if_splits)
next
  case RcvSelect
  show ?thesis
  proof (cases "receive_cases done msg s")
    case Nil
    with nxt RcvSelect show ?thesis by simp
  next
    case (Cons c cs)
    with nxt RcvSelect
    have "(p', s') \<in> (\<lambda>(err, s'). (RcvReturn err, s')) ` set (receive_cases done msg s)" by simp
    then obtain err where "(err, s') \<in> set (receive_cases done msg s)" "p' = RcvReturn err" by auto
    with receive_cases_shape [OF ok] show ?thesis by blast
  qed
next
  case RcvWait
  with nxt consider err where "(err, s') \<in> set (receive_cases done msg s)" "p' = RcvReturn err"
    | "p' = RcvReturn (Some ErrStreamFull)" "s' = closeWithError (Some ErrStreamFull) s" by auto
  then show ?thesis using receive_cases_shape [OF ok] by cases blast+
qed (use nxt in simp)

lemma stream_offer_ok:
  assumes "stream_ok s" "stream_offer m s = Some s'"
  shows "stream_ok s'" "st_queue s' = st_queue s @ [m]" "st_bound s' = st_bound s"
    "st_closed s' = st_closed s" "st_err s' = st_err s" "st_id s' = st_id s" "st_once s' = st_once s"
  using assms by (auto simp: stream_offer_Some stream_ok_def stream_view)

lemma receive_next_ok:
  "stream_ok s \<Longrightarrow> (p', s') \<in> set (receive_next done msg p s) \<Longrightarrow> stream_ok s'"
  using receive_next_shape stream_offer_ok(1) stream_ok_close by blast

definition stream_inv :: "nat \<Rightarrow> stream_sys \<Rightarrow> bool" where
  "stream_inv n s \<longleftrightarrow> stream_ok (sy_stream s) \<and> st_bound (sy_stream s) = n \<and>
     sy_taken s @ st_queue (sy_stream s) = sy_accepted s"

lemma stream_inv_step:
  assumes "stream_step s t" "stream_inv n s"
  shows "stream_inv n t"
  using assms
proof (induction rule: stream_step.induct)
  case (ss_move s m p p' st)
  then have ok: "stream_ok (sy_stream s)" by (simp add: stream_inv_def)
  from receive_next_shape [OF ok ss_move.hyps(2)] receive_next_ok [OF ok ss_move.hyps(2)]
  show ?case using ss_move.prems by (auto simp: stream_inv_def dest!: smail.offer_law)
next
  case (ss_take s m st)
  then show ?case
    using stream_ok_take [OF _ ss_take.hyps] smail.pick_law [OF ss_take.hyps]
    by (auto simp: stream_inv_def)
qed (auto simp: stream_inv_def stream_ok_close)

interpretation stream_reach: step_invariant "stream_start sid n" stream_step "stream_inv n"
proof unfold_locales
  show "stream_start sid n s \<Longrightarrow> stream_inv n s" for s
    by (auto simp: stream_start_def stream_inv_def newStream_def stream_view stream_ok_def)
qed (rule stream_inv_step)

lemma stream_close_step:
  assumes "stream_step s t" "stream_ok (sy_stream s)" "st_closed (sy_stream s)"
  shows "st_closed (sy_stream t) \<and> st_err (sy_stream t) = st_err (sy_stream s)"
  using assms
proof (induction rule: stream_step.induct)
  case (ss_move s m p p' st)
  from receive_next_shape [OF ss_move.prems(1) ss_move.hyps(2)] ss_move.prems
  show ?case
    by (auto simp: stream_offer_Some closeWithError_def stream_ok_def split: option.splits)
qed (auto simp: closeWithError_def stream_ok_def stream_take_Some)

section \<open>Properties\<close>

text \<open>
  Claim C22. A stream delivers exactly the messages it accepted, in order and without loss,
  whatever its goroutines do: in every reachable state the messages taken so far followed by the
  queue are the messages for which \<open>receive\<close> returned nil, the queue is never over its bound, and
  a closed stream has an error to report.
\<close>

theorem stream_delivers_accepted:
  assumes "reach (stream_start sid n) stream_step s"
  shows "sy_taken s @ st_queue (sy_stream s) = sy_accepted s \<and>
    length (st_queue (sy_stream s)) \<le> n \<and>
    (st_closed (sy_stream s) \<longleftrightarrow> st_err (sy_stream s) \<noteq> None)"
  using stream_reach.inv_reach [OF assms] by (auto simp: stream_inv_def stream_ok_def)

theorem stream_delivers_accepted_witness:
  "let m = (zero_header, None);
       s0 = \<lparr>sy_stream = newStream 1 1, sy_receiving = None, sy_done = None, sy_accepted = [],
             sy_taken = []\<rparr>;
       s3 = s0\<lparr>sy_stream := (newStream 1 1)\<lparr>st_recv := \<lparr>chan_cap = 1, chan_buf = [m], chan_closed = False\<rparr>\<rparr>,
               sy_receiving := Some (m, RcvReturn None), sy_accepted := [m]\<rparr>
   in sy_taken s3 @ st_queue (sy_stream s3) = sy_accepted s3"
proof -
  define m :: streamMessage where "m = (zero_header, None)"
  define s0 where "s0 = \<lparr>sy_stream = newStream 1 1, sy_receiving = None, sy_done = None,
    sy_accepted = [], sy_taken = []\<rparr>"
  define s1 where "s1 = s0\<lparr>sy_receiving := Some (m, RcvEnter)\<rparr>"
  define s2 where "s2 = s1\<lparr>sy_receiving := Some (m, RcvSelect)\<rparr>"
  define s3 where "s3 = s0\<lparr>sy_stream := (newStream 1 1)\<lparr>st_recv :=
      \<lparr>chan_cap = 1, chan_buf = [m], chan_closed = False\<rparr>\<rparr>,
    sy_receiving := Some (m, RcvReturn None), sy_accepted := [m]\<rparr>"
  have "reach (stream_start 1 1) stream_step s0"
    by (rule reach_start) (simp add: s0_def stream_start_def)
  moreover have "stream_step s0 s1"
    using ss_begin [of s0 m] by (simp add: s0_def s1_def)
  moreover have "stream_step s1 s2"
    using ss_move [of s1 m RcvEnter RcvSelect "newStream 1 1"]
    by (simp add: s0_def s1_def s2_def newStream_def)
  moreover have "stream_step s2 s3"
    using ss_move [of s2 m RcvSelect "RcvReturn None" "sy_stream s3"]
    by (simp add: s0_def s1_def s2_def s3_def newStream_def receive_cases_def chan_send_def make_chan_def)
  ultimately have "reach (stream_start 1 1) stream_step s3" by (metis reach_step)
  from stream_delivers_accepted [OF this] show ?thesis
    by (simp add: Let_def s3_def s0_def m_def)
qed

text \<open>
  The first close of a stream decides: from a reachable state in which the stream is
  closed, no step changes that it is closed, nor the error it reports.
\<close>

lemma stream_first_close_wins:
  assumes "reach (stream_start sid n) stream_step s" "stream_step\<^sup>*\<^sup>* s t"
    and "st_closed (sy_stream s)"
  shows "st_closed (sy_stream t) \<and> st_err (sy_stream t) = st_err (sy_stream s)"
  using assms(2,1,3)
proof (induction rule: rtranclp_induct)
  case (step t u)
  from reach_star [OF step.prems(1) step.hyps(1)] have "stream_ok (sy_stream t)"
    using stream_reach.inv_reach by (auto simp: stream_inv_def)
  with stream_close_step [OF step.hyps(2)] step.IH [OF step.prems] show ?case by simp
qed simp

lemma stream_first_close_wins_witness:
  "let s0 = \<lparr>sy_stream = newStream 1 1, sy_receiving = None, sy_done = None, sy_accepted = [],
             sy_taken = []\<rparr>;
       s1 = s0\<lparr>sy_stream := closeWithError (Some ErrStreamFull) (sy_stream s0)\<rparr>;
       s2 = s1\<lparr>sy_stream := closeWithError None (sy_stream s1)\<rparr>
   in st_err (sy_stream s2) = Some ErrStreamFull"
proof -
  define s0 where "s0 = \<lparr>sy_stream = newStream 1 1, sy_receiving = None, sy_done = None,
    sy_accepted = [], sy_taken = []\<rparr>"
  define s1 where "s1 = s0\<lparr>sy_stream := closeWithError (Some ErrStreamFull) (sy_stream s0)\<rparr>"
  define s2 where "s2 = s1\<lparr>sy_stream := closeWithError None (sy_stream s1)\<rparr>"
  have "reach (stream_start 1 1) stream_step s0"
    by (rule reach_start) (simp add: s0_def stream_start_def)
  then have r: "reach (stream_start 1 1) stream_step s1"
    unfolding s1_def by (rule reach_step) (rule ss_close)
  have "stream_step\<^sup>*\<^sup>* s1 s2" unfolding s2_def by (rule r_into_rtranclp, rule ss_close)
  from stream_first_close_wins [OF r this]
  have "st_err (sy_stream s2) = st_err (sy_stream s1)"
    by (simp add: s1_def s0_def newStream_def closeWithError_def)
  then show ?thesis
    by (simp add: Let_def flip: s0_def s1_def s2_def)
      (simp add: s1_def s0_def newStream_def closeWithError_def)
qed

text \<open>
  Claim C23. A stream that is not consumed cannot hold up the connection's receive loop for ever:
  whatever happens to the stream and the context in between, \<open>receive\<close> makes at most three steps,
  and until it has returned it always has a next one, the last wait being bounded by its timer.
\<close>

theorem receive_cannot_block:
  "{k. \<exists>p. phases (receive_program msg) k RcvEnter p} \<subseteq> {..3} \<and>
   (\<exists>p' st'. (p', st') \<in> set (receive_program msg p st)) = (\<forall>err. p \<noteq> RcvReturn err)"
proof
  show "{k. \<exists>p. phases (receive_program msg) k RcvEnter p} \<subseteq> {..3}"
    by (auto simp: receive_rank_def dest: rwait.phases_bounded)
  show "(\<exists>p' st'. (p', st') \<in> set (receive_program msg p st)) = (\<forall>err. p \<noteq> RcvReturn err)"
  proof (cases "\<exists>err. p = RcvReturn err")
    case True
    then show ?thesis by (auto simp: receive_program_def split: prod.splits)
  next
    case False
    then have "0 < receive_rank p" by (cases p) (auto simp: receive_rank_def)
    then have "\<exists>p' st'. (p', st') \<in> set (receive_program msg p st)"
      by (rule rwait.phases_progress)
    with False show ?thesis by simp
  qed
qed

text \<open>
  What \<open>receive\<close> returns when nothing interferes: a closed stream gives its error; with
  room the message is queued, or the context's error returned when that is ready too; a full
  stream gives the context's error, and without one, after the wait, \<open>ErrStreamFull\<close>, and is closed
  with that error for its consumers.
\<close>

lemma receive_outcomes:
  assumes "stream_ok s"
  shows "set (run_alone (receive_next done msg) 3 RcvEnter s) =
    (if st_closed s then {(RcvReturn (st_err s), s)}
     else if length (st_queue s) < st_bound s then
       {(RcvReturn None, s\<lparr>st_recv := (st_recv s)\<lparr>chan_buf := st_queue s @ [msg]\<rparr>\<rparr>)} \<union>
       (if done = None then {} else {(RcvReturn done, s)})
     else if done = None then
       {(RcvReturn (Some ErrStreamFull),
         s\<lparr>st_once := True, st_err := Some ErrStreamFull, st_closed := True\<rparr>)}
     else {(RcvReturn done, s)})"
  using assms
  by (auto simp: numeral_3_eq_3 receive_cases_def chan_send_def stream_ok_def stream_view
      closeWithError_def split: option.splits)

lemma receive_outcomes_witness:
  "set (run_alone (receive_next None (zero_header, None)) 3 RcvEnter (newStream 1 0)) =
     {(RcvReturn (Some ErrStreamFull),
       (newStream 1 0)\<lparr>st_once := True, st_err := Some ErrStreamFull, st_closed := True\<rparr>)}"
  using receive_outcomes [of "newStream 1 0" None "(zero_header, None)", OF stream_ok_newStream]
  by (simp add: newStream_def stream_view)

end
