(* ===== verification/Ttrpc_Services.thy ===== *)
theory Ttrpc_Services
  imports Ttrpc_Interceptor Ttrpc_Stream
begin

text \<open>
  The services of a server (\<open>services.go\<close>) and the context of a request (\<open>getRequestContext\<close> of
  \<open>server.go\<close>).

  User code (methods, stream handlers, interceptors) is a parameter: a function of its arguments
  and of a world \<open>'w\<close> that it may change. \<open>'ss\<close> is what a stream handler gets as its
  \<open>StreamServer\<close>. An \<open>Unmarshaler\<close> closure is kept as the payload it captures. The goroutine that
  \<open>handle\<close> starts is returned as a value; \<open>respond\<close> is the list of arguments of its call.
\<close>

section \<open>Paths and codes\<close>

fun split_slash :: "string \<Rightarrow> string list" where
  "split_slash [] = [[]]"
| "split_slash (c # cs) =
     (if c = CHR ''/'' then [] # split_slash cs
      else (case split_slash cs of [] \<Rightarrow> [[c]] | e # es \<Rightarrow> (c # e) # es))"

fun clean_elems :: "bool \<Rightarrow> string list \<Rightarrow> string list \<Rightarrow> string list" where
  "clean_elems rooted out [] = rev out"
| "clean_elems rooted out (e # es) =
     (if e = '''' \<or> e = ''.'' then clean_elems rooted out es
      else if e = ''..'' then
        (case out of
           x # xs \<Rightarrow> if x \<noteq> ''..'' then clean_elems rooted xs es else clean_elems rooted (e # out) es
         | [] \<Rightarrow> if rooted then clean_elems rooted [] es else clean_elems rooted [e] es)
      else clean_elems rooted (e # out) es)"

fun join_slash :: "string list \<Rightarrow> string" where
  "join_slash [] = []"
| "join_slash [e] = e"
| "join_slash (e # e' # es) = e @ CHR ''/'' # join_slash (e' # es)"

definition path_Clean :: "string \<Rightarrow> string" where
  "path_Clean p =
     (if p = [] then ''.''
      else
        (let rooted = (hd p = CHR ''/''); s = join_slash (clean_elems rooted [] (split_slash p))
         in if rooted then CHR ''/'' # s else if s = [] then ''.'' else s))"

definition path_Join :: "string \<Rightarrow> string \<Rightarrow> string" where
  "path_Join a b =
     (if a = [] \<and> b = [] then []
      else path_Clean (if a = [] then b else a @ CHR ''/'' # b))"

definition fullPath :: "string \<Rightarrow> string \<Rightarrow> string" where
  "fullPath service method = CHR ''/'' # path_Join service method"

definition convertCode :: "error option \<Rightarrow> code" where
  "convertCode err =
     (case err of
        None \<Rightarrow> OK
      | Some e \<Rightarrow>
          if e = IoEOF then OutOfRange
          else if e \<in> {IoErrClosedPipe, IoErrNoProgress, IoErrShortBuffer, IoErrShortWrite,
                       IoErrUnexpectedEOF} then FailedPrecondition
          else if e = OsErrInvalid then InvalidArgument
          else if e = CtxCanceled then Canceled
          else if e = CtxDeadlineExceeded then DeadlineExceeded
          else if os_IsExist e then AlreadyExists
          else if os_IsNotExist e then NotFound
          else if os_IsPermission e then PermissionDenied
          else Unknown)"

section \<open>The context of a request\<close>

text \<open>
  \<open>context.WithTimeout\<close> at time \<open>now\<close>: an earlier deadline of the parent stays, the parent's error
  is inherited, and a deadline that has passed ends the context at once. \<open>context.WithCancel\<close>
  changes nothing that can be read.
\<close>

definition context_WithTimeout :: "int \<Rightarrow> gocontext \<Rightarrow> int \<Rightarrow> gocontext" where
  "context_WithTimeout now ctx timeout =
     (case ctx_deadline ctx of
        Some cur \<Rightarrow> if cur < now + timeout then ctx
          else ctx\<lparr>ctx_deadline := Some (now + timeout),
            ctx_err := (if ctx_err ctx = None \<and> timeout \<le> 0 then Some CtxDeadlineExceeded else ctx_err ctx)\<rparr>
      | None \<Rightarrow> ctx\<lparr>ctx_deadline := Some (now + timeout),
            ctx_err := (if ctx_err ctx = None \<and> timeout \<le> 0 then Some CtxDeadlineExceeded else ctx_err ctx)\<rparr>)"

definition getRequestContext ::
    "(nat \<Rightarrow> nat \<Rightarrow> nat) \<Rightarrow> int \<Rightarrow> gocontext \<Rightarrow> Request \<Rightarrow> store \<Rightarrow> gocontext \<times> store" where
  "getRequestContext grow now ctx req h =
     (let (ctx, h) =
            (if length (Metadata req) > 0
             then (case fromRequest grow Map.empty (Metadata req) h of
                     (md, h) \<Rightarrow> (WithMetadata ctx (Some md), h))
             else (ctx, h))
      in if TimeoutNano req = 0 then (ctx, h)
         else (context_WithTimeout now ctx (TimeoutNano req), h))"

section \<open>Services\<close>

type_synonym 'u Unmarshaler = "'u any \<Rightarrow> error + 'u any"
type_synonym ('u, 'w) action = "'w \<Rightarrow> ('u any \<times> error option) \<times> 'w"
type_synonym ('u, 'w) Method = "gocontext \<Rightarrow> 'u Unmarshaler \<Rightarrow> ('u, 'w) action"
type_synonym ('u, 'w, 'ss) StreamHandler = "gocontext \<Rightarrow> 'ss \<Rightarrow> ('u, 'w) action"

record ('u, 'w, 'ss) Stream =
  Handler :: "('u, 'w, 'ss) StreamHandler"
  StreamingClient :: bool
  StreamingServer :: bool

record ('u, 'w, 'ss) ServiceDesc =
  Methods :: "string \<rightharpoonup> ('u, 'w) Method"
  Streams :: "string \<rightharpoonup> ('u, 'w, 'ss) Stream"

record ('u, 'w, 'ss) serviceSet =
  services :: "string \<rightharpoonup> ('u, 'w, 'ss) ServiceDesc"
  unaryInterceptor :: "(gocontext, 'u Unmarshaler, ('u, 'w) action) server_interceptor"
  streamInterceptor :: "(gocontext, 'ss, ('u, 'w) action) stream_interceptor"

definition newServiceSet ::
    "(gocontext, 'u Unmarshaler, ('u, 'w) action) server_interceptor \<Rightarrow> ('u, 'w, 'ss) serviceSet" where
  "newServiceSet unary =
     \<lparr>services = Map.empty, unaryInterceptor = unary,
      streamInterceptor = defaultStreamServerInterceptor\<rparr>"

text \<open>Registering a name twice panics.\<close>

definition register ::
    "string \<Rightarrow> ('u, 'w, 'ss) ServiceDesc \<Rightarrow> ('u, 'w, 'ss) serviceSet \<Rightarrow> ('u, 'w, 'ss) serviceSet option" where
  "register name desc s =
     (if services s name \<noteq> None then None
      else Some (s\<lparr>services := (services s)(name \<mapsto> desc)\<rparr>))"

text \<open>The status and the payload that end a call, from what the user's code returned.\<close>

definition call_status :: "grpc \<Rightarrow> error option \<Rightarrow> status option" where
  "call_status G err =
     (case FromError G err of
        (st, ok) \<Rightarrow>
          if ok then st
          else Some (Status (convertCode err)
                 (case err of None \<Rightarrow> '''' | Some e \<Rightarrow> error_text (StatusText G) e)))"

definition unaryCall ::
    "grpc \<Rightarrow> 'u proto \<Rightarrow> ('u, 'w, 'ss) serviceSet \<Rightarrow> gocontext \<Rightarrow> ('u, 'w) Method \<Rightarrow>
     UnaryServerInfo \<Rightarrow> gobytes \<Rightarrow> 'w \<Rightarrow> (gobytes \<times> status option) \<times> 'w" where
  "unaryCall G P s ctx method info data w =
     (let unmarshal = protoUnmarshal (StatusText G) P data in
      case unaryInterceptor s ctx unmarshal info method w of
        ((resp, err), w') \<Rightarrow>
          let (p, err) =
            (case err of
               Some e \<Rightarrow> (None, Some e)
             | None \<Rightarrow>
                 if isNil resp then (None, Some (ErrorString ''ttrpc: marshal called with nil''))
                 else (case protoMarshal (StatusText G) P resp of
                         Inl e \<Rightarrow> (None, Some e)
                       | Inr p \<Rightarrow> (p, None)))
          in ((p, call_status G err), w'))"

definition streamCall ::
    "grpc \<Rightarrow> 'u proto \<Rightarrow> ('u, 'w, 'ss) serviceSet \<Rightarrow> gocontext \<Rightarrow> ('u, 'w, 'ss) StreamHandler \<Rightarrow>
     StreamServerInfo \<Rightarrow> 'ss \<Rightarrow> 'w \<Rightarrow> (gobytes \<times> status option) \<times> 'w" where
  "streamCall G P s ctx stream info ss w =
     (case streamInterceptor s ctx ss info stream w of
        ((resp, err), w') \<Rightarrow>
          let (p, err) =
            (case err of
               Some e \<Rightarrow> (None, Some e)
             | None \<Rightarrow> (case protoMarshal (StatusText G) P resp of
                          Inl e \<Rightarrow> (None, Some e)
                        | Inr p \<Rightarrow> (p, None)))
          in ((p, call_status G err), w'))"

section \<open>Stream handlers\<close>

definition streamRecvBufferSize :: nat where
  "streamRecvBufferSize = 64"

record streamHandler =
  sh_ctx :: gocontext
  sh_recv :: "gobytes chan"
  sh_info :: StreamServerInfo
  sh_remoteClosed :: bool
  sh_localClosed :: bool

definition closeSend :: "streamHandler \<Rightarrow> streamHandler" where
  "closeSend s =
     (if \<not> sh_remoteClosed s then s\<lparr>sh_remoteClosed := True, sh_recv := chan_close (sh_recv s)\<rparr>
      else s)"

text \<open>
  \<open>data\<close> blocks as \<open>receive\<close> does, and is modelled the same way. A send to a closed channel is a
  ready case of a \<open>select\<close> and panics when it is chosen.
\<close>

datatype data_phase = DataEnter | DataSelect | DataWait | DataReturn "error option" | DataPanic

definition data_cases :: "gobytes \<Rightarrow> streamHandler \<Rightarrow> (data_phase \<times> streamHandler) list" where
  "data_cases p s =
     (case chan_send p (sh_recv s) of
        Sent ch \<Rightarrow> [(DataReturn None, s\<lparr>sh_recv := ch\<rparr>)]
      | SendPanics \<Rightarrow> [(DataPanic, s)]
      | SendBlocks \<Rightarrow> []) @
     (case ctx_err (sh_ctx s) of Some e \<Rightarrow> [(DataReturn (Some e), s)] | None \<Rightarrow> [])"

fun data_next :: "gobytes \<Rightarrow> data_phase \<Rightarrow> streamHandler \<Rightarrow> (data_phase \<times> streamHandler) list" where
  "data_next p DataEnter s =
     [if sh_remoteClosed s then (DataReturn (Some ErrStreamClosed), s) else (DataSelect, s)]"
| "data_next p DataSelect s = (case data_cases p s of [] \<Rightarrow> [(DataWait, s)] | cs \<Rightarrow> cs)"
| "data_next p DataWait s = data_cases p s @ [(DataReturn (Some ErrStreamFull), s)]"
| "data_next p (DataReturn err) s = []"
| "data_next p DataPanic s = []"

text \<open>The arguments of \<open>respond\<close>: status, data, streaming, closeStream.\<close>

type_synonym respond_args = "status option \<times> gobytes \<times> bool \<times> bool"

definition handler_SendMsg ::
    "grpc \<Rightarrow> 'u proto \<Rightarrow> 'u any \<Rightarrow> streamHandler \<Rightarrow> error + respond_args" where
  "handler_SendMsg G P m s =
     (if sh_localClosed s then Inl ErrStreamClosed
      else (case protoMarshal (StatusText G) P m of
              Inl err \<Rightarrow> Inl err
            | Inr p \<Rightarrow> Inr (None, p, True, False)))"

text \<open>The ready cases of \<open>RecvMsg\<close>, with the result and the handler after each; none: it blocks.\<close>

definition handler_RecvMsg ::
    "grpc \<Rightarrow> 'u proto \<Rightarrow> 'u any \<Rightarrow> streamHandler \<Rightarrow> ((error + 'u any) \<times> streamHandler) list" where
  "handler_RecvMsg G P m s =
     (case chan_recv (sh_recv s) of
        Received p ch \<Rightarrow> [(protoUnmarshal (StatusText G) P p m, s\<lparr>sh_recv := ch\<rparr>)]
      | ReceivedClosed \<Rightarrow> [(Inl IoEOF, s)]
      | ReceiveBlocks \<Rightarrow> []) @
     (case ctx_err (sh_ctx s) of Some e \<Rightarrow> [(Inl e, s)] | None \<Rightarrow> [])"

section \<open>Handling a request\<close>

text \<open>
  The goroutine that \<open>handle\<close> starts. \<open>HandleStream sh g first\<close>: the handler of the stream, its
  goroutine, and the payload that is handed to the handler as its first message, if any.
\<close>

datatype ('u, 'w, 'ss) goroutine =
    UnaryGo "('u, 'w) Method" UnaryServerInfo Request
  | StreamGo "('u, 'w, 'ss) Stream" gocontext StreamServerInfo

datatype ('u, 'w, 'ss) handled =
    HandleError error
  | HandleUnary "('u, 'w, 'ss) goroutine"
  | HandleStream streamHandler "('u, 'w, 'ss) goroutine" "gobytes option"

definition handle ::
    "(nat \<Rightarrow> nat \<Rightarrow> nat) \<Rightarrow> int \<Rightarrow> ('u, 'w, 'ss) serviceSet \<Rightarrow> gocontext \<Rightarrow> Request \<Rightarrow> store \<Rightarrow>
     ('u, 'w, 'ss) handled \<times> store" where
  "handle grow now s ctx req h =
     (case services s (Service req) of
        None \<Rightarrow> (HandleError (StatusError (Status Unimplemented (''service '' @ Service req))), h)
      | Some srv \<Rightarrow>
          (case Methods srv (Method req) of
             Some method \<Rightarrow>
               (HandleUnary (UnaryGo method
                  \<lparr>us_FullMethod = fullPath (Service req) (Method req)\<rparr> req), h)
           | None \<Rightarrow>
               (case Streams srv (Method req) of
                  Some stream \<Rightarrow>
                    (case getRequestContext grow now ctx req h of
                       (ctx, h) \<Rightarrow>
                         let info = \<lparr>ss_FullMethod = fullPath (Service req) (Method req),
                                     ss_StreamingClient = StreamingClient stream,
                                     ss_StreamingServer = StreamingServer stream\<rparr>;
                             recvBuf = (if \<not> StreamingClient stream then 1 else streamRecvBufferSize);
                             sh = \<lparr>sh_ctx = ctx, sh_recv = make_chan recvBuf, sh_info = info,
                                   sh_remoteClosed = False, sh_localClosed = False\<rparr>
                         in (HandleStream sh (StreamGo stream ctx info)
                               (if Payload req \<noteq> None \<or> \<not> ss_StreamingClient info
                                then Some (Payload req) else None), h))
                | None \<Rightarrow>
                    (HandleError (StatusError (Status Unimplemented (''method '' @ Method req))), h))))"

text \<open>
  The body of the goroutine up to its call of \<open>respond\<close>: a unary one builds the context of the
  request first.
\<close>

fun run_goroutine ::
    "grpc \<Rightarrow> 'u proto \<Rightarrow> (nat \<Rightarrow> nat \<Rightarrow> nat) \<Rightarrow> int \<Rightarrow> ('u, 'w, 'ss) serviceSet \<Rightarrow> gocontext \<Rightarrow> 'ss \<Rightarrow> store \<Rightarrow>
     ('u, 'w, 'ss) goroutine \<Rightarrow> 'w \<Rightarrow> respond_args \<times> 'w" where
  "run_goroutine G P grow now s ctx ss h (UnaryGo method info req) w =
     (case getRequestContext grow now ctx req h of
        (ctx', h') \<Rightarrow>
          (case unaryCall G P s ctx' method info (Payload req) w of
             ((p, st), w') \<Rightarrow> ((st, p, False, True), w')))"
| "run_goroutine G P grow now s ctx ss h (StreamGo stream ctx' info) w =
     (case streamCall G P s ctx' (Handler stream) info ss w of
        ((p, st), w') \<Rightarrow> ((st, p, StreamingServer stream, True), w'))"

section \<open>Paths of plain names\<close>

text \<open>A name that is one path element: not empty, no slash, and not a dot or two.\<close>

definition plain_name :: "string \<Rightarrow> bool" where
  "plain_name n \<longleftrightarrow> n \<noteq> [] \<and> n \<noteq> ''.'' \<and> n \<noteq> ''..'' \<and> CHR ''/'' \<notin> set n"

lemma split_slash_plain: "CHR ''/'' \<notin> set n \<Longrightarrow> split_slash n = [n]"
  by (induction n) auto

lemma split_slash_join:
  "CHR ''/'' \<notin> set a \<Longrightarrow> split_slash (a @ CHR ''/'' # b) = a # split_slash b"
  by (induction a) auto

lemma fullPath_plain:
  assumes "plain_name a" "plain_name b"
  shows "fullPath a b = CHR ''/'' # a @ CHR ''/'' # b"
proof -
  from assms have "hd (a @ CHR ''/'' # b) \<noteq> CHR ''/''"
    by (cases a) (auto simp: plain_name_def)
  moreover from assms have "clean_elems False [] (split_slash (a @ CHR ''/'' # b)) = [a, b]"
    by (simp add: plain_name_def split_slash_plain split_slash_join)
  ultimately show ?thesis
    using assms by (auto simp: fullPath_def path_Join_def path_Clean_def Let_def plain_name_def)
qed

section \<open>Statuses\<close>

lemma convertCode_OK: "convertCode err = OK \<longleftrightarrow> err = None"
  by (auto simp: convertCode_def split: option.splits)

lemma call_status_code:
  assumes "grpc_ok G"
  shows "Code G (call_status G err) =
    (case err of
       None \<Rightarrow> OK
     | Some e \<Rightarrow> (case status_in e of Some s \<Rightarrow> status_code s | None \<Rightarrow> convertCode err))"
proof (cases err)
  case None
  with grpc_okD(4,5) [OF assms] show ?thesis
    by (auto simp: call_status_def split: prod.splits)
next
  case (Some e)
  show ?thesis
  proof (cases "status_in e")
    case None
    then have "\<not> snd (FromError G (Some e))" using grpc_okD(7) [OF assms] by simp
    with None Some show ?thesis
      using grpc_okD(1) [OF assms] by (auto simp: call_status_def split: prod.splits)
  next
    case (Some s)
    then have "snd (FromError G (Some e))" using grpc_okD(7) [OF assms] by simp
    with Some \<open>err = Some e\<close> show ?thesis
      using grpc_okD(8) [OF assms Some] by (auto simp: call_status_def split: prod.splits)
  qed
qed

section \<open>The queue of a stream handler\<close>

definition handler_offer :: "gobytes \<Rightarrow> streamHandler \<Rightarrow> streamHandler option" where
  "handler_offer p s =
     (case chan_send p (sh_recv s) of Sent ch \<Rightarrow> Some (s\<lparr>sh_recv := ch\<rparr>) | _ \<Rightarrow> None)"

definition handler_take :: "streamHandler \<Rightarrow> (gobytes \<times> streamHandler) option" where
  "handler_take s =
     (case chan_recv (sh_recv s) of Received p ch \<Rightarrow> Some (p, s\<lparr>sh_recv := ch\<rparr>) | _ \<Rightarrow> None)"

definition sh_queue :: "streamHandler \<Rightarrow> gobytes list" where
  "sh_queue s = chan_buf (sh_recv s)"

definition sh_bound :: "streamHandler \<Rightarrow> nat" where
  "sh_bound s = chan_cap (sh_recv s)"

definition sh_shut :: "streamHandler \<Rightarrow> bool" where
  "sh_shut s = chan_closed (sh_recv s)"

lemmas handler_view = sh_queue_def sh_bound_def sh_shut_def

text \<open>The channel is closed exactly when the client has closed its side.\<close>

definition handler_ok :: "streamHandler \<Rightarrow> bool" where
  "handler_ok s \<longleftrightarrow> sh_shut s = sh_remoteClosed s \<and> length (sh_queue s) \<le> sh_bound s"

lemma handler_offer_Some:
  "handler_offer p s = Some s' \<longleftrightarrow> \<not> sh_shut s \<and> length (sh_queue s) < sh_bound s \<and>
     s' = s\<lparr>sh_recv := (sh_recv s)\<lparr>chan_buf := sh_queue s @ [p]\<rparr>\<rparr>"
  by (auto simp: handler_offer_def handler_view chan_send_def)

lemma handler_take_Some:
  "handler_take s = Some (p, s') \<longleftrightarrow>
     (\<exists>xs. sh_queue s = p # xs \<and> s' = s\<lparr>sh_recv := (sh_recv s)\<lparr>chan_buf := xs\<rparr>\<rparr>)"
  by (auto simp: handler_take_def handler_view chan_recv_def split: list.splits)

lemma handler_offer_shut: "sh_shut s \<Longrightarrow> handler_offer p s = None"
  by (simp add: handler_offer_def handler_view chan_send_def)

text \<open>
  On handlers whose channel agrees with the flag, offering, taking and \<open>closeSend\<close> are a mailbox
  that takes nothing more once it is shut.
\<close>

definition close_recv :: "streamHandler \<Rightarrow> streamHandler" where
  "close_recv s = s\<lparr>sh_remoteClosed := True, sh_recv := chan_close (sh_recv s)\<rparr>"

lemma closeSend_close: "handler_ok s \<Longrightarrow> closeSend s = close_recv s"
  by (cases s; cases "sh_recv s")
    (auto simp: closeSend_def close_recv_def handler_ok_def handler_view chan_close_def)

interpretation hmail: closing_mailbox handler_offer handler_take close_recv sh_queue sh_bound sh_shut
  by unfold_locales
    (auto simp: handler_offer_Some handler_take_Some handler_offer_shut handler_view close_recv_def)

definition data_rank :: "data_phase \<Rightarrow> nat" where
  "data_rank p = (case p of DataEnter \<Rightarrow> 3 | DataSelect \<Rightarrow> 2 | DataWait \<Rightarrow> 1 | _ \<Rightarrow> 0)"

lemma data_cases_shape:
  "(ph, s') \<in> set (data_cases p s) \<longleftrightarrow>
     ph = DataReturn None \<and> handler_offer p s = Some s' \<or>
     ph = DataPanic \<and> sh_shut s \<and> s' = s \<or>
     (\<exists>e. ph = DataReturn (Some e) \<and> ctx_err (sh_ctx s) = Some e \<and> s' = s)"
  by (auto simp: data_cases_def handler_offer_def handler_view chan_send_def split: option.splits)

lemma data_next_shape:
  assumes "(ph', s') \<in> set (data_next p ph s)"
  shows "ph \<in> {DataSelect, DataWait} \<and> (ph', s') \<in> set (data_cases p s) \<or>
    s' = s \<and>
    (ph = DataEnter \<and> ph' = (if sh_remoteClosed s then DataReturn (Some ErrStreamClosed) else DataSelect) \<or>
     ph = DataSelect \<and> ph' = DataWait \<and> data_cases p s = [] \<or>
     ph = DataWait \<and> ph' = DataReturn (Some ErrStreamFull))"
  using assms by (cases ph; cases "data_cases p s") auto

lemma data_cases_rank: "(ph', s') \<in> set (data_cases p s) \<Longrightarrow> data_rank ph' = 0"
  by (auto simp: data_cases_shape data_rank_def)

interpretation dwait: bounded_wait "data_next p" data_rank
proof unfold_locales
  show "(ph', s') \<in> set (data_next p ph s) \<Longrightarrow> data_rank ph' < data_rank ph" for ph' s' ph s
    by (drule data_next_shape)
      (auto dest!: data_cases_rank simp: data_rank_def split: if_splits data_phase.splits)
  show "0 < data_rank ph \<Longrightarrow> data_next p ph s \<noteq> []" for ph s
    by (cases ph) (auto simp: data_rank_def split: list.splits)
qed

section \<open>A stream handler with its goroutines\<close>

text \<open>
  The connection's receiver calls \<open>data\<close> and \<open>closeSend\<close>, one after the other; the user's handler
  calls \<open>RecvMsg\<close>; the context may end. \<open>hs_accepted\<close> and \<open>hs_taken\<close> record the payloads for which
  \<open>data\<close> returned nil and those that \<open>RecvMsg\<close> took; \<open>hs_eof\<close>, that \<open>RecvMsg\<close> returned EOF.
\<close>

record handler_sys =
  hs_handler :: streamHandler
  hs_data :: "(gobytes \<times> data_phase) option"
  hs_accepted :: "gobytes list"
  hs_taken :: "gobytes list"
  hs_eof :: bool

definition handler_start :: "gocontext \<Rightarrow> StreamServerInfo \<Rightarrow> nat \<Rightarrow> handler_sys \<Rightarrow> bool" where
  "handler_start ctx info n s \<longleftrightarrow>
     s = \<lparr>hs_handler = \<lparr>sh_ctx = ctx, sh_recv = make_chan n, sh_info = info,
            sh_remoteClosed = False, sh_localClosed = False\<rparr>,
          hs_data = None, hs_accepted = [], hs_taken = [], hs_eof = False\<rparr>"

inductive handler_step :: "handler_sys \<Rightarrow> handler_sys \<Rightarrow> bool" where
  hs_begin: "hs_data s = None \<Longrightarrow> handler_step s (s\<lparr>hs_data := Some (p, DataEnter)\<rparr>)"
| hs_move: "hs_data s = Some (p, ph) \<Longrightarrow> (ph', sh) \<in> set (data_next p ph (hs_handler s)) \<Longrightarrow>
     handler_step s (s\<lparr>hs_data := Some (p, ph'), hs_handler := sh,
       hs_accepted := hs_accepted s @ (if ph' = DataReturn None then [p] else [])\<rparr>)"
| hs_return: "hs_data s = Some (p, DataReturn err) \<Longrightarrow> handler_step s (s\<lparr>hs_data := None\<rparr>)"
| hs_close: "hs_data s = None \<Longrightarrow>
     handler_step s (s\<lparr>hs_handler := closeSend (hs_handler s)\<rparr>)"
| hs_recv: "handler_take (hs_handler s) = Some (p, sh) \<Longrightarrow>
     handler_step s (s\<lparr>hs_handler := sh, hs_taken := hs_taken s @ [p]\<rparr>)"
| hs_recv_eof: "chan_recv (sh_recv (hs_handler s)) = ReceivedClosed \<Longrightarrow>
     handler_step s (s\<lparr>hs_eof := True\<rparr>)"
| hs_done: "ctx_err (sh_ctx (hs_handler s)) = None \<Longrightarrow>
     handler_step s (s\<lparr>hs_handler := (hs_handler s)\<lparr>sh_ctx :=
       (sh_ctx (hs_handler s))\<lparr>ctx_err := Some e\<rparr>\<rparr>\<rparr>)"

definition handler_inv :: "nat \<Rightarrow> handler_sys \<Rightarrow> bool" where
  "handler_inv n s \<longleftrightarrow>
     handler_ok (hs_handler s) \<and> sh_bound (hs_handler s) = n \<and>
     hs_taken s @ sh_queue (hs_handler s) = hs_accepted s \<and>
     (\<forall>p. hs_data s \<noteq> Some (p, DataPanic)) \<and>
     (\<forall>p ph. hs_data s = Some (p, ph) \<and> ph \<in> {DataSelect, DataWait} \<longrightarrow>
        \<not> sh_remoteClosed (hs_handler s)) \<and>
     (hs_eof s \<longrightarrow> sh_remoteClosed (hs_handler s) \<and> sh_queue (hs_handler s) = [])"

lemma data_next_ok:
  assumes ok: "handler_ok s" and open': "ph \<in> {DataSelect, DataWait} \<longrightarrow> \<not> sh_remoteClosed s"
    and nxt: "(ph', s') \<in> set (data_next p ph s)"
  shows "handler_ok s' \<and> sh_bound s' = sh_bound s \<and> sh_remoteClosed s' = sh_remoteClosed s \<and>
    ph' \<noteq> DataPanic \<and> (ph' \<in> {DataSelect, DataWait} \<longrightarrow> \<not> sh_remoteClosed s') \<and>
    sh_queue s' = sh_queue s @ (if ph' = DataReturn None then [p] else []) \<and>
    (ph' = DataReturn None \<longrightarrow> \<not> sh_remoteClosed s)"
  using data_next_shape [OF nxt] ok open'
  by (auto simp: data_cases_shape handler_offer_Some handler_ok_def handler_view split: if_splits)

lemma handler_inv_step:
  assumes "handler_step s t" "handler_inv n s"
  shows "handler_inv n t"
  using assms
proof (induction rule: handler_step.induct)
  case (hs_move s p ph ph' sh)
  then have "handler_ok (hs_handler s)"
    "ph \<in> {DataSelect, DataWait} \<longrightarrow> \<not> sh_remoteClosed (hs_handler s)"
    by (auto simp: handler_inv_def)
  from data_next_ok [OF this hs_move.hyps(2)] hs_move show ?case
    by (auto simp: handler_inv_def)
next
  case (hs_close s)
  then show ?case
    by (auto simp: handler_inv_def closeSend_close handler_ok_def closeSend_def handler_view)
next
  case (hs_recv s p sh)
  then show ?case by (auto simp: handler_inv_def handler_take_Some handler_ok_def handler_view)
next
  case (hs_recv_eof s)
  then show ?case by (auto simp: handler_inv_def chan_cases handler_ok_def handler_view)
qed (auto simp: handler_inv_def handler_ok_def handler_view)

interpretation handler_reach: step_invariant "handler_start ctx info n" handler_step "handler_inv n"
proof unfold_locales
  show "handler_start ctx info n s \<Longrightarrow> handler_inv n s" for s
    by (auto simp: handler_start_def handler_inv_def handler_ok_def handler_view)
qed (rule handler_inv_step)

lemma handler_closed_step:
  assumes "handler_step s t" "handler_inv n s" "sh_remoteClosed (hs_handler s)"
  shows "sh_remoteClosed (hs_handler t) \<and> hs_accepted t = hs_accepted s"
  using assms
proof (induction rule: handler_step.induct)
  case (hs_move s p ph ph' sh)
  then have "handler_ok (hs_handler s)"
    "ph \<in> {DataSelect, DataWait} \<longrightarrow> \<not> sh_remoteClosed (hs_handler s)"
    by (auto simp: handler_inv_def)
  from data_next_ok [OF this hs_move.hyps(2)] hs_move.prems show ?case by auto
qed (auto simp: closeSend_def handler_take_Some)

section \<open>Properties\<close>


definition example_info :: StreamServerInfo where
  "example_info = \<lparr>ss_FullMethod = ''/s/m'', ss_StreamingClient = True, ss_StreamingServer = True\<rparr>"

definition example_handler :: streamHandler where
  "example_handler = \<lparr>sh_ctx = background, sh_recv = make_chan 1, sh_info = example_info,
     sh_remoteClosed = False, sh_localClosed = False\<rparr>"

definition example_handler_sys :: handler_sys where
  "example_handler_sys = \<lparr>hs_handler = closeSend example_handler, hs_data = None, hs_accepted = [],
     hs_taken = [], hs_eof = True\<rparr>"

lemma example_handler_reach: "reach (handler_start background example_info 1) handler_step example_handler_sys"
proof -
  define s0 where "s0 = \<lparr>hs_handler = example_handler, hs_data = None, hs_accepted = [],
    hs_taken = [], hs_eof = False\<rparr>"
  define s1 where "s1 = s0\<lparr>hs_handler := closeSend (hs_handler s0)\<rparr>"
  have "reach (handler_start background example_info 1) handler_step s0"
    by (rule reach_start) (simp add: s0_def handler_start_def example_handler_def)
  then have "reach (handler_start background example_info 1) handler_step s1"
    unfolding s1_def by (rule reach_step) (rule hs_close, simp add: s0_def)
  then have "reach (handler_start background example_info 1) handler_step (s1\<lparr>hs_eof := True\<rparr>)"
    by (rule reach_step, intro hs_recv_eof)
      (simp add: s1_def s0_def closeSend_def example_handler_def chan_cases)
  then show ?thesis by (simp add: s1_def s0_def example_handler_sys_def)
qed


text \<open>
  The end of a stream is final: once the handler's \<open>RecvMsg\<close> has returned EOF, no further
  message is ever accepted for it.
\<close>

lemma handler_eof_is_final:
  assumes "reach (handler_start ctx info n) handler_step s" "handler_step\<^sup>*\<^sup>* s t" "hs_eof s"
  shows "hs_accepted t = hs_accepted s"
proof -
  have inv: "handler_inv n s" using handler_reach.inv_reach [OF assms(1)] .
  with assms(3) have "sh_remoteClosed (hs_handler s)" by (auto simp: handler_inv_def)
  with assms(2) have "sh_remoteClosed (hs_handler t) \<and> hs_accepted t = hs_accepted s"
  proof (induction rule: rtranclp_induct)
    case (step t u)
    from handler_reach.inv_star [OF step.hyps(1) inv] have "handler_inv n t" .
    from handler_closed_step [OF step.hyps(2) this] step.IH [OF step.prems] show ?case by simp
  qed simp
  then show ?thesis ..
qed

lemma handler_eof_is_final_witness:
  "hs_accepted (example_handler_sys\<lparr>hs_data := Some (None, DataEnter)\<rparr>) = []"
proof -
  have "handler_step\<^sup>*\<^sup>* example_handler_sys (example_handler_sys\<lparr>hs_data := Some (None, DataEnter)\<rparr>)"
    by (rule r_into_rtranclp, rule hs_begin) (simp add: example_handler_sys_def)
  from handler_eof_is_final [OF example_handler_reach this] show ?thesis
    by (simp add: example_handler_sys_def)
qed


definition example_service ::
    "(bytes, unit) Method \<Rightarrow> (bytes, unit, unit) serviceSet" where
  "example_service method =
     (newServiceSet defaultServerInterceptor)\<lparr>services :=
        [''s'' \<mapsto> \<lparr>Methods = [''m'' \<mapsto> method],
                  Streams = [''t'' \<mapsto> \<lparr>Handler = \<lambda>ctx ss w. ((AnyNil, None), w),
                    StreamingClient = False, StreamingServer = True\<rparr>]\<rparr>]\<rparr>"


text \<open>
  The first message of a stream never blocks its connection: the handler that \<open>handle\<close>
  makes is empty and open, with one slot when the client does not stream and 64 otherwise, the first
  payload is that of the request, and \<open>data\<close> accepts it at once; only a context that has already
  ended may make it return that context's error instead.
\<close>

lemma handle_first_message:
  assumes "handle grow now s ctx req h = (HandleStream sh g (Some p), h')"
  shows "p = Payload req \<and> handler_ok sh \<and> sh_queue sh = [] \<and> \<not> sh_remoteClosed sh \<and>
    sh_bound sh = (if ss_StreamingClient (sh_info sh) then 64 else 1) \<and>
    set (run_alone (data_next p) 3 DataEnter sh) =
      {(DataReturn None, sh\<lparr>sh_recv := (sh_recv sh)\<lparr>chan_buf := [p]\<rparr>\<rparr>)} \<union>
      (case ctx_err (sh_ctx sh) of None \<Rightarrow> {} | Some e \<Rightarrow> {(DataReturn (Some e), sh)})"
proof -
  from assms have "p = Payload req"
    and mk: "sh_recv sh = make_chan (if ss_StreamingClient (sh_info sh) then 64 else 1)"
      "\<not> sh_remoteClosed sh"
    by (auto simp: handle_def Let_def streamRecvBufferSize_def split: option.splits prod.splits if_splits)
  moreover from mk have "set (run_alone (data_next p) 3 DataEnter sh) =
      {(DataReturn None, sh\<lparr>sh_recv := (sh_recv sh)\<lparr>chan_buf := [p]\<rparr>\<rparr>)} \<union>
      (case ctx_err (sh_ctx sh) of None \<Rightarrow> {} | Some e \<Rightarrow> {(DataReturn (Some e), sh)})"
    by (simp add: numeral_3_eq_3 data_cases_def chan_send_def split: option.splits)
  ultimately show ?thesis by (simp add: handler_ok_def handler_view)
qed

definition example_request :: Request where
  "example_request = \<lparr>Service = ''s'', Method = ''t'', Payload = Some [1], TimeoutNano = 0, Metadata = []\<rparr>"

lemma handle_first_message_witness:
  "\<exists>sh g h'. handle (\<lambda>c n. n) 0 (example_service (\<lambda>ctx um w. ((AnyNil, None), w))) background
      example_request example_store = (HandleStream sh g (Some (Some [1])), h') \<and>
    set (run_alone (data_next (Some [1])) 3 DataEnter sh) =
      {(DataReturn None, sh\<lparr>sh_recv := (sh_recv sh)\<lparr>chan_buf := [Some [1]]\<rparr>\<rparr>)}"
proof -
  obtain sh g h' where run: "handle (\<lambda>c n. n) 0 (example_service (\<lambda>ctx um w. ((AnyNil, None), w)))
      background example_request example_store = (HandleStream sh g (Some (Some [1])), h')"
    and ctx: "ctx_err (sh_ctx sh) = None"
    by (auto simp: handle_def Let_def example_service_def example_request_def newServiceSet_def
        getRequestContext_def background_def)
  from handle_first_message [OF run] ctx
  have "set (run_alone (data_next (Some [1])) 3 DataEnter sh) =
      {(DataReturn None, sh\<lparr>sh_recv := (sh_recv sh)\<lparr>chan_buf := [Some [1]]\<rparr>\<rparr>)}"
    by (simp add: example_request_def)
  with run show ?thesis by blast
qed

text \<open>
  The path that an interceptor sees names one method of one service: for plain names it is
  the two joined by slashes, and it determines them both.
\<close>

lemma full_path_names_method:
  assumes "plain_name a" "plain_name b" "plain_name c" "plain_name d"
  shows "fullPath a b = CHR ''/'' # a @ CHR ''/'' # b \<and> (fullPath a b = fullPath c d \<longleftrightarrow> a = c \<and> b = d)"
proof -
  have "split_slash (a @ CHR ''/'' # b) = [a, b]" "split_slash (c @ CHR ''/'' # d) = [c, d]"
    using assms by (simp_all add: plain_name_def split_slash_plain split_slash_join)
  then have "a @ CHR ''/'' # b = c @ CHR ''/'' # d \<longleftrightarrow> a = c \<and> b = d" by (metis list.inject)
  with fullPath_plain [OF assms(1,2)] fullPath_plain [OF assms(3,4)] show ?thesis by simp
qed

lemma full_path_names_method_witness:
  "fullPath ''ttrpc.Echo'' ''Call'' = ''/ttrpc.Echo/Call'' \<and>
   fullPath ''ttrpc.Echo'' ''Call'' \<noteq> fullPath ''ttrpc.Echo'' ''Stream''"
proof -
  have "plain_name ''ttrpc.Echo''" "plain_name ''Call''" "plain_name ''Stream''"
    by (simp_all add: plain_name_def)
  from full_path_names_method [OF this(1,2) this(1,3)] show ?thesis by auto
qed

text \<open>
  Claim C25. The context of a request carries the request's metadata and timeout: for every key
  its values are those of the request's pairs in order, the deadline is the timeout from now unless
  the server's own context ends earlier, and a timeout that is not positive ends it at once.
\<close>

theorem request_context_of_request:
  assumes "grow_ok grow" and "getRequestContext grow now ctx req h = (ctx', h')"
  shows "(Metadata req \<noteq> [] \<longrightarrow> (\<exists>f. GetMetadata ctx' = (Some f, True) \<and>
        (\<forall>k. view h' f k =
           (if values_of k (Metadata req) = [] then None else Some (values_of k (Metadata req)))))) \<and>
    (Metadata req = [] \<longrightarrow> GetMetadata ctx' = GetMetadata ctx) \<and>
    ctx_deadline ctx' =
      (if TimeoutNano req = 0 then ctx_deadline ctx
       else (case ctx_deadline ctx of
               None \<Rightarrow> Some (now + TimeoutNano req)
             | Some d \<Rightarrow> Some (min d (now + TimeoutNano req)))) \<and>
    (ctx_deadline ctx = None \<and> TimeoutNano req < 0 \<and> ctx_err ctx = None \<longrightarrow>
       ctx_err ctx' = Some CtxDeadlineExceeded)"
  using assms(2) fromRequest_values [OF assms(1)]
  by (auto simp: getRequestContext_def context_WithTimeout_def WithMetadata_def GetMetadata_def
      Let_def split: prod.splits if_splits option.splits)

theorem request_context_of_request_witness:
  "\<exists>ctx' h'. getRequestContext (\<lambda>c n. n) 5 background
      (example_request\<lparr>TimeoutNano := 3, Metadata := [\<lparr>Key = ''k'', Value = ''v''\<rparr>]\<rparr>)
      example_store = (ctx', h') \<and>
    ctx_deadline ctx' = Some 8 \<and>
    (\<exists>f. GetMetadata ctx' = (Some f, True) \<and> view h' f ''k'' = Some [''v''])"
proof -
  let ?req = "example_request\<lparr>TimeoutNano := 3, Metadata := [\<lparr>Key = ''k'', Value = ''v''\<rparr>]\<rparr>"
  obtain ctx' h' where run: "getRequestContext (\<lambda>c n. n) 5 background ?req example_store = (ctx', h')"
    by fastforce
  from request_context_of_request [OF _ run] run show ?thesis
    by (auto simp: grow_ok_def background_def values_of_def)
qed

end
