(* ===== verification/Ttrpc_Client.thy ===== *)
theory Ttrpc_Client
  imports Ttrpc_Services
begin

text \<open>
  The client (\<open>client.go\<close>): its table of streams, the receive loop and the shutdown. Calls and
  client streams are in \<open>Ttrpc_Calls\<close>.

  Streams are shared by the table, the receive loop and their users, so they live in a heap
  \<open>c_heap\<close>, a list addressed by position; the table \<open>c_streams\<close> maps an identifier to an address.
  Each operation on the client is a function of its state. A wait on a \<open>select\<close> is split in two:
  the list of its ready cases, and what follows.
  The step relation \<open>client_step\<close> has the goroutines interleave.
\<close>

section \<open>The client's state\<close>

record client =
  c_w :: bufw
  c_r :: reader
  c_buffers :: "gobytes list"
  c_heap :: "stream list"
  c_streams :: "streamID \<rightharpoonup> nat"
  nextStreamID :: streamID
  c_done :: bool
  c_closeOnce :: bool
  c_userCloses :: nat
  c_userCloseWait :: bool

text \<open>
  \<open>c_w\<close> and \<open>c_r\<close> are the two sides of the channel, \<open>c_buffers\<close> the pool of receive buffers;
  \<open>c_done\<close> says that the client's context is cancelled, \<open>c_closeOnce\<close> that \<open>Close\<close> has run,
  \<open>c_userCloses\<close> counts the calls of the user's close function, and \<open>c_userCloseWait\<close> says that
  \<open>userCloseWaitCh\<close> is closed.
\<close>

definition NewClient :: "wconn \<Rightarrow> reader \<Rightarrow> client" where
  "NewClient w r =
     (let ch = newChannel w r in
      \<lparr>c_w = ch_w ch, c_r = ch_r ch, c_buffers = [], c_heap = [], c_streams = Map.empty,
       nextStreamID = 1, c_done = False, c_closeOnce = False, c_userCloses = 0,
       c_userCloseWait = False\<rparr>)"

definition client_send :: "u32 \<Rightarrow> messageType \<Rightarrow> u8 \<Rightarrow> gobytes \<Rightarrow> client \<Rightarrow> error option \<times> client" where
  "client_send sid mt flags b c =
     (case send sid mt flags b (c_w c) of (err, w) \<Rightarrow> (err, c\<lparr>c_w := w\<rparr>))"

text \<open>A stream sends through its client.\<close>

definition stream_send :: "nat \<Rightarrow> messageType \<Rightarrow> u8 \<Rightarrow> gobytes \<Rightarrow> client \<Rightarrow> error option \<times> client" where
  "stream_send s mt flags b c = client_send (st_id (c_heap c ! s)) mt flags b c"

section \<open>Errors of a closed connection\<close>

fun strings_Contains :: "string \<Rightarrow> string \<Rightarrow> bool" where
  "strings_Contains [] sub = (sub = [])"
| "strings_Contains (c # cs) sub = (take (length sub) (c # cs) = sub \<or> strings_Contains cs sub)"

definition filterCloseErr :: "(status \<Rightarrow> string) \<Rightarrow> error option \<Rightarrow> error option" where
  "filterCloseErr txt err =
     (case err of
        None \<Rightarrow> None
      | Some e \<Rightarrow>
          if e = IoEOF then Some ErrClosed
          else if errors_is e IoErrClosedPipe then Some ErrClosed
          else if errors_is e IoEOF then Some ErrClosed
          else if strings_Contains (error_text txt e) ''use of closed network connection''
          then Some ErrClosed
          else
            (case as_OpError e of
               Some opn \<Rightarrow>
                 if opn = ''write'' \<and> errors_is e (Errno EPIPE) \<or>
                    opn = ''read'' \<and> errors_is e (Errno ECONNRESET)
                 then Some ErrClosed else Some e
             | None \<Rightarrow> Some e))"

section \<open>The table of streams\<close>

definition on_stream :: "nat \<Rightarrow> (stream \<Rightarrow> stream) \<Rightarrow> client \<Rightarrow> client" where
  "on_stream s f c = c\<lparr>c_heap := (c_heap c)[s := f (c_heap c ! s)]\<rparr>"

text \<open>The part of \<open>createStream\<close> under \<open>streamLock\<close>: it returns the new stream's address.\<close>

definition createStream_alloc :: "nat \<Rightarrow> client \<Rightarrow> (error + nat) \<times> client" where
  "createStream_alloc recvBuf c =
     (if c_done c then (Inl ErrClosed, c)
      else
        (let s = length (c_heap c); st = newStream (nextStreamID c) recvBuf
         in (Inr s, c\<lparr>c_heap := c_heap c @ [st], c_streams := (c_streams c)(st_id st \<mapsto> s),
                      nextStreamID := nextStreamID c + 2\<rparr>)))"

definition createStream_send ::
    "(status \<Rightarrow> string) \<Rightarrow> nat \<Rightarrow> u8 \<Rightarrow> gobytes \<Rightarrow> client \<Rightarrow> error option \<times> client" where
  "createStream_send txt s flags b c =
     (case client_send (st_id (c_heap c ! s)) messageTypeRequest flags b c of
        (err, c') \<Rightarrow> (filterCloseErr txt err, c'))"

text \<open>With an error, \<open>createStream\<close> returns the stream too if it was made.\<close>

definition createStream ::
    "(status \<Rightarrow> string) \<Rightarrow> u8 \<Rightarrow> gobytes \<Rightarrow> nat \<Rightarrow> client \<Rightarrow> (error \<times> nat option + nat) \<times> client" where
  "createStream txt flags b recvBuf c =
     (if c_done c then (Inl (ErrClosed, None), c)
      else
        (case createStream_alloc recvBuf c of
           (Inl err, c1) \<Rightarrow> (Inl (err, None), c1)
         | (Inr s, c1) \<Rightarrow>
             (case createStream_send txt s flags b c1 of
                (Some err, c2) \<Rightarrow> (Inl (err, Some s), c2)
              | (None, c2) \<Rightarrow> (Inr s, c2))))"

definition deleteStream_map :: "nat \<Rightarrow> client \<Rightarrow> client" where
  "deleteStream_map s c = c\<lparr>c_streams := (c_streams c)(st_id (c_heap c ! s) := None)\<rparr>"

definition deleteStream :: "nat \<Rightarrow> client \<Rightarrow> client" where
  "deleteStream s c = on_stream s (closeWithError None) (deleteStream_map s c)"

definition getStream :: "streamID \<Rightarrow> client \<Rightarrow> nat option" where
  "getStream sid c = c_streams c sid"

text \<open>\<open>order\<close> is the order in which the loop visits the table.\<close>

definition cleanup_turn :: "error option \<Rightarrow> streamID \<Rightarrow> client \<Rightarrow> client" where
  "cleanup_turn err sid c =
     (case c_streams c sid of
        None \<Rightarrow> c
      | Some s \<Rightarrow>
          (let c = on_stream s (closeWithError err) c
           in c\<lparr>c_streams := (c_streams c)(sid := None)\<rparr>))"

definition cleanupStreams :: "streamID list \<Rightarrow> error option \<Rightarrow> client \<Rightarrow> client" where
  "cleanupStreams order err c = fold (cleanup_turn err) order c"

section \<open>Closing\<close>

text \<open>
  Closing the connection makes writes fail, and reads fail after the \<open>n\<close> bytes that the channel's
  reader still holds in its buffer.
\<close>

definition conn_Close :: "nat \<Rightarrow> client \<Rightarrow> client" where
  "conn_Close n c =
     c\<lparr>c_r := \<lparr>rd_rest = take n (rd_rest (c_r c)), rd_err = OpError ''read'' '''' NetErrClosed\<rparr>,
       c_w := (c_w c)\<lparr>w_conn := (w_conn (c_w c))\<lparr>wc_room := Some 0,
          wc_fault := OpError ''write'' '''' NetErrClosed\<rparr>\<rparr>\<rparr>"

definition client_Close :: "nat \<Rightarrow> client \<Rightarrow> client" where
  "client_Close n c =
     (if c_closeOnce c then c else conn_Close n (c\<lparr>c_closeOnce := True, c_done := True\<rparr>))"

text \<open>The ready cases of \<open>UserOnCloseWait\<close>.\<close>

definition UserOnCloseWait :: "gocontext \<Rightarrow> client \<Rightarrow> error option list" where
  "UserOnCloseWait ctx c =
     (if c_userCloseWait c then [None] else []) @
     (case ctx_err ctx of Some e \<Rightarrow> [Some e] | None \<Rightarrow> [])"

section \<open>The receive loop\<close>

text \<open>
  The goroutine \<open>run\<close>: the top of the loop of \<open>receiveLoop\<close>, a blocked read, a delivery under
  way, and the steps after the loop, each with the error the loop returned.
\<close>

datatype run_phase =
    LoopTop
  | LoopRecv
  | Deliver nat streamMessage receive_phase
  | Closing "error option"
  | Cleanup "error option"
  | UserClose
  | RunDone

definition receive_message ::
    "grpc \<Rightarrow> bytes option \<Rightarrow> client \<Rightarrow> run_phase \<times> client" where
  "receive_message G pool c =
     (case recv pool (c_r c) of
        ((mh, p, err), r) \<Rightarrow>
          let c = c\<lparr>c_r := r\<rparr> in
          if err \<noteq> None \<and> \<not> snd (FromError G err)
          then (Closing (filterCloseErr (StatusText G) err), c)
          else
            (case getStream (StreamID mh) c of
               None \<Rightarrow> (LoopTop, c)
             | Some s \<Rightarrow>
                 if err \<noteq> None then (LoopTop, on_stream s (closeWithError err) c)
                 else (Deliver s (mh, p) RcvEnter, c)))"

definition done_err :: "client \<Rightarrow> error option" where
  "done_err c = (if c_done c then Some CtxCanceled else None)"

fun run_next ::
    "grpc \<Rightarrow> bytes option \<Rightarrow> nat \<Rightarrow> streamID list \<Rightarrow> run_phase \<Rightarrow> client \<Rightarrow> (run_phase \<times> client) list" where
  "run_next G pool n order LoopTop c =
     [(if c_done c then Closing (Some ErrClosed) else LoopRecv, c)]"
| "run_next G pool n order LoopRecv c = [receive_message G pool c]"
| "run_next G pool n order (Deliver s msg (RcvReturn err)) c = [(LoopTop, c)]"
| "run_next G pool n order (Deliver s msg ph) c =
     map (\<lambda>(ph', st). (Deliver s msg ph', c\<lparr>c_heap := (c_heap c)[s := st]\<rparr>))
       (receive_next (done_err c) msg ph (c_heap c ! s))"
| "run_next G pool n order (Closing err) c = [(Cleanup err, client_Close n c)]"
| "run_next G pool n order (Cleanup err) c = [(UserClose, cleanupStreams order err c)]"
| "run_next G pool n order UserClose c =
     [(RunDone, c\<lparr>c_userCloses := c_userCloses c + 1, c_userCloseWait := True\<rparr>)]"
| "run_next G pool n order RunDone c = []"

section \<open>Waiting for a message\<close>

text \<open>
  What a wait ends with. When the stream is closed, a message that is still queued goes first.
\<close>

datatype waited = WaitErr "error option" | WaitMsg streamMessage

definition take_message :: "nat \<Rightarrow> client \<Rightarrow> (waited \<times> client) list" where
  "take_message s c =
     (case stream_take (c_heap c ! s) of
        None \<Rightarrow> []
      | Some (m, st) \<Rightarrow> [(WaitMsg m, c\<lparr>c_heap := (c_heap c)[s := st]\<rparr>)])"

definition stream_ready :: "nat \<Rightarrow> client \<Rightarrow> (waited \<times> client) list" where
  "stream_ready s c =
     (if st_closed (c_heap c ! s)
      then [case take_message s c of r # rs \<Rightarrow> r | [] \<Rightarrow> (WaitErr (st_err (c_heap c ! s)), c)]
      else []) @
     take_message s c"

text \<open>The ready cases of the wait in \<open>dispatch\<close>.\<close>

definition dispatch_ready :: "gocontext \<Rightarrow> nat \<Rightarrow> client \<Rightarrow> (waited \<times> client) list" where
  "dispatch_ready ctx s c =
     (case ctx_err ctx of Some e \<Rightarrow> [(WaitErr (Some e), c)] | None \<Rightarrow> []) @
     (if c_done c then [(WaitErr (Some ErrClosed), c)] else []) @
     stream_ready s c"

section \<open>The goroutines of a client\<close>

text \<open>
  The receive loop runs; users create streams in two parts, of which the second sends the request
  and releases \<open>sendLock\<close> (\<open>cl_creating\<close> is its holder); they send data, take messages, delete
  streams in two parts (\<open>cl_deleting\<close>: out of the table, not yet closed) and close the client.
  \<open>cl_requests\<close> records the identifiers of the requests in the order they were sent.
\<close>

record client_sys =
  cl_client :: client
  cl_run :: run_phase
  cl_creating :: "nat option"
  cl_deleting :: "nat list"
  cl_requests :: "streamID list"

definition client_start :: "client_sys \<Rightarrow> bool" where
  "client_start s \<longleftrightarrow> (\<exists>w r. s = \<lparr>cl_client = NewClient w r, cl_run = LoopTop, cl_creating = None,
     cl_deleting = [], cl_requests = []\<rparr>)"

inductive client_step :: "grpc \<Rightarrow> client_sys \<Rightarrow> client_sys \<Rightarrow> bool" for G :: grpc where
  cl_run: "(ph, c) \<in> set (run_next G pool n order (cl_run s) (cl_client s)) \<Longrightarrow>
     set order = dom (c_streams (cl_client s)) \<Longrightarrow> distinct order \<Longrightarrow>
     client_step G s (s\<lparr>cl_client := c, cl_run := ph\<rparr>)"
| cl_alloc: "cl_creating s = None \<Longrightarrow> createStream_alloc recvBuf (cl_client s) = (Inr ref, c) \<Longrightarrow>
     client_step G s (s\<lparr>cl_client := c, cl_creating := Some ref\<rparr>)"
| cl_request: "cl_creating s = Some ref \<Longrightarrow>
     createStream_send (StatusText G) ref flags b (cl_client s) = (err, c) \<Longrightarrow>
     client_step G s (s\<lparr>cl_client := c, cl_creating := None,
       cl_requests := cl_requests s @ [st_id (c_heap (cl_client s) ! ref)]\<rparr>)"
| cl_data: "cl_creating s = None \<Longrightarrow> ref < length (c_heap (cl_client s)) \<Longrightarrow>
     stream_send ref messageTypeData flags b (cl_client s) = (err, c) \<Longrightarrow>
     client_step G s (s\<lparr>cl_client := c\<rparr>)"
| cl_take: "ref < length (c_heap (cl_client s)) \<Longrightarrow>
     (r, c) \<in> set (stream_ready ref (cl_client s)) \<Longrightarrow> client_step G s (s\<lparr>cl_client := c\<rparr>)"
| cl_delete: "ref < length (c_heap (cl_client s)) \<Longrightarrow>
     client_step G s (s\<lparr>cl_client := deleteStream_map ref (cl_client s),
       cl_deleting := ref # cl_deleting s\<rparr>)"
| cl_deleted: "cl_deleting s = xs @ ref # ys \<Longrightarrow>
     client_step G s (s\<lparr>cl_client := on_stream ref (closeWithError None) (cl_client s),
       cl_deleting := xs @ ys\<rparr>)"
| cl_close: "client_step G s (s\<lparr>cl_client := client_Close n (cl_client s)\<rparr>)"

text \<open>
  The invariant. The identifiers of the first 2^31 streams are all different; with more, an
  identifier comes back, and then the last part (a stream that is not closed is in the table or
  about to be closed) no longer holds.
\<close>

definition stream_number :: "nat \<Rightarrow> streamID" where
  "stream_number i = word_of_nat (2 * i + 1)"

definition stream_fits :: "nat \<Rightarrow> stream \<Rightarrow> bool" where
  "stream_fits i st \<longleftrightarrow> st_id st = stream_number i \<and> stream_ok st \<and>
     (\<forall>m \<in> set (st_queue st). StreamID (fst m) = st_id st)"

definition heap_ok :: "client \<Rightarrow> bool" where
  "heap_ok c \<longleftrightarrow>
     nextStreamID c = stream_number (length (c_heap c)) \<and>
     (\<forall>i < length (c_heap c). stream_fits i (c_heap c ! i)) \<and>
     (\<forall>sid i. c_streams c sid = Some i \<longrightarrow> i < length (c_heap c) \<and> stream_number i = sid)"

definition requests_ok :: "client_sys \<Rightarrow> bool" where
  "requests_ok s \<longleftrightarrow>
     (let n = length (c_heap (cl_client s)) in
      (case cl_creating s of
         None \<Rightarrow> cl_requests s = map stream_number [0..<n]
       | Some ref \<Rightarrow> n = Suc ref \<and> cl_requests s = map stream_number [0..<ref]))"

definition run_ok :: "client_sys \<Rightarrow> bool" where
  "run_ok s \<longleftrightarrow> (c_closeOnce (cl_client s) \<longrightarrow> c_done (cl_client s)) \<and>
     (case cl_run s of
        Deliver ref m ph \<Rightarrow> ref < length (c_heap (cl_client s)) \<and>
          StreamID (fst m) = st_id (c_heap (cl_client s) ! ref)
      | Cleanup err \<Rightarrow> c_done (cl_client s)
      | UserClose \<Rightarrow> c_done (cl_client s) \<and> c_streams (cl_client s) = Map.empty
      | RunDone \<Rightarrow> c_done (cl_client s) \<and> c_streams (cl_client s) = Map.empty
      | _ \<Rightarrow> True)"

definition closes_ok :: "client_sys \<Rightarrow> bool" where
  "closes_ok s \<longleftrightarrow> c_userCloses (cl_client s) = (if cl_run s = RunDone then 1 else 0) \<and>
     (c_userCloseWait (cl_client s) \<longleftrightarrow> cl_run s = RunDone)"

definition tracked :: "client_sys \<Rightarrow> bool" where
  "tracked s \<longleftrightarrow> (\<forall>i < length (c_heap (cl_client s)).
     st_closed (c_heap (cl_client s) ! i) \<or> i \<in> set (cl_deleting s) \<or>
     c_streams (cl_client s) (st_id (c_heap (cl_client s) ! i)) = Some i)"

definition client_inv :: "client_sys \<Rightarrow> bool" where
  "client_inv s \<longleftrightarrow> heap_ok (cl_client s) \<and> requests_ok s \<and> run_ok s \<and> closes_ok s \<and>
     (\<forall>i \<in> set (cl_deleting s). i < length (c_heap (cl_client s))) \<and>
     (length (c_heap (cl_client s)) \<le> 2 ^ 31 \<longrightarrow> tracked s)"

section \<open>What the operations keep\<close>

lemma createStream_send_shape:
  "createStream_send txt ref flags b c = (err, c') \<Longrightarrow> \<exists>w. c' = c\<lparr>c_w := w\<rparr>"
  by (auto simp: createStream_send_def client_send_def split: prod.splits)

lemma stream_send_shape: "stream_send ref mt flags b c = (err, c') \<Longrightarrow> \<exists>w. c' = c\<lparr>c_w := w\<rparr>"
  by (auto simp: stream_send_def client_send_def split: prod.splits)

lemma client_Close_simps [simp]:
  "c_heap (client_Close n c) = c_heap c" "c_streams (client_Close n c) = c_streams c"
  "nextStreamID (client_Close n c) = nextStreamID c"
  "c_userCloses (client_Close n c) = c_userCloses c"
  "c_userCloseWait (client_Close n c) = c_userCloseWait c"
  "c_closeOnce (client_Close n c)"
  by (simp_all add: client_Close_def conn_Close_def)

lemma client_Close_done:
  "c_done (client_Close n c) \<longleftrightarrow> c_done c \<or> \<not> c_closeOnce c"
  by (simp add: client_Close_def conn_Close_def)

text \<open>A change to one stream that keeps its identity and what it may hold.\<close>

definition evolves :: "stream \<Rightarrow> stream \<Rightarrow> bool" where
  "evolves st st' \<longleftrightarrow> st_id st' = st_id st \<and> stream_ok st' \<and> (st_closed st \<longrightarrow> st_closed st') \<and>
     (\<forall>m \<in> set (st_queue st'). m \<in> set (st_queue st) \<or> StreamID (fst m) = st_id st)"

lemma evolves_close: "stream_ok st \<Longrightarrow> evolves st (closeWithError err st)"
  by (simp add: evolves_def stream_ok_close)

lemma evolves_take:
  assumes "stream_ok st" "stream_take st = Some (m, st')"
  shows "evolves st st'"
proof -
  from assms(2) obtain xs where "st_queue st = m # xs"
    "st' = st\<lparr>st_recv := (st_recv st)\<lparr>chan_buf := xs\<rparr>\<rparr>"
    by (auto simp: stream_take_Some)
  with stream_ok_take [OF assms] show ?thesis by (simp add: evolves_def stream_view)
qed

lemma evolves_receive:
  assumes "stream_ok st" "(ph', st') \<in> set (receive_next done m ph st)" "StreamID (fst m) = st_id st"
  shows "evolves st st'"
proof -
  from receive_next_shape [OF assms(1,2)] consider "st' = st"
    | "st' = closeWithError (Some ErrStreamFull) st" | "stream_offer m st = Some st'" by blast
  then show ?thesis
  proof cases
    case 3
    from stream_offer_ok [OF assms(1) 3] assms(3) show ?thesis by (simp add: evolves_def)
  qed (use assms(1) in \<open>simp_all add: evolves_def stream_ok_close\<close>)
qed

lemma heap_okD:
  assumes "heap_ok c" "i < length (c_heap c)"
  shows "stream_fits i (c_heap c ! i)" "st_id (c_heap c ! i) = stream_number i"
    "stream_ok (c_heap c ! i)"
    "m \<in> set (st_queue (c_heap c ! i)) \<Longrightarrow> StreamID (fst m) = st_id (c_heap c ! i)"
  using assms by (simp_all add: heap_ok_def stream_fits_def)

lemma heap_ok_table: "heap_ok c \<Longrightarrow> c_streams c sid = Some i \<Longrightarrow>
    i < length (c_heap c) \<and> st_id (c_heap c ! i) = sid"
  using heap_okD(2) [of c i] by (auto simp: heap_ok_def)

lemma fits_evolves: "stream_fits i st \<Longrightarrow> evolves st st' \<Longrightarrow> stream_fits i st'"
  by (fastforce simp: stream_fits_def evolves_def)

lemma heap_ok_update:
  assumes "heap_ok c" "i < length (c_heap c)" "evolves (c_heap c ! i) st"
  shows "heap_ok (c\<lparr>c_heap := (c_heap c)[i := st]\<rparr>)"
  using assms fits_evolves [of i "c_heap c ! i" st]
  by (auto simp: heap_ok_def nth_update_if)

lemma heap_ok_delete:
  "heap_ok c \<Longrightarrow> c_streams c = m \<Longrightarrow> heap_ok (c\<lparr>c_streams := m(sid := None)\<rparr>)"
  by (auto simp: heap_ok_def)

lemma tracked_update:
  assumes "tracked s" "i < length (c_heap (cl_client s))" "evolves (c_heap (cl_client s) ! i) st"
  shows "tracked (s\<lparr>cl_client := (cl_client s)\<lparr>c_heap := (c_heap (cl_client s))[i := st]\<rparr>\<rparr>)"
  using assms by (auto simp: tracked_def evolves_def nth_update_if)

section \<open>Numbers of streams\<close>

lemma stream_number_0 [simp]: "stream_number 0 = 1"
  by (simp add: stream_number_def)

lemma stream_number_Suc: "stream_number i + 2 = stream_number (Suc i)"
  by (simp add: stream_number_def)

lemma stream_number_unat: "i < 2 ^ 31 \<Longrightarrow> unat (stream_number i) = 2 * i + 1"
  unfolding stream_number_def by (rule unat_u32_of_nat) simp

lemma stream_number_odd: "odd (unat (stream_number i))"
proof -
  have "unat (stream_number i) = (2 * i + 1) mod 2 ^ 32"
    unfolding stream_number_def unsigned_of_nat take_bit_eq_mod by simp
  moreover have "odd ((2 * i + 1) mod (2 ^ 32 :: nat))" by (simp add: odd_iff_mod_2_eq_one mod_mod_cancel)
  ultimately show ?thesis by simp
qed

lemma stream_number_inj: "i < 2 ^ 31 \<Longrightarrow> j < 2 ^ 31 \<Longrightarrow> stream_number i = stream_number j \<longleftrightarrow> i = j"
proof -
  assume "i < 2 ^ 31" "j < 2 ^ 31"
  then have "unat (stream_number i) = 2 * i + 1" "unat (stream_number j) = 2 * j + 1"
    by (simp_all only: stream_number_unat)
  then show ?thesis by (metis add_right_cancel mult_cancel_left zero_neq_numeral)
qed

lemma stream_number_less: "i < j \<Longrightarrow> j < 2 ^ 31 \<Longrightarrow> stream_number i < stream_number j"
  by (simp add: word_less_nat_alt stream_number_unat)

section \<open>The invariant of the client\<close>

lemma heap_ok_alloc:
  assumes "heap_ok c" "createStream_alloc n c = (Inr ref, c')"
  shows "heap_ok c'" "ref = length (c_heap c)" "c_heap c' = c_heap c @ [newStream (nextStreamID c) n]"
    "c_streams c' = (c_streams c)(nextStreamID c \<mapsto> ref)" "\<not> c_done c" "c_done c' = c_done c \<and> c_closeOnce c' = c_closeOnce c"
    "c_userCloses c' = c_userCloses c" "c_userCloseWait c' = c_userCloseWait c"
proof -
  from assms(2) have c': "ref = length (c_heap c)" "\<not> c_done c"
    "c' = c\<lparr>c_heap := c_heap c @ [newStream (nextStreamID c) n],
            c_streams := (c_streams c)(nextStreamID c \<mapsto> ref), nextStreamID := nextStreamID c + 2\<rparr>"
    by (auto simp: createStream_alloc_def Let_def newStream_def split: if_splits)
  have "stream_number (length (c_heap c)) + 2 = stream_number (Suc (length (c_heap c)))"
    by (rule stream_number_Suc)
  then show "heap_ok c'"
    using assms(1) stream_ok_newStream [of "nextStreamID c" n]
    by (auto simp: c'(1,3) heap_ok_def stream_fits_def nth_append newStream_def stream_view less_Suc_eq)
  show "ref = length (c_heap c)" "c_heap c' = c_heap c @ [newStream (nextStreamID c) n]"
    "c_streams c' = (c_streams c)(nextStreamID c \<mapsto> ref)" "\<not> c_done c" "c_done c' = c_done c \<and> c_closeOnce c' = c_closeOnce c"
    "c_userCloses c' = c_userCloses c" "c_userCloseWait c' = c_userCloseWait c"
    by (simp_all add: c')
qed

lemma client_inv_alloc:
  assumes "client_inv s" "cl_creating s = None" "createStream_alloc n (cl_client s) = (Inr ref, c)"
  shows "client_inv (s\<lparr>cl_client := c, cl_creating := Some ref\<rparr>)"
proof -
  from assms(1) have ok: "heap_ok (cl_client s)" by (simp add: client_inv_def)
  note al = heap_ok_alloc [OF ok assms(3)]
  have new: "nextStreamID (cl_client s) = stream_number ref"
    using ok al(2) by (simp add: heap_ok_def)
  have old: "st_id (c_heap (cl_client s) ! i) = stream_number i"
    if "i < length (c_heap (cl_client s))" for i
    using heap_okD(2) [OF ok that] .
  have "tracked (s\<lparr>cl_client := c, cl_creating := Some ref\<rparr>)" if "tracked s" "Suc ref \<le> 2 ^ 31"
    using that old new al(2) stream_number_inj
    by (auto simp: tracked_def al(3,4) nth_append less_Suc_eq newStream_def)
  moreover have "run_ok (s\<lparr>cl_client := c, cl_creating := Some ref\<rparr>)"
    using assms(1) al(5,6)
    by (auto simp: client_inv_def run_ok_def al(2,3) nth_append split: run_phase.splits)
  ultimately show ?thesis
    using assms(1,2) al
    by (auto simp: client_inv_def requests_ok_def closes_ok_def Let_def less_Suc_eq)
qed

lemma on_stream_simps [simp]:
  "length (c_heap (on_stream i f c)) = length (c_heap c)"
  "c_streams (on_stream i f c) = c_streams c" "c_done (on_stream i f c) = c_done c"
  "c_closeOnce (on_stream i f c) = c_closeOnce c"
  "nextStreamID (on_stream i f c) = nextStreamID c"
  "c_userCloses (on_stream i f c) = c_userCloses c"
  "c_userCloseWait (on_stream i f c) = c_userCloseWait c"
  by (simp_all add: on_stream_def)

lemma closed_close: "stream_ok st \<Longrightarrow> st_closed (closeWithError err st)"
  by (auto simp: stream_ok_def)

text \<open>Streams only evolve: no stream leaves the heap, changes its identifier or opens again.\<close>

definition streams_evolve :: "client \<Rightarrow> client \<Rightarrow> bool" where
  "streams_evolve c c' \<longleftrightarrow> length (c_heap c') = length (c_heap c) \<and>
     (\<forall>i < length (c_heap c). st_id (c_heap c' ! i) = st_id (c_heap c ! i) \<and>
        (st_closed (c_heap c ! i) \<longrightarrow> st_closed (c_heap c' ! i))) \<and>
     c_done c' = c_done c \<and> c_closeOnce c' = c_closeOnce c \<and>
     c_userCloses c' = c_userCloses c \<and> c_userCloseWait c' = c_userCloseWait c"

lemma streams_evolve_trans:
  "streams_evolve c c' \<Longrightarrow> streams_evolve c' c'' \<Longrightarrow> streams_evolve c c''"
  by (simp add: streams_evolve_def)

lemma cleanup_turn_ok:
  assumes "heap_ok c"
  shows "heap_ok (cleanup_turn err sid c)" "streams_evolve c (cleanup_turn err sid c)"
    "c_streams (cleanup_turn err sid c) = (c_streams c)(sid := None)"
    "c_streams c sid = Some i \<Longrightarrow> st_closed (c_heap (cleanup_turn err sid c) ! i)"
proof -
  have "heap_ok (on_stream i (closeWithError err) c)" if "c_streams c sid = Some i" for i
    unfolding on_stream_def using heap_ok_update [OF assms] heap_ok_table [OF assms that]
      evolves_close heap_okD(3) [OF assms] by simp
  then show "heap_ok (cleanup_turn err sid c)"
    using assms by (auto simp: cleanup_turn_def Let_def heap_ok_delete split: option.splits)
  show "streams_evolve c (cleanup_turn err sid c)"
    by (auto simp: cleanup_turn_def Let_def streams_evolve_def on_stream_def nth_update_if
        split: option.splits)
  show "c_streams (cleanup_turn err sid c) = (c_streams c)(sid := None)"
    by (auto simp: cleanup_turn_def Let_def split: option.splits)
  show "st_closed (c_heap (cleanup_turn err sid c) ! i)" if "c_streams c sid = Some i"
    using heap_ok_table [OF assms that] closed_close heap_okD(3) [OF assms]
    by (simp add: cleanup_turn_def that Let_def on_stream_def)
qed

lemma cleanupStreams_ok:
  assumes "heap_ok c"
  shows "heap_ok (cleanupStreams order err c)" "streams_evolve c (cleanupStreams order err c)"
    "c_streams (cleanupStreams order err c) = c_streams c |` (- set order)"
    "sid \<in> set order \<Longrightarrow> c_streams c sid = Some i \<Longrightarrow>
       st_closed (c_heap (cleanupStreams order err c) ! i)"
proof -
  have "heap_ok (cleanupStreams order err c) \<and> streams_evolve c (cleanupStreams order err c) \<and>
    c_streams (cleanupStreams order err c) = c_streams c |` (- set order) \<and>
    (\<forall>sid i. sid \<in> set order \<longrightarrow> c_streams c sid = Some i \<longrightarrow>
       st_closed (c_heap (cleanupStreams order err c) ! i))"
    using assms
  proof (induction order arbitrary: c)
    case Nil
    then show ?case by (simp add: cleanupStreams_def streams_evolve_def)
  next
    case (Cons a order)
    let ?c = "cleanup_turn err a c"
    note turn = cleanup_turn_ok [OF Cons.prems, where err = err and sid = a]
    note IH = Cons.IH [OF turn(1)]
    have eq: "cleanupStreams (a # order) err c = cleanupStreams order err ?c"
      by (simp add: cleanupStreams_def)
    have closed: "st_closed (c_heap (cleanupStreams order err ?c) ! i)"
      if "sid \<in> set (a # order)" "c_streams c sid = Some i" for sid i
    proof (cases "sid = a")
      case True
      then have "st_closed (c_heap ?c ! i)" using turn(4) that by simp
      with IH heap_ok_table [OF Cons.prems that(2)] turn(2) show ?thesis
        by (simp add: streams_evolve_def)
    next
      case False
      with that IH turn(3) show ?thesis by simp
    qed
    have "c_streams (cleanupStreams order err ?c) = c_streams ?c |` (- set order)"
      using IH by blast
    also have "\<dots> = c_streams c |` (- set (a # order))"
      unfolding turn(3) by (auto simp: restrict_map_def fun_eq_iff)
    finally have "c_streams (cleanupStreams order err ?c) = c_streams c |` (- set (a # order))" .
    moreover from IH turn(2) have "streams_evolve c (cleanupStreams order err ?c)"
      by (blast intro: streams_evolve_trans)
    ultimately show ?case using IH closed unfolding eq by blast
  qed
  then show "heap_ok (cleanupStreams order err c)" "streams_evolve c (cleanupStreams order err c)"
    "c_streams (cleanupStreams order err c) = c_streams c |` (- set order)"
    "sid \<in> set order \<Longrightarrow> c_streams c sid = Some i \<Longrightarrow>
       st_closed (c_heap (cleanupStreams order err c) ! i)"
    by blast+
qed

lemma client_inv_stream:
  assumes "client_inv s" "i < length (c_heap (cl_client s))" "evolves (c_heap (cl_client s) ! i) st"
  shows "client_inv (s\<lparr>cl_client := (cl_client s)\<lparr>c_heap := (c_heap (cl_client s))[i := st]\<rparr>\<rparr>)"
proof -
  have "st_id ((c_heap (cl_client s))[i := st] ! j) = st_id (c_heap (cl_client s) ! j)" for j
    using assms(3) by (simp add: nth_update_if evolves_def)
  then show ?thesis
    using assms heap_ok_update [of "cl_client s" i st] tracked_update [of s i st]
    by (auto simp: client_inv_def requests_ok_def run_ok_def closes_ok_def Let_def
        split: run_phase.splits option.splits)
qed

lemma client_inv_phase:
  assumes "client_inv s" "run_ok (s\<lparr>cl_run := ph\<rparr>)" "ph \<noteq> RunDone" "cl_run s \<noteq> RunDone"
  shows "client_inv (s\<lparr>cl_run := ph\<rparr>)"
  using assms by (simp add: client_inv_def requests_ok_def closes_ok_def tracked_def Let_def split: option.splits)

text \<open>A step that leaves the streams, their table and the books of the goroutines as they are.\<close>

definition same_streams :: "client_sys \<Rightarrow> client_sys \<Rightarrow> bool" where
  "same_streams s t \<longleftrightarrow>
     c_heap (cl_client t) = c_heap (cl_client s) \<and> c_streams (cl_client t) = c_streams (cl_client s) \<and>
     nextStreamID (cl_client t) = nextStreamID (cl_client s) \<and>
     c_userCloses (cl_client t) = c_userCloses (cl_client s) \<and>
     c_userCloseWait (cl_client t) = c_userCloseWait (cl_client s) \<and>
     cl_creating t = cl_creating s \<and> cl_deleting t = cl_deleting s \<and> cl_requests t = cl_requests s"

lemma client_inv_same:
  assumes "client_inv s" "same_streams s t" "run_ok t" "cl_run t = RunDone \<longleftrightarrow> cl_run s = RunDone"
  shows "client_inv t"
  using assms
  by (simp add: client_inv_def same_streams_def heap_ok_def requests_ok_def closes_ok_def tracked_def
      Let_def split: option.splits)

lemma client_inv_once: "client_inv s \<Longrightarrow> c_closeOnce (cl_client s) \<Longrightarrow> c_done (cl_client s)"
  by (simp add: client_inv_def run_ok_def)

lemma run_next_Deliver:
  assumes "\<forall>err. dp \<noteq> RcvReturn err"
  shows "run_next G pool n order (Deliver i m dp) c =
    map (\<lambda>(dp', st). (Deliver i m dp', c\<lparr>c_heap := (c_heap c)[i := st]\<rparr>))
      (receive_next (done_err c) m dp (c_heap c ! i))"
  using assms by (cases dp) (simp_all only: run_next.simps, simp)

lemma run_client_swap: "s\<lparr>cl_run := ph, cl_client := c\<rparr> = s\<lparr>cl_client := c, cl_run := ph\<rparr>"
  by simp

lemma same_streams_run:
  "same_streams s (s\<lparr>cl_run := ph\<rparr>)"
  by (simp add: same_streams_def)

lemma client_inv_run_top:
  assumes inv: "client_inv s" and nxt: "(ph, c) \<in> set (run_next G pool n order (cl_run s) (cl_client s))"
    and phase: "cl_run s = LoopTop \<or> cl_run s = LoopRecv"
  shows "client_inv (s\<lparr>cl_client := c, cl_run := ph\<rparr>)"
proof (cases "cl_run s = LoopTop")
  case True
  with nxt have "c = cl_client s" "ph \<in> {Closing (Some ErrClosed), LoopRecv}" by (auto split: if_splits)
  then show ?thesis
    using client_inv_once [OF inv]
    by (intro client_inv_same [OF inv]) (auto simp: same_streams_def run_ok_def True)
next
  case False
  with phase have run: "cl_run s = LoopRecv" by simp
  let ?c = "cl_client s"
  have ok: "heap_ok ?c" using inv by (simp add: client_inv_def)
  note once = client_inv_once [OF inv]
  obtain mh p err r where rc: "recv pool (c_r ?c) = ((mh, p, err), r)" by (metis prod_cases3 surj_pair)
  let ?t = "s\<lparr>cl_client := ?c\<lparr>c_r := r\<rparr>, cl_run := LoopTop\<rparr>"
  have t: "client_inv ?t"
    by (rule client_inv_same [OF inv]) (simp_all add: same_streams_def run_ok_def run once)
  from nxt run have res: "(ph, c) = receive_message G pool ?c" by simp
  consider (stop) e where "(ph, c) = (Closing e, ?c\<lparr>c_r := r\<rparr>)"
    | (skip) "(ph, c) = (LoopTop, ?c\<lparr>c_r := r\<rparr>)"
    | (poison) i where "getStream (StreamID mh) ?c = Some i"
        "(ph, c) = (LoopTop, on_stream i (closeWithError err) (?c\<lparr>c_r := r\<rparr>))"
    | (deliver) i where "getStream (StreamID mh) ?c = Some i"
        "(ph, c) = (Deliver i (mh, p) RcvEnter, ?c\<lparr>c_r := r\<rparr>)"
    using res by (auto simp: receive_message_def rc Let_def getStream_def split: if_splits option.splits)
  then show ?thesis
  proof cases
    case stop
    then show ?thesis
      by (intro client_inv_same [OF inv]) (simp_all add: same_streams_def run_ok_def run once)
  next
    case skip
    with t show ?thesis by simp
  next
    case (poison i)
    from heap_ok_table [OF ok] poison(1) have i: "i < length (c_heap ?c)" by (auto simp: getStream_def)
    from client_inv_stream [OF t, of i "closeWithError err (c_heap ?c ! i)"] i
      evolves_close [OF heap_okD(3) [OF ok i]] poison(2)
    show ?thesis by (simp add: on_stream_def run_client_swap)
  next
    case (deliver i)
    from heap_ok_table [OF ok] deliver(1) have "i < length (c_heap ?c) \<and> st_id (c_heap ?c ! i) = StreamID mh"
      by (simp add: getStream_def)
    with deliver(2) show ?thesis
      by (intro client_inv_same [OF inv]) (simp_all add: same_streams_def run_ok_def run once)
  qed
qed

lemma client_inv_run_deliver:
  assumes inv: "client_inv s" and nxt: "(ph, c) \<in> set (run_next G pool n order (cl_run s) (cl_client s))"
    and run: "cl_run s = Deliver i m dp"
  shows "client_inv (s\<lparr>cl_client := c, cl_run := ph\<rparr>)"
proof -
  let ?c = "cl_client s"
  have ok: "heap_ok ?c" using inv by (simp add: client_inv_def)
  note once = client_inv_once [OF inv]
  have i: "i < length (c_heap ?c)" "StreamID (fst m) = st_id (c_heap ?c ! i)"
    using inv by (simp_all add: client_inv_def run_ok_def run)
  consider (return) err where "dp = RcvReturn err" "(ph, c) = (LoopTop, ?c)"
    | (move) dp' st where "(dp', st) \<in> set (receive_next (done_err ?c) m dp (c_heap ?c ! i))"
        "(ph, c) = (Deliver i m dp', ?c\<lparr>c_heap := (c_heap ?c)[i := st]\<rparr>)"
    using nxt run run_next_Deliver [of dp G pool n order i m ?c] by (cases "\<exists>err. dp = RcvReturn err") auto
  then show ?thesis
  proof cases
    case return
    then show ?thesis
      by (intro client_inv_same [OF inv]) (simp_all add: same_streams_def run_ok_def run once)
  next
    case (move dp' st)
    have ev: "evolves (c_heap ?c ! i) st"
      using evolves_receive [OF heap_okD(3) [OF ok i(1)] move(1) i(2)] .
    let ?t = "s\<lparr>cl_client := ?c\<lparr>c_heap := (c_heap ?c)[i := st]\<rparr>\<rparr>"
    have t: "client_inv ?t" using client_inv_stream [OF inv i(1) ev] .
    have "run_ok (?t\<lparr>cl_run := Deliver i m dp'\<rparr>)"
      using i ev once by (simp add: run_ok_def evolves_def)
    with t have "client_inv (?t\<lparr>cl_run := Deliver i m dp'\<rparr>)"
      by (intro client_inv_same [OF t same_streams_run]) (simp_all add: run)
    with move(2) show ?thesis by simp
  qed
qed

lemma client_inv_run_close:
  assumes inv: "client_inv s" and nxt: "(ph, c) \<in> set (run_next G pool n order (cl_run s) (cl_client s))"
    and order: "set order = dom (c_streams (cl_client s))"
    and run: "cl_run s \<in> {Closing err, Cleanup err, UserClose, RunDone}"
  shows "client_inv (s\<lparr>cl_client := c, cl_run := ph\<rparr>)"
proof -
  let ?c = "cl_client s"
  have ok: "heap_ok ?c" using inv by (simp add: client_inv_def)
  from run consider "cl_run s = Closing err" | "cl_run s = Cleanup err" | "cl_run s = UserClose" | "cl_run s = RunDone"
    by auto
  then show ?thesis
  proof cases
    case 1
    with nxt client_inv_once [OF inv] show ?thesis
      by (intro client_inv_same [OF inv]) (auto simp: same_streams_def run_ok_def client_Close_done)
  next
    case 2
    have c: "c = cleanupStreams order err ?c" "ph = UserClose" using nxt 2 by simp_all
    note cl = cleanupStreams_ok [OF ok, where order = order and err = err]
    have "c_streams (cleanupStreams order err ?c) = Map.empty"
      using cl(3) order by (auto simp: restrict_map_def fun_eq_iff)
    moreover have closed: "st_closed (c_heap c ! i)" if "c_streams ?c sid = Some i" for sid i
      using cl(4) [OF _ that] that order by (auto simp: c)
    have "tracked (s\<lparr>cl_client := c, cl_run := ph\<rparr>)" if "tracked s"
    proof -
      have "st_closed (c_heap c ! i) \<or> i \<in> set (cl_deleting s)" if "i < length (c_heap ?c)" for i
        using \<open>tracked s\<close> that closed cl(2) unfolding tracked_def c streams_evolve_def by metis
      with cl(2) show ?thesis by (auto simp: tracked_def c streams_evolve_def)
    qed
    ultimately show ?thesis
      using inv cl(1,2) 2
      by (auto simp: client_inv_def requests_ok_def run_ok_def closes_ok_def c streams_evolve_def Let_def
          split: option.splits)
  next
    case 3
    with nxt inv show ?thesis
      by (auto simp: client_inv_def heap_ok_def requests_ok_def run_ok_def closes_ok_def tracked_def Let_def
          split: option.splits)
  qed (use nxt in simp)
qed

lemma stream_ready_shape:
  assumes "(r, c') \<in> set (stream_ready i c)"
  shows "(c' = c \<and> r = WaitErr (st_err (c_heap c ! i)) \<and> st_closed (c_heap c ! i) \<and>
      stream_take (c_heap c ! i) = None) \<or>
    (\<exists>m st. stream_take (c_heap c ! i) = Some (m, st) \<and> r = WaitMsg m \<and>
      c' = c\<lparr>c_heap := (c_heap c)[i := st]\<rparr>)"
  using assms
  by (auto simp: stream_ready_def take_message_def split: if_splits option.splits list.splits)

lemma client_inv_delete:
  assumes inv: "client_inv s" and i: "i < length (c_heap (cl_client s))"
  shows "client_inv (s\<lparr>cl_client := deleteStream_map i (cl_client s),
    cl_deleting := i # cl_deleting s\<rparr>)"
proof -
  let ?c = "cl_client s"
  have ok: "heap_ok ?c" using inv by (simp add: client_inv_def)
  have "j = i" if "st_id (c_heap ?c ! j) = st_id (c_heap ?c ! i)" "j < length (c_heap ?c)"
    "length (c_heap ?c) \<le> 2 ^ 31" for j
    using that i heap_okD(2) [OF ok] stream_number_inj [of i j] by simp
  then show ?thesis
    using inv i heap_ok_delete [OF ok, of "c_streams ?c" "st_id (c_heap ?c ! i)"]
    by (auto simp: client_inv_def requests_ok_def run_ok_def closes_ok_def tracked_def
        deleteStream_map_def Let_def split: option.splits run_phase.splits)
qed

lemma client_inv_deleted:
  assumes inv: "client_inv s" and del: "cl_deleting s = xs @ i # ys"
  shows "client_inv (s\<lparr>cl_client := on_stream i (closeWithError None) (cl_client s),
    cl_deleting := xs @ ys\<rparr>)"
proof -
  let ?c = "cl_client s" and ?st = "closeWithError None (c_heap (cl_client s) ! i)"
  have ok: "heap_ok ?c" and i: "i < length (c_heap ?c)" using inv del by (auto simp: client_inv_def)
  let ?t = "s\<lparr>cl_client := ?c\<lparr>c_heap := (c_heap ?c)[i := ?st]\<rparr>\<rparr>"
  have t: "client_inv ?t"
    using client_inv_stream [OF inv i evolves_close [OF heap_okD(3) [OF ok i]]] .
  have "st_closed ?st" using closed_close heap_okD(3) [OF ok i] by blast
  then have "tracked (?t\<lparr>cl_deleting := xs @ ys\<rparr>)" if "tracked ?t"
    using that del i by (auto simp: tracked_def nth_update_if)
  with t show ?thesis
    by (auto simp: client_inv_def requests_ok_def run_ok_def closes_ok_def on_stream_def del Let_def
        split: option.splits run_phase.splits)
qed

lemma client_inv_step:
  assumes "client_step G s t" "client_inv s"
  shows "client_inv t"
  using assms
proof (induction rule: client_step.induct)
  case (cl_run ph c pool n order s)
  then show ?case
    using client_inv_run_top [of s ph c G pool n order] client_inv_run_deliver [of s ph c G pool n order]
      client_inv_run_close [of s ph c G pool n order]
    by (cases "cl_run s") auto
next
  case (cl_alloc s recvBuf ref c)
  then show ?case using client_inv_alloc by blast
next
  case (cl_request s ref flags b err c)
  from createStream_send_shape [OF cl_request.hyps(2)] obtain w where c: "c = (cl_client s)\<lparr>c_w := w\<rparr>" ..
  from cl_request.prems cl_request.hyps(1)
  have "length (c_heap (cl_client s)) = Suc ref" "heap_ok (cl_client s)"
    by (auto simp: client_inv_def requests_ok_def Let_def)
  with heap_okD(2) [of "cl_client s" ref] cl_request.prems cl_request.hyps(1) show ?case
    by (auto simp: client_inv_def heap_ok_def requests_ok_def run_ok_def closes_ok_def tracked_def c Let_def
        split: run_phase.splits)
next
  case (cl_data s ref flags b err c)
  from stream_send_shape [OF cl_data.hyps(3)] obtain w where "c = (cl_client s)\<lparr>c_w := w\<rparr>" ..
  with cl_data.prems show ?case
    by (intro client_inv_same [OF cl_data.prems])
      (auto simp: same_streams_def client_inv_def run_ok_def split: run_phase.splits)
next
  case (cl_take ref s r c)
  have ok: "heap_ok (cl_client s)" using cl_take.prems by (simp add: client_inv_def)
  from stream_ready_shape [OF cl_take.hyps(2)] consider "c = cl_client s"
    | m st where "stream_take (c_heap (cl_client s) ! ref) = Some (m, st)"
      "c = (cl_client s)\<lparr>c_heap := (c_heap (cl_client s))[ref := st]\<rparr>" by blast
  then show ?case
  proof cases
    case 2
    from client_inv_stream [OF cl_take.prems cl_take.hyps(1)
        evolves_take [OF heap_okD(3) [OF ok cl_take.hyps(1)] 2(1)]] 2(2)
    show ?thesis by simp
  qed (use cl_take.prems in simp)
next
  case (cl_delete ref s)
  then show ?case using client_inv_delete by blast
next
  case (cl_deleted s xs ref ys)
  then show ?case using client_inv_deleted by blast
next
  case (cl_close s n)
  then show ?case
    using client_inv_once [OF cl_close.prems]
    by (intro client_inv_same [OF cl_close.prems])
      (auto simp: same_streams_def client_inv_def run_ok_def client_Close_done split: run_phase.splits)
qed

interpretation client_reach: step_invariant client_start "client_step G" client_inv
proof unfold_locales
  show "client_start s \<Longrightarrow> client_inv s" for s
    by (auto simp: client_start_def client_inv_def NewClient_def newChannel_def heap_ok_def
        requests_ok_def run_ok_def closes_ok_def tracked_def)
qed (rule client_inv_step)

section \<open>Writing on a healthy connection\<close>

definition client_healthy :: "client \<Rightarrow> bool" where
  "client_healthy c \<longleftrightarrow> healthy (c_w c)"

definition client_sent :: "client \<Rightarrow> bytes" where
  "client_sent c = wc_sent (w_conn (c_w c))"

lemma client_send_healthy:
  assumes "client_healthy c" "slice_len b \<le> messageLengthMax"
  shows "\<exists>w. client_send sid mt flags b c = (None, c\<lparr>c_w := w\<rparr>) \<and> client_healthy (c\<lparr>c_w := w\<rparr>) \<and>
    client_sent (c\<lparr>c_w := w\<rparr>) = client_sent c @ frame sid mt flags b"
  using send_healthy [of "c_w c" b sid mt flags] assms
  by (auto simp: client_send_def client_healthy_def client_sent_def)

lemma client_send_oversized:
  "messageLengthMax < slice_len b \<Longrightarrow>
     client_send sid mt flags b c =
       (Some (OversizedMessageErr (slice_len b) (oversized_status (slice_len b))), c)"
  by (simp add: client_send_def send_def OversizedMessageError_def)

lemma filterCloseErr_Some: "\<exists>e'. filterCloseErr txt (Some e) = Some e'"
  by (auto simp: filterCloseErr_def split: option.splits)

section \<open>A closed example\<close>

text \<open>A client that made one stream and whose peer then closed the connection.\<close>

definition example_client :: client where
  "example_client = NewClient example_conn \<lparr>rd_rest = [], rd_err = IoEOF\<rparr>"

definition example_closed_sys :: "client_sys \<Rightarrow> bool" where
  "example_closed_sys s \<longleftrightarrow> reach client_start (client_step example_grpc) s \<and> cl_run s = UserClose \<and>
     length (c_heap (cl_client s)) = 1 \<and> cl_deleting s = [] \<and> cl_requests s = [1]"

definition sys :: "client \<Rightarrow> run_phase \<Rightarrow> nat option \<Rightarrow> streamID list \<Rightarrow> client_sys" where
  "sys c ph cr reqs = \<lparr>cl_client = c, cl_run = ph, cl_creating = cr, cl_deleting = [], cl_requests = reqs\<rparr>"

lemma sys_run:
  "(ph', c') \<in> set (run_next G pool n order ph c) \<Longrightarrow> set order = dom (c_streams c) \<Longrightarrow> distinct order \<Longrightarrow>
     reach st (client_step G) (sys c ph cr reqs) \<Longrightarrow>
     reach st (client_step G) (sys c' ph' cr reqs)"
  by (erule reach_step) (use cl_run [of ph' c' G pool n order "sys c ph cr reqs"] in \<open>simp add: sys_def\<close>)

lemma sys_alloc:
  "createStream_alloc k c = (Inr ref, c') \<Longrightarrow>
     reach st (client_step G) (sys c ph None reqs) \<Longrightarrow>
     reach st (client_step G) (sys c' ph (Some ref) reqs)"
  by (erule reach_step) (use cl_alloc [of "sys c ph None reqs" k ref c' G] in \<open>simp add: sys_def\<close>)

lemma sys_request:
  "createStream_send (StatusText G) ref flags b c = (err, c') \<Longrightarrow>
     reach st (client_step G) (sys c ph (Some ref) reqs) \<Longrightarrow>
     reach st (client_step G) (sys c' ph None (reqs @ [st_id (c_heap c ! ref)]))"
  by (erule reach_step)
    (use cl_request [of "sys c ph (Some ref) reqs" ref G flags b err c'] in \<open>simp add: sys_def\<close>)

lemma example_closed: "\<exists>s. example_closed_sys s"
proof -
  let ?R = "reach client_start (client_step example_grpc)"
  have 0: "?R (sys example_client LoopTop None [])"
    by (rule reach_start) (auto simp: sys_def client_start_def example_client_def)
  define c1 where "c1 = snd (createStream_alloc 2 example_client)"
  have c1: "createStream_alloc 2 example_client = (Inr 0, c1)" "length (c_heap c1) = 1"
    "st_id (c_heap c1 ! 0) = 1" "\<not> c_done c1" "dom (c_streams c1) = {1}" "c_r c1 = c_r example_client"
    by (simp_all add: c1_def createStream_alloc_def example_client_def NewClient_def Let_def newStream_def)
  obtain err c2 where req: "createStream_send (StatusText example_grpc) 0 0 None c1 = (err, c2)"
    by fastforce
  from createStream_send_shape [OF req] obtain w where c2: "c2 = c1\<lparr>c_w := w\<rparr>" ..
  have dom: "set [1] = dom (c_streams c2)" "distinct [1 :: streamID]" by (simp_all add: c2 c1)
  from sys_request [OF req sys_alloc [OF c1(1) 0]] have 2: "?R (sys c2 LoopTop None [1])"
    by (simp add: c1)
  have 3: "?R (sys c2 LoopRecv None [1])"
    by (rule sys_run [OF _ dom 2]) (simp add: c2 c1)
  have r: "c_r c2 = \<lparr>rd_rest = [], rd_err = IoEOF\<rparr>"
    by (simp add: c2 c1 example_client_def NewClient_def newChannel_def)
  have "receive_message example_grpc None c2 = (Closing (Some ErrClosed), c2)"
    by (cases c2) (use r in \<open>simp add: receive_message_def recv_eof filterCloseErr_def example_grpc_def\<close>)
  then have 4: "?R (sys c2 (Closing (Some ErrClosed)) None [1])"
    by (intro sys_run [OF _ dom 3, where pool = None]) simp
  define c5 where "c5 = client_Close 0 c2"
  have 5: "?R (sys c5 (Cleanup (Some ErrClosed)) None [1])"
    by (rule sys_run [OF _ dom 4, where n = 0]) (simp add: c5_def)
  have 6: "?R (sys (cleanupStreams [1] (Some ErrClosed) c5) UserClose None [1])"
    by (rule sys_run [OF _ _ dom(2) 5]) (simp_all add: c5_def c2 c1)
  have "length (c_heap (cleanupStreams [1] (Some ErrClosed) c5)) = 1"
    by (simp add: cleanupStreams_def cleanup_turn_def Let_def c5_def c2 c1 split: option.splits)
  with 6 show ?thesis unfolding example_closed_sys_def by (metis sys_def client_sys.select_convs)
qed

text \<open>A client whose peer has answered its only request with one message.\<close>

definition example_reply :: message where
  "example_reply = (\<lparr>Length = 1, StreamID = 1, Type = messageTypeResponse, Flags = 0\<rparr>, Some [0])"

lemma example_requested:
  "\<exists>c. reach (\<lambda>s. s = sys (NewClient example_conn r) LoopTop None []) (client_step example_grpc)
       (sys c LoopRecv None [1]) \<and>
     c_heap c = [newStream 1 2] \<and> c_streams c = [1 \<mapsto> 0] \<and> \<not> c_done c \<and> c_r c = r \<and>
     client_sent c = frame 1 messageTypeRequest 0 (Some [1, 1, 115, 109])"
proof -
  let ?c = "NewClient example_conn r"
  let ?R = "reach (\<lambda>s. s = sys ?c LoopTop None []) (client_step example_grpc)"
  have 0: "?R (sys ?c LoopTop None [])" by (rule reach_start) simp
  define c1 where "c1 = snd (createStream_alloc 2 ?c)"
  have c1: "createStream_alloc 2 ?c = (Inr 0, c1)" "c_heap c1 = [newStream 1 2]"
    "c_streams c1 = [1 \<mapsto> 0]" "c_r c1 = r" "\<not> c_done c1" "client_healthy c1" "client_sent c1 = []"
    by (simp_all add: c1_def createStream_alloc_def NewClient_def newChannel_def Let_def newStream_def
        client_healthy_def healthy_def client_sent_def example_conn_def)
  have "slice_len (Some [1, 1, 115, 109 :: u8]) \<le> messageLengthMax" by (simp add: messageLengthMax_def)
  from client_send_healthy [OF c1(6) this, of 1 messageTypeRequest 0] obtain w where
    w: "client_send 1 messageTypeRequest 0 (Some [1, 1, 115, 109]) c1 = (None, c1\<lparr>c_w := w\<rparr>)"
    "client_sent (c1\<lparr>c_w := w\<rparr>) = frame 1 messageTypeRequest 0 (Some [1, 1, 115, 109])"
    by (auto simp: c1)
  define c2 where "c2 = c1\<lparr>c_w := w\<rparr>"
  have "createStream_send (StatusText example_grpc) 0 0 (Some [1, 1, 115, 109]) c1 = (None, c2)"
    using w(1) by (simp add: createStream_send_def c1 newStream_def c2_def filterCloseErr_def)
  from sys_request [OF this sys_alloc [OF c1(1) 0]] have 1: "?R (sys c2 LoopTop None [1])"
    by (simp add: c1 newStream_def)
  have "?R (sys c2 LoopRecv None [1])"
    by (rule sys_run [OF _ _ _ 1, where order = "[1]"]) (simp_all add: c2_def c1)
  with c1 w(2) show ?thesis by (intro exI [of _ c2]) (simp add: c2_def)
qed

lemma example_delivered:
  "\<exists>s. reach (\<lambda>s. s = sys (NewClient example_conn
         \<lparr>rd_rest = encode_message example_reply, rd_err = IoEOF\<rparr>) LoopTop None []) (client_step example_grpc) s \<and>
     length (c_heap (cl_client s)) = 1 \<and> st_queue (c_heap (cl_client s) ! 0) = [example_reply] \<and>
     st_id (c_heap (cl_client s) ! 0) = 1 \<and> cl_requests s = [1] \<and>
     client_sent (cl_client s) = frame 1 messageTypeRequest 0 (Some [1, 1, 115, 109])"
proof -
  let ?r = "\<lparr>rd_rest = encode_message example_reply, rd_err = IoEOF\<rparr>"
  let ?R = "reach (\<lambda>s. s = sys (NewClient example_conn ?r) LoopTop None []) (client_step example_grpc)"
  obtain c2 where 2: "?R (sys c2 LoopRecv None [1])" and c2: "c_heap c2 = [newStream 1 2]"
    "c_streams c2 = [1 \<mapsto> 0]" "\<not> c_done c2" "c_r c2 = ?r"
    "client_sent c2 = frame 1 messageTypeRequest 0 (Some [1, 1, 115, 109])"
    using example_requested by blast
  have ord: "distinct [1 :: streamID]" by simp
  have rc: "recv None (c_r c2) = ((fst example_reply, snd example_reply, None), \<lparr>rd_rest = [], rd_err = IoEOF\<rparr>)"
    using recv_encode [of example_reply None "[]" IoEOF]
    by (simp add: c2 example_reply_def message_ok_def messageLengthMax_def)
  define c3 where "c3 = c2\<lparr>c_r := \<lparr>rd_rest = [], rd_err = IoEOF\<rparr>\<rparr>"
  have "receive_message example_grpc None c2 = (Deliver 0 example_reply RcvEnter, c3)"
    unfolding receive_message_def rc c3_def
    by (simp add: Let_def getStream_def c2) (simp add: example_reply_def example_grpc_def c2)
  then have 3: "?R (sys c3 (Deliver 0 example_reply RcvEnter) None [1])"
    by (intro sys_run [OF _ _ ord 2, where pool = None]) (simp_all add: c2)
  have 4: "?R (sys c3 (Deliver 0 example_reply RcvSelect) None [1])"
    by (rule sys_run [OF _ _ ord 3]) (simp_all add: c3_def c2 newStream_def)
  define st where "st = (newStream 1 2)\<lparr>st_recv := \<lparr>chan_cap = 2, chan_buf = [example_reply],
    chan_closed = False\<rparr>\<rparr>"
  have 5: "?R (sys (c3\<lparr>c_heap := [st]\<rparr>) (Deliver 0 example_reply (RcvReturn None)) None [1])"
    by (rule sys_run [OF _ _ ord 4])
      (simp_all add: c3_def c2 st_def newStream_def receive_cases_def chan_send_def make_chan_def
        done_err_def)
  have "st_queue st = [example_reply]" "st_id st = 1" "client_sent (c3\<lparr>c_heap := [st]\<rparr>) = client_sent c2"
    by (simp_all add: st_def stream_view newStream_def client_sent_def c3_def)
  with 5 c2(5) show ?thesis
    by (intro exI [of _ "sys (c3\<lparr>c_heap := [st]\<rparr>) (Deliver 0 example_reply (RcvReturn None)) None [1]"])
      (simp add: sys_def)
qed

lemma sys_client_start: "client_start (sys (NewClient w r) LoopTop None [])"
  by (auto simp: client_start_def sys_def)

section \<open>Properties\<close>



text \<open>
  Claim C15. After 2^31 streams the client uses its identifiers again: the stream number 2^31 + 1 of
  a client gets the identifier of the first.
\<close>

lemma alloc_many:
  "heap_ok (((\<lambda>c. snd (createStream_alloc 1 c)) ^^ n) (NewClient w r)) \<and>
   \<not> c_done (((\<lambda>c. snd (createStream_alloc 1 c)) ^^ n) (NewClient w r)) \<and>
   length (c_heap (((\<lambda>c. snd (createStream_alloc 1 c)) ^^ n) (NewClient w r))) = n"
proof (induction n)
  case 0
  then show ?case by (simp add: heap_ok_def NewClient_def Let_def)
next
  case (Suc n)
  let ?c = "((\<lambda>c. snd (createStream_alloc 1 c)) ^^ n) (NewClient w r)"
  obtain ref c' where al: "createStream_alloc 1 ?c = (Inr ref, c')"
    using Suc.IH by (simp add: createStream_alloc_def Let_def)
  from heap_ok_alloc [OF _ al] Suc.IH al show ?case by simp
qed

theorem client_ids_come_back:
  "st_id (c_heap (((\<lambda>c. snd (createStream_alloc 1 c)) ^^ Suc (2 ^ 31)) (NewClient w r)) ! (2 ^ 31)) =
   st_id (c_heap (((\<lambda>c. snd (createStream_alloc 1 c)) ^^ Suc (2 ^ 31)) (NewClient w r)) ! 0)"
proof -
  define c where "c = ((\<lambda>c. snd (createStream_alloc 1 c)) ^^ Suc (2 ^ 31)) (NewClient w r)"
  have c: "heap_ok c" "2 ^ 31 < length (c_heap c)" "0 < length (c_heap c)"
    using alloc_many [of "Suc (2 ^ 31)" w r] unfolding c_def [symmetric] by simp_all
  have "stream_number (2 ^ 31) = stream_number 0" by (simp add: stream_number_def)
  with heap_okD(2) [OF c(1,2)] heap_okD(2) [OF c(1,3)] show ?thesis
    unfolding c_def [symmetric] by metis
qed

text \<open>
  Claim C3. Shutting down wakes everyone: once the receive loop has cleaned up, every stream ever
  made is closed (or its user is just closing it), so that no wait for one of its messages can
  block, no call waits, and no new stream can be made. This holds for the first 2^31 streams.
\<close>

theorem client_shutdown_wakes_all:
  assumes "reach client_start (client_step G) s" and "cl_run s = UserClose \<or> cl_run s = RunDone"
    and "length (c_heap (cl_client s)) \<le> 2 ^ 31"
    and "i < length (c_heap (cl_client s))" and "i \<notin> set (cl_deleting s)"
  shows "st_closed (c_heap (cl_client s) ! i) \<and> stream_ready i (cl_client s) \<noteq> [] \<and>
    dispatch_ready ctx i (cl_client s) \<noteq> [] \<and>
    createStream txt flags b n (cl_client s) = (Inl (ErrClosed, None), cl_client s)"
proof -
  from client_reach.inv_reach [OF assms(1)] assms(2-5)
  have "st_closed (c_heap (cl_client s) ! i)" "c_done (cl_client s)"
    by (auto simp: client_inv_def run_ok_def tracked_def)
  then show ?thesis by (simp add: stream_ready_def dispatch_ready_def createStream_def)
qed

theorem client_shutdown_wakes_all_witness:
  "\<exists>s. example_closed_sys s \<and> st_closed (c_heap (cl_client s) ! 0) \<and> stream_ready 0 (cl_client s) \<noteq> []"
proof -
  from example_closed obtain s where s: "example_closed_sys s" ..
  then have "reach client_start (client_step example_grpc) s" "cl_run s = UserClose \<or> cl_run s = RunDone"
    "length (c_heap (cl_client s)) \<le> 2 ^ 31" "0 < length (c_heap (cl_client s))"
    "0 \<notin> set (cl_deleting s)" by (simp_all add: example_closed_sys_def)
  from client_shutdown_wakes_all [OF this] s show ?thesis by blast
qed

text \<open>
  The user's close function is called exactly once, when the client has shut down, and
  only then does \<open>UserOnCloseWait\<close> return without an error.
\<close>

lemma client_close_callback_once:
  assumes "reach client_start (client_step G) s"
  shows "c_userCloses (cl_client s) = (if cl_run s = RunDone then 1 else 0) \<and>
    (None \<in> set (UserOnCloseWait ctx (cl_client s)) \<longleftrightarrow> cl_run s = RunDone)"
  using client_reach.inv_reach [OF assms]
  by (auto simp: client_inv_def closes_ok_def UserOnCloseWait_def split: option.splits)

lemma client_close_callback_once_witness:
  "\<exists>s. example_closed_sys s \<and> c_userCloses (cl_client s) = 0"
proof -
  from example_closed obtain s where s: "example_closed_sys s" ..
  then have "reach client_start (client_step example_grpc) s" "cl_run s = UserClose"
    by (simp_all add: example_closed_sys_def)
  with client_close_callback_once [OF this(1)] s show ?thesis by auto
qed



end
