(* ===== verification/Ttrpc_Calls.thy ===== *)
theory Ttrpc_Calls
  imports Ttrpc_Client
begin

text \<open>
  Unary calls and client streams (\<open>client.go\<close>): \<open>dispatch\<close>, \<open>Call\<close>, \<open>NewStream\<close> and the methods of
  \<open>clientStream\<close>.

  The functions \<open>dispatch\<close>, \<open>Call\<close> and \<open>RecvMsg\<close> block once. They take an argument \<open>others\<close>, what the
  other goroutines do to the context and the client during the wait, and \<open>choice\<close>, the number of
  the ready case that is taken; their result is \<open>None\<close> when no case is ready.
\<close>

section \<open>Messages\<close>

text \<open>\<open>msg.payload[:msg.header.Length]\<close>; a received payload has exactly that length.\<close>

definition message_bytes :: "streamMessage \<Rightarrow> gobytes" where
  "message_bytes msg = map_option (take (unat (Length (fst msg)))) (snd msg)"

definition unexpected_message :: "messageType \<Rightarrow> error" where
  "unexpected_message t =
     Wrapf (''unexpected '' @ [CHR 0x22] @ messageType_String t @ [CHR 0x22] @ '' message received: '')
       ErrProtocol ''''"

definition put_buffer :: "gobytes \<Rightarrow> client \<Rightarrow> client" where
  "put_buffer p c = c\<lparr>c_buffers := putmbuf p (c_buffers c)\<rparr>"

section \<open>Unary calls\<close>

definition as_response :: "'u message_value option \<Rightarrow> Response" where
  "as_response v = (case v of Some (MResponse r) \<Rightarrow> r | _ \<Rightarrow> empty_response)"

definition dispatch_finish ::
    "'u proto \<Rightarrow> Response \<Rightarrow> waited \<Rightarrow> client \<Rightarrow> (error option \<times> Response) \<times> client" where
  "dispatch_finish P resp r c =
     (case r of
        WaitErr err \<Rightarrow> ((err, resp), c)
      | WaitMsg msg \<Rightarrow>
          (if Type (fst msg) = messageTypeResponse then
             (case Unmarshal P (message_bytes msg) (Some (MResponse resp)) of
                Inl err \<Rightarrow> ((Some err, resp), put_buffer (snd msg) c)
              | Inr v \<Rightarrow> ((None, as_response v), put_buffer (snd msg) c))
           else ((Some (unexpected_message (Type (fst msg))), resp), put_buffer (snd msg) c)))"

text \<open>
  \<open>dispatch\<close>: after \<open>createStream\<close> has returned a stream without an error, the deferred
  \<open>deleteStream\<close> runs on every path.
\<close>

definition dispatch ::
    "(status \<Rightarrow> string) \<Rightarrow> 'u proto \<Rightarrow> (gocontext \<Rightarrow> client \<Rightarrow> gocontext \<times> client) \<Rightarrow> nat \<Rightarrow>
     gocontext \<Rightarrow> Request \<Rightarrow> Response \<Rightarrow> client \<Rightarrow> ((error option \<times> Response) \<times> client) option" where
  "dispatch txt P others choice ctx req resp c =
     (case codec_Marshal P (AnyMessage (Some (MRequest req))) of
        Inl err \<Rightarrow> Some ((Some err, resp), c)
      | Inr p \<Rightarrow>
          (case createStream txt 0 p 1 c of
             (Inl (err, s), c1) \<Rightarrow> Some ((Some err, resp), c1)
           | (Inr s, c1) \<Rightarrow>
               (case others ctx c1 of
                  (ctx', c2) \<Rightarrow>
                    let ready = dispatch_ready ctx' s c2 in
                    if choice < length ready then
                      (case ready ! choice of
                         (r, c3) \<Rightarrow>
                           (case dispatch_finish P resp r c3 of
                              (res, c4) \<Rightarrow> Some (res, deleteStream s c4)))
                    else None)))"

text \<open>
  The request of a call at time \<open>now\<close>; \<open>order\<close> is the order in which \<open>setRequest\<close> visits the
  metadata.
\<close>

definition client_request ::
    "store \<Rightarrow> string list \<Rightarrow> int \<Rightarrow> gocontext \<Rightarrow> string \<Rightarrow> string \<Rightarrow> gobytes \<Rightarrow> Request" where
  "client_request h order now ctx service method payload =
     (let creq = \<lparr>Service = service, Method = method, Payload = payload, TimeoutNano = 0,
                  Metadata = []\<rparr>;
          creq = (case GetMetadata ctx of
                    (metadata, ok) \<Rightarrow>
                      if ok then creq\<lparr>Metadata :=
                        (case metadata of None \<Rightarrow> [] | Some m \<Rightarrow> setRequest h order m (Metadata creq))\<rparr>
                      else creq)
      in (case ctx_deadline ctx of
            Some dl \<Rightarrow> creq\<lparr>TimeoutNano := dl - now\<rparr>
          | None \<Rightarrow> creq))"

text \<open>What interceptors and the invoker work on is \<open>'s\<close>: the client, or the client and more.\<close>

type_synonym 's call_result = "'s \<Rightarrow> ((error option \<times> Response) \<times> 's) option"

definition Call ::
    "grpc \<Rightarrow> 'u proto \<Rightarrow> (gocontext, Request, Response, 's call_result) client_interceptor \<Rightarrow>
     (gocontext, Request, Response, 's call_result) invoker \<Rightarrow>
     store \<Rightarrow> string list \<Rightarrow> int \<Rightarrow> gocontext \<Rightarrow> string \<Rightarrow> string \<Rightarrow> 'u any \<Rightarrow> 'u any \<Rightarrow> 's \<Rightarrow>
     ((error option \<times> 'u any) \<times> 's) option" where
  "Call G P intercept invoke h order now ctx service method req resp c =
     (case codec_Marshal P req of
        Inl err \<Rightarrow> Some ((Some err, resp), c)
      | Inr payload \<Rightarrow>
          (case intercept ctx (client_request h order now ctx service method payload) empty_response
                  \<lparr>uc_FullMethod = fullPath service method\<rparr> invoke c of
             None \<Rightarrow> None
           | Some ((Some err, cresp), c1) \<Rightarrow> Some ((Some err, resp), c1)
           | Some ((None, cresp), c1) \<Rightarrow>
               (case codec_Unmarshal P (RPayload cresp) resp of
                  Inl err \<Rightarrow> Some ((Some err, resp), c1)
                | Inr resp' \<Rightarrow>
                    (case RStatus cresp of
                       Some st \<Rightarrow>
                         if status_code st \<noteq> OK then Some ((Some (ErrorProto G st), resp'), c1)
                         else Some ((None, resp'), c1)
                     | None \<Rightarrow> Some ((None, resp'), c1)))))"

section \<open>Client streams\<close>

record StreamDesc =
  sd_StreamingClient :: bool
  sd_StreamingServer :: bool

record clientStream =
  cs_ctx :: gocontext
  cs_s :: nat
  cs_desc :: StreamDesc
  cs_localClosed :: bool
  cs_remoteClosed :: bool

definition NewStream ::
    "(status \<Rightarrow> string) \<Rightarrow> 'u proto \<Rightarrow> gocontext \<Rightarrow> StreamDesc \<Rightarrow> string \<Rightarrow> string \<Rightarrow> 'u any \<Rightarrow> client \<Rightarrow>
     (error + clientStream) \<times> client" where
  "NewStream txt P ctx desc service method req c =
     (case (if req = AnyNil then Inr None else codec_Marshal P req) of
        Inl err \<Rightarrow> (Inl err, c)
      | Inr payload \<Rightarrow>
          (case codec_Marshal P (AnyMessage (Some (MRequest
                  \<lparr>Service = service, Method = method, Payload = payload, TimeoutNano = 0,
                   Metadata = []\<rparr>))) of
             Inl err \<Rightarrow> (Inl err, c)
           | Inr p \<Rightarrow>
               let flags = (if sd_StreamingClient desc then flagRemoteOpen else flagRemoteClosed) in
               (case createStream txt flags p streamRecvBufferSize c of
                  (Inl (err, s), c1) \<Rightarrow> (Inl err, c1)
                | (Inr s, c1) \<Rightarrow>
                    (Inr \<lparr>cs_ctx = ctx, cs_s = s, cs_desc = desc, cs_localClosed = False,
                          cs_remoteClosed = False\<rparr>, c1))))"

definition CloseSend ::
    "(status \<Rightarrow> string) \<Rightarrow> clientStream \<Rightarrow> client \<Rightarrow> error option \<times> clientStream \<times> client" where
  "CloseSend txt cs c =
     (if \<not> sd_StreamingClient (cs_desc cs)
      then (Some (Wrapf '''' ErrProtocol '': cannot close non-streaming client''), cs, c)
      else if cs_localClosed cs then (Some ErrStreamClosed, cs, c)
      else
        (case stream_send (cs_s cs) messageTypeData (flagRemoteClosed OR flagNoData) None c of
           (Some err, c1) \<Rightarrow> (filterCloseErr txt (Some err), cs, c1)
         | (None, c1) \<Rightarrow> (None, cs\<lparr>cs_localClosed := True\<rparr>, c1)))"

definition client_SendMsg ::
    "(status \<Rightarrow> string) \<Rightarrow> 'u proto \<Rightarrow> 'u any \<Rightarrow> clientStream \<Rightarrow> client \<Rightarrow> error option \<times> client" where
  "client_SendMsg txt P m cs c =
     (if \<not> sd_StreamingClient (cs_desc cs)
      then (Some (Wrapf '''' ErrProtocol '': cannot send data from non-streaming client''), c)
      else if cs_localClosed cs then (Some ErrStreamClosed, c)
      else
        (case (if m = AnyNil then Inr None else codec_Marshal P m) of
           Inl err \<Rightarrow> (Some err, c)
         | Inr payload \<Rightarrow>
             (case stream_send (cs_s cs) messageTypeData 0 payload c of
                (Some err, c1) \<Rightarrow> (filterCloseErr txt (Some err), c1)
              | (None, c1) \<Rightarrow> (None, c1))))"

definition RecvMsg_ready :: "clientStream \<Rightarrow> client \<Rightarrow> (waited \<times> client) list" where
  "RecvMsg_ready cs c =
     (case ctx_err (cs_ctx cs) of Some e \<Rightarrow> [(WaitErr (Some e), c)] | None \<Rightarrow> []) @
     stream_ready (cs_s cs) c"

text \<open>
  What \<open>RecvMsg\<close> does with a message: the error and the filled \<open>m\<close>, the client stream, the client.
\<close>

definition RecvMsg_response ::
    "grpc \<Rightarrow> 'u proto \<Rightarrow> 'u any \<Rightarrow> clientStream \<Rightarrow> streamMessage \<Rightarrow> client \<Rightarrow>
     (error option \<times> 'u any) \<times> clientStream \<times> client" where
  "RecvMsg_response G P m cs msg c =
     (case Unmarshal P (message_bytes msg) (Some (MResponse empty_response)) of
        Inl err \<Rightarrow> ((Some err, m), cs, put_buffer (snd msg) c)
      | Inr v \<Rightarrow>
          let resp = as_response v; c1 = put_buffer (snd msg) c in
          (case codec_Unmarshal P (RPayload resp) m of
             Inl err \<Rightarrow> ((Some err, m), cs, c1)
           | Inr m' \<Rightarrow>
               (case RStatus resp of
                  Some st \<Rightarrow>
                    if status_code st \<noteq> OK then ((Some (ErrorProto G st), m'), cs, c1)
                    else ((None, m'), cs\<lparr>cs_remoteClosed := True\<rparr>, deleteStream (cs_s cs) c1)
                | None \<Rightarrow> ((None, m'), cs\<lparr>cs_remoteClosed := True\<rparr>, deleteStream (cs_s cs) c1))))"

definition RecvMsg_data ::
    "'u proto \<Rightarrow> 'u any \<Rightarrow> clientStream \<Rightarrow> streamMessage \<Rightarrow> client \<Rightarrow>
     (error option \<times> 'u any) \<times> clientStream \<times> client" where
  "RecvMsg_data P m cs msg c =
     (if \<not> sd_StreamingServer (cs_desc cs) then
        ((Some (Wrapf ''received data from non-streaming server: '' ErrProtocol ''''), m),
         cs\<lparr>cs_remoteClosed := True\<rparr>, deleteStream (cs_s cs) c)
      else
        (let closed = has_flag (Flags (fst msg)) flagRemoteClosed;
             (cs, c) = (if closed then (cs\<lparr>cs_remoteClosed := True\<rparr>, deleteStream (cs_s cs) c)
                        else (cs, c))
         in if closed \<and> has_flag (Flags (fst msg)) flagNoData then ((Some IoEOF, m), cs, c)
            else
              (case codec_Unmarshal P (message_bytes msg) m of
                 Inl err \<Rightarrow> ((Some err, m), cs, put_buffer (snd msg) c)
               | Inr m' \<Rightarrow> ((None, m'), cs, put_buffer (snd msg) c))))"

definition RecvMsg_finish ::
    "grpc \<Rightarrow> 'u proto \<Rightarrow> 'u any \<Rightarrow> clientStream \<Rightarrow> waited \<Rightarrow> client \<Rightarrow>
     (error option \<times> 'u any) \<times> clientStream \<times> client" where
  "RecvMsg_finish G P m cs r c =
     (case r of
        WaitErr err \<Rightarrow> ((err, m), cs, c)
      | WaitMsg msg \<Rightarrow>
          (if Type (fst msg) = messageTypeResponse then RecvMsg_response G P m cs msg c
           else if Type (fst msg) = messageTypeData then RecvMsg_data P m cs msg c
           else ((Some (unexpected_message (Type (fst msg))), m), cs, c)))"

definition RecvMsg ::
    "grpc \<Rightarrow> 'u proto \<Rightarrow> (gocontext \<Rightarrow> client \<Rightarrow> gocontext \<times> client) \<Rightarrow> nat \<Rightarrow> 'u any \<Rightarrow>
     clientStream \<Rightarrow> client \<Rightarrow> ((error option \<times> 'u any) \<times> clientStream \<times> client) option" where
  "RecvMsg G P others choice m cs c =
     (if cs_remoteClosed cs then Some ((Some IoEOF, m), cs, c)
      else
        (case others (cs_ctx cs) c of
           (ctx, c1) \<Rightarrow>
             let cs = cs\<lparr>cs_ctx := ctx\<rparr>; ready = RecvMsg_ready cs c1 in
             if choice < length ready
             then (case ready ! choice of (r, c2) \<Rightarrow> Some (RecvMsg_finish G P m cs r c2))
             else None))"

section \<open>What the operations change\<close>

lemma put_buffer_simps [simp]:
  "c_heap (put_buffer p c) = c_heap c" "c_streams (put_buffer p c) = c_streams c"
  "c_done (put_buffer p c) = c_done c" "c_w (put_buffer p c) = c_w c"
  by (simp_all add: put_buffer_def)

lemma deleteStream_table:
  "c_streams (deleteStream s c) = (c_streams c)(st_id (c_heap c ! s) := None)"
  "c_heap (deleteStream s c) = (c_heap c)[s := closeWithError None (c_heap c ! s)]"
  by (simp_all add: deleteStream_def deleteStream_map_def on_stream_def)

lemma dispatch_ready_shape:
  "(r, c') \<in> set (dispatch_ready ctx s c) \<Longrightarrow>
     c' = c \<or> (\<exists>m st. stream_take (c_heap c ! s) = Some (m, st) \<and>
       c' = c\<lparr>c_heap := (c_heap c)[s := st]\<rparr>)"
  by (auto simp: dispatch_ready_def split: option.splits if_splits dest: stream_ready_shape)

lemma dispatch_finish_table:
  "dispatch_finish P resp r c = (res, c') \<Longrightarrow>
     c_streams c' = c_streams c \<and> c_heap c' = c_heap c"
  by (auto simp: dispatch_finish_def split: waited.splits if_splits sum.splits)

lemma createStream_InrE:
  assumes "createStream txt flags b n c = (Inr s, c')"
  obtains c1 w where "createStream_alloc n c = (Inr s, c1)" "c' = c1\<lparr>c_w := w\<rparr>"
proof -
  obtain x c1 where al: "createStream_alloc n c = (x, c1)" by fastforce
  from assms obtain s' where x: "x = Inr s'"
    by (cases x) (simp_all add: createStream_def al split: if_splits)
  obtain err c2 where snd: "createStream_send txt s' flags b c1 = (err, c2)" by fastforce
  from assms have [simp]: "s' = s" "c2 = c'" "err = None"
    by (cases err; simp add: createStream_def al x snd split: if_splits)+
  note al = al [unfolded x, simplified] and snd = snd [simplified]
  from createStream_send_shape [OF snd] that [OF al] show thesis by blast
qed

lemma createStream_Inr:
  assumes "createStream txt flags b n c = (Inr s, c')"
  shows "s = length (c_heap c)" "c_heap c' = c_heap c @ [newStream (nextStreamID c) n]"
    "heap_ok c \<Longrightarrow> heap_ok c'"
proof -
  from assms obtain c1 w where c1: "createStream_alloc n c = (Inr s, c1)" "c' = c1\<lparr>c_w := w\<rparr>"
    by (rule createStream_InrE)
  then show "s = length (c_heap c)" "c_heap c' = c_heap c @ [newStream (nextStreamID c) n]"
    by (auto simp: createStream_alloc_def Let_def split: if_splits)
  show "heap_ok c'" if "heap_ok c"
    using heap_ok_alloc(1) [OF that c1(1)] by (simp add: c1(2) heap_ok_def)
qed

section \<open>Properties\<close>


definition example_unary :: Request where
  "example_unary = \<lparr>Service = ''s'', Method = ''m'', Payload = Some [7], TimeoutNano = 0, Metadata = []\<rparr>"

definition healthy_client :: client where
  "healthy_client = NewClient example_conn \<lparr>rd_rest = [], rd_err = IoEOF\<rparr>"

lemma healthy_client_simps:
  "client_healthy healthy_client" "c_heap healthy_client = []" "c_streams healthy_client = Map.empty"
  "nextStreamID healthy_client = 1" "\<not> c_done healthy_client" "client_sent healthy_client = []"
  "heap_ok healthy_client"
  by (simp_all add: healthy_client_def NewClient_def newChannel_def client_healthy_def healthy_def
      example_conn_def client_sent_def heap_ok_def)

lemma example_unary_marshal:
  "codec_Marshal example_proto (AnyMessage (Some (MRequest example_unary))) = Inr (Some [1, 1, 115, 109, 7])"
  by (simp add: codec_Marshal_def example_proto_def example_marshal_def example_unary_def str_bytes_def)

lemma healthy_createStream:
  assumes "client_healthy c" "\<not> c_done c" "slice_len b \<le> messageLengthMax"
  shows "\<exists>w. createStream txt flags b n c =
      (Inr (length (c_heap c)),
       c\<lparr>c_w := w, c_heap := c_heap c @ [newStream (nextStreamID c) n],
         c_streams := (c_streams c)(nextStreamID c \<mapsto> length (c_heap c)),
         nextStreamID := nextStreamID c + 2\<rparr>) \<and>
    client_healthy (c\<lparr>c_w := w\<rparr>) \<and>
    client_sent (c\<lparr>c_w := w\<rparr>) = client_sent c @ frame (nextStreamID c) messageTypeRequest flags b"
proof -
  let ?c1 = "c\<lparr>c_heap := c_heap c @ [newStream (nextStreamID c) n],
    c_streams := (c_streams c)(nextStreamID c \<mapsto> length (c_heap c)), nextStreamID := nextStreamID c + 2\<rparr>"
  have al: "createStream_alloc n c = (Inr (length (c_heap c)), ?c1)"
    using assms(2) by (simp add: createStream_alloc_def Let_def newStream_def)
  have id: "st_id (c_heap ?c1 ! length (c_heap c)) = nextStreamID c" by (simp add: newStream_def)
  have "client_healthy ?c1" using assms(1) by (simp add: client_healthy_def)
  from client_send_healthy [OF this assms(3), of "nextStreamID c" messageTypeRequest flags]
  obtain w where w: "client_send (nextStreamID c) messageTypeRequest flags b ?c1 = (None, ?c1\<lparr>c_w := w\<rparr>)"
    "client_healthy (?c1\<lparr>c_w := w\<rparr>)"
    "client_sent (?c1\<lparr>c_w := w\<rparr>) = client_sent ?c1 @ frame (nextStreamID c) messageTypeRequest flags b"
    by blast
  then have "createStream_send txt (length (c_heap c)) flags b ?c1 = (None, ?c1\<lparr>c_w := w\<rparr>)"
    unfolding createStream_send_def id w(1) by (simp add: filterCloseErr_def)
  with al assms(2) have "createStream txt flags b n c = (Inr (length (c_heap c)), ?c1\<lparr>c_w := w\<rparr>)"
    by (simp add: createStream_def)
  with w(2,3) show ?thesis
    by (intro exI [of _ w]) (simp add: client_healthy_def client_sent_def)
qed


text \<open>
  Claim C34. A request that cannot be sent leaves its stream behind: when the marshalled request is
  over the limit the call fails without a byte on the wire, but the stream stays in the table, open,
  and nothing removes it before the connection ends.
\<close>

theorem failed_request_leaks_stream:
  assumes "codec_Marshal P (AnyMessage (Some (MRequest req))) = Inr p"
    and "messageLengthMax < slice_len p" and "\<not> c_done c"
  shows "\<exists>err c'. dispatch txt P others choice ctx req resp c = Some ((Some err, resp), c') \<and>
    getStream (nextStreamID c) c' = Some (length (c_heap c)) \<and>
    \<not> st_closed (c_heap c' ! length (c_heap c)) \<and> client_sent c' = client_sent c"
proof -
  obtain e where "filterCloseErr txt (Some (OversizedMessageErr (slice_len p) (oversized_status (slice_len p)))) = Some e"
    using filterCloseErr_Some by blast
  with assms show ?thesis
    by (auto simp: dispatch_def createStream_def createStream_alloc_def createStream_send_def Let_def
        client_send_oversized newStream_def getStream_def client_sent_def)
qed

theorem failed_request_leaks_stream_witness:
  "\<exists>err c'. dispatch (\<lambda>s. []) example_proto (\<lambda>ctx c. (ctx, c)) 0 background
      (example_unary\<lparr>Payload := Some (replicate 4194304 0)\<rparr>) empty_response healthy_client =
        Some ((Some err, empty_response), c') \<and>
    getStream 1 c' = Some 0 \<and> \<not> st_closed (c_heap c' ! 0)"
proof -
  let ?p = "[1, 1, 115, 109] @ replicate 4194304 0 :: bytes"
  have m: "codec_Marshal example_proto (AnyMessage (Some (MRequest
      (example_unary\<lparr>Payload := Some (replicate 4194304 0)\<rparr>)))) = Inr (Some ?p)"
    by (simp add: codec_Marshal_def example_proto_def example_marshal_def example_unary_def str_bytes_def)
  have "messageLengthMax < slice_len (Some ?p)" by (simp add: messageLengthMax_def)
  from failed_request_leaks_stream [OF m this healthy_client_simps(5)] show ?thesis
    by (simp add: healthy_client_simps) blast
qed

text \<open>
  An oversized reply fails its own call only: the receive loop skips the frame, closes the
  stream it was for with a ResourceExhausted status, touches no other stream, and goes on with the
  bytes after the frame.
\<close>

lemma oversized_reply_fails_one_stream:
  assumes "grpc_ok G" and "messageLengthMax < unat (Length mh)" and "length body = unat (Length mh)"
    and "c_r c = \<lparr>rd_rest = encode_header mh @ body @ rest', rd_err = e\<rparr>"
    and "getStream (StreamID mh) c = Some i"
  shows "\<exists>st. status_code st = ResourceExhausted \<and>
    receive_message G pool c = (LoopTop,
      c\<lparr>c_r := \<lparr>rd_rest = rest', rd_err = e\<rparr>,
        c_heap := (c_heap c)[i := closeWithError (Some (StatusError st)) (c_heap c ! i)]\<rparr>)"
proof -
  let ?st = "oversized_status (unat (Length mh))"
  have rc: "recv pool (c_r c) =
      ((mh, None, Some (StatusError ?st)), \<lparr>rd_rest = rest', rd_err = e\<rparr>)"
    unfolding assms(4) by (rule recv_oversized [OF assms(2,3)])
  have "snd (FromError G (Some (StatusError ?st)))" using grpc_okD(6) [OF assms(1)] by simp
  with assms(5) show ?thesis
    unfolding receive_message_def rc
    by (intro exI [of _ ?st]) (simp add: Let_def getStream_def on_stream_def oversized_status_def)
qed

lemma oversized_reply_fails_one_stream_witness:
  "\<exists>st. status_code st = ResourceExhausted \<and>
    receive_message example_grpc None (healthy_client\<lparr>c_streams := [1 \<mapsto> 0], c_r := \<lparr>rd_rest =
        encode_header \<lparr>Length = 4194305, StreamID = 1, Type = 2, Flags = 0\<rparr> @ replicate 4194305 0 @ [9],
        rd_err = IoEOF\<rparr>, c_heap := [newStream 1 1]\<rparr>) =
      (LoopTop, healthy_client\<lparr>c_streams := [1 \<mapsto> 0], c_r := \<lparr>rd_rest = [9], rd_err = IoEOF\<rparr>,
        c_heap := [closeWithError (Some (StatusError st)) (newStream 1 1)]\<rparr>)"
proof -
  let ?mh = "\<lparr>Length = 4194305, StreamID = 1, Type = 2, Flags = 0\<rparr>"
  let ?c = "healthy_client\<lparr>c_streams := [1 \<mapsto> 0], c_r := \<lparr>rd_rest =
    encode_header ?mh @ replicate 4194305 0 @ [9], rd_err = IoEOF\<rparr>, c_heap := [newStream 1 1]\<rparr>"
  have "messageLengthMax < unat (Length ?mh)" "length (replicate 4194305 (0 :: u8)) = unat (Length ?mh)"
    "c_r ?c = \<lparr>rd_rest = encode_header ?mh @ replicate 4194305 0 @ [9], rd_err = IoEOF\<rparr>"
    "getStream (StreamID ?mh) ?c = Some 0"
    by (simp_all add: messageLengthMax_def getStream_def)
  from oversized_reply_fails_one_stream [OF example_grpc_ok this, of None] show ?thesis by simp
qed

text \<open>
  Claim C32. \<open>RecvMsg\<close> of a final response gives the stream back only if the status is OK: then the
  stream is out of the table, closed, and further calls return EOF. With an error status the call
  returns that error, but the stream stays in the table and open, and a further call waits again.
\<close>

theorem recv_response_releases_stream:
  assumes "Type (fst msg) = messageTypeResponse"
    and "Unmarshal P (message_bytes msg) (Some (MResponse empty_response)) = Inr (Some (MResponse resp))"
    and "codec_Unmarshal P (RPayload resp) m = Inr m'"
    and "stream_ok (c_heap c ! cs_s cs)" and "cs_s cs < length (c_heap c)"
  shows "case RecvMsg_finish G P m cs (WaitMsg msg) c of ((err, m2), cs', c') \<Rightarrow>
    m2 = m' \<and>
    (case RStatus resp of
       Some st \<Rightarrow>
         if status_code st = OK
         then err = None \<and> cs_remoteClosed cs' \<and> st_closed (c_heap c' ! cs_s cs) \<and>
           getStream (st_id (c_heap c ! cs_s cs)) c' = None
         else err = Some (ErrorProto G st) \<and> cs' = cs \<and> c_heap c' = c_heap c \<and> c_streams c' = c_streams c
     | None \<Rightarrow> err = None \<and> cs_remoteClosed cs' \<and> st_closed (c_heap c' ! cs_s cs) \<and>
         getStream (st_id (c_heap c ! cs_s cs)) c' = None)"
proof -
  have "st_closed (closeWithError None (c_heap c ! cs_s cs))" by (rule closed_close [OF assms(4)])
  then show ?thesis
    using assms
    by (auto simp: RecvMsg_finish_def RecvMsg_response_def as_response_def Let_def deleteStream_table
        getStream_def split: option.splits)
qed

definition error_reply :: message where
  "error_reply = (\<lparr>Length = 2, StreamID = 1, Type = messageTypeResponse, Flags = 0\<rparr>, Some [13, 0])"

definition example_cs :: clientStream where
  "example_cs = \<lparr>cs_ctx = background, cs_s = 0,
     cs_desc = \<lparr>sd_StreamingClient = True, sd_StreamingServer = True\<rparr>,
     cs_localClosed = False, cs_remoteClosed = False\<rparr>"

theorem recv_response_releases_stream_witness:
  "case RecvMsg_finish example_grpc example_proto (AnyMessage (Some (MUser []))) example_cs
      (WaitMsg error_reply) (healthy_client\<lparr>c_heap := [newStream 1 1], c_streams := [1 \<mapsto> 0]\<rparr>) of
    ((err, m2), cs', c') \<Rightarrow>
      err = Some (StatusError (Status Internal '''')) \<and> \<not> cs_remoteClosed cs' \<and> getStream 1 c' = Some 0"
proof -
  let ?c = "healthy_client\<lparr>c_heap := [newStream 1 1], c_streams := [1 \<mapsto> 0]\<rparr>"
  let ?resp = "\<lparr>RStatus = Some (Status Internal ''''), RPayload = None\<rparr>"
  have "Type (fst error_reply) = messageTypeResponse"
    "Unmarshal example_proto (message_bytes error_reply) (Some (MResponse empty_response)) =
      Inr (Some (MResponse ?resp))"
    "codec_Unmarshal example_proto (RPayload ?resp) (AnyMessage (Some (MUser []))) =
      Inr (AnyMessage (Some (MUser [])))"
    "stream_ok (c_heap ?c ! cs_s example_cs)" "cs_s example_cs < length (c_heap ?c)"
    by (simp_all add: error_reply_def message_bytes_def example_proto_def example_unmarshal_def
        opt_bytes_def codec_Unmarshal_def example_cs_def code_names_def bytes_str_def)
  from recv_response_releases_stream [OF this, of example_grpc] show ?thesis
    by (auto simp: getStream_def example_grpc_def example_cs_def)
qed

text \<open>
  What a client stream puts on the wire: a message goes out as one data frame with no flag
  and its marshalled bytes, \<open>CloseSend\<close> as one data frame without data and with the flags remote
  closed and no data; after it every further send is refused and writes nothing.
\<close>

lemma client_stream_sends:
  assumes "client_healthy c" and "sd_StreamingClient (cs_desc cs)" and "\<not> cs_localClosed cs"
    and "codec_Marshal P (AnyMessage m) = Inr p" and "slice_len p \<le> messageLengthMax"
  shows "(case client_SendMsg txt P (AnyMessage m) cs c of (err, c') \<Rightarrow>
      err = None \<and> client_sent c' = client_sent c @ frame (st_id (c_heap c ! cs_s cs)) messageTypeData 0 p) \<and>
    (case CloseSend txt cs c of (err, cs', c') \<Rightarrow>
      err = None \<and>
      client_sent c' = client_sent c @ frame (st_id (c_heap c ! cs_s cs)) messageTypeData 5 None \<and>
      client_SendMsg txt P (AnyMessage m) cs' c' = (Some ErrStreamClosed, c') \<and>
      CloseSend txt cs' c' = (Some ErrStreamClosed, cs', c'))"
proof -
  let ?sid = "st_id (c_heap c ! cs_s cs)"
  obtain w where "client_send ?sid messageTypeData 0 p c = (None, c\<lparr>c_w := w\<rparr>)"
    "client_sent (c\<lparr>c_w := w\<rparr>) = client_sent c @ frame ?sid messageTypeData 0 p"
    using client_send_healthy [OF assms(1,5)] by blast
  moreover obtain w' where "client_send ?sid messageTypeData 5 None c = (None, c\<lparr>c_w := w'\<rparr>)"
    "client_sent (c\<lparr>c_w := w'\<rparr>) = client_sent c @ frame ?sid messageTypeData 5 None"
    using client_send_healthy [OF assms(1), of None ?sid messageTypeData 5] by auto
  moreover have "flagRemoteClosed OR flagNoData = 5" by (simp add: message_consts)
  ultimately show ?thesis
    using assms(2-4) by (simp add: client_SendMsg_def CloseSend_def stream_send_def)
qed

lemma client_stream_sends_witness:
  "case CloseSend (\<lambda>s. []) example_cs (healthy_client\<lparr>c_heap := [newStream 1 1]\<rparr>) of (err, cs', c') \<Rightarrow>
    err = None \<and> client_sent c' = [0, 0, 0, 0, 0, 0, 0, 1, 3, 5]"
proof -
  let ?c = "healthy_client\<lparr>c_heap := [newStream 1 1]\<rparr>"
  have "client_healthy ?c" "sd_StreamingClient (cs_desc example_cs)" "\<not> cs_localClosed example_cs"
    "codec_Marshal example_proto (AnyMessage (Some (MUser [7]))) = Inr (Some [7])"
    "slice_len (Some [7 :: u8]) \<le> messageLengthMax"
    using healthy_client_simps(1)
    by (simp_all add: example_cs_def codec_Marshal_def example_proto_def example_marshal_def
        messageLengthMax_def client_healthy_def)
  from client_stream_sends [OF this, of "\<lambda>s. []"] healthy_client_simps(6) show ?thesis
    by (auto simp: frame_def encode_message_def encode_header_def PutUint32_def newStream_def
        example_cs_def message_consts client_sent_def)
qed

lemma contains_suffix: "strings_Contains (pre @ s) s"
  by (induction pre) (cases s; simp)+

text \<open>
  \<open>filterCloseErr\<close> only ever replaces an error by \<open>ErrClosed\<close>, and does so for every way in
  which a connection closes: EOF, also wrapped, a closed pipe, a connection closed on this side, a
  broken pipe on a write and a reset on a read; but not for a reset on a write, nor for an
  unexpected EOF.
\<close>

lemma filter_close_errors:
  "filterCloseErr txt None = None \<and>
   filterCloseErr txt (Some e) \<in> {Some e, Some ErrClosed} \<and>
   filterCloseErr txt (Some IoEOF) = Some ErrClosed \<and>
   filterCloseErr txt (Some (Wrapf pre IoEOF post)) = Some ErrClosed \<and>
   filterCloseErr txt (Some IoErrClosedPipe) = Some ErrClosed \<and>
   filterCloseErr txt (Some (OpError opn ''conn'' NetErrClosed)) = Some ErrClosed \<and>
   filterCloseErr txt (Some (OpError ''write'' addr (SyscallError call (Errno EPIPE)))) = Some ErrClosed \<and>
   filterCloseErr txt (Some (OpError ''read'' addr (SyscallError call (Errno ECONNRESET)))) = Some ErrClosed \<and>
   filterCloseErr txt (Some (OpError ''write'' ''conn'' (Errno ECONNRESET))) =
     Some (OpError ''write'' ''conn'' (Errno ECONNRESET)) \<and>
   filterCloseErr txt (Some IoErrUnexpectedEOF) = Some IoErrUnexpectedEOF"
proof -
  have "strings_Contains (opn @ '' '' @ ''conn'' @ '': '' @ ''use of closed network connection'')
      ''use of closed network connection''"
    using contains_suffix [of "opn @ '' '' @ ''conn'' @ '': ''" "''use of closed network connection''"]
    by simp
  then show ?thesis by (auto simp: filterCloseErr_def split: option.splits)
qed

end
