(* ===== verification/Ttrpc_Conn.thy ===== *)
theory Ttrpc_Conn
  imports Ttrpc_Services
begin

text \<open>
  One connection of a server (\<open>serverConn\<close> of \<open>server.go\<close>): its shared state and the goroutines of
  \<open>run\<close>, which are the receiver, the main loop, and one goroutine for each call.

  Each goroutine is a program with phases, and a phase ends where another goroutine may come in
  between: at a blocking operation, and between two accesses to shared state (\<open>streams\<close>, \<open>active\<close>).
  \<open>receiver_next\<close> and \<open>main_next\<close> give the states after the possible next steps of the receiver and
  of the main loop; the channel \<open>responses\<close> has no buffer, so that a send and a receive on it are one
  step of both sides. The user's handlers may respond at any time with anything their kind allows.
\<close>

section \<open>State of a connection\<close>

type_synonym connState = int

definition connStateActive :: connState where
  "connStateActive = 1"

definition connStateIdle :: connState where
  "connStateIdle = 2"

definition connStateClosed :: connState where
  "connStateClosed = 3"

definition connState_String :: "connState \<Rightarrow> string" where
  "connState_String cs =
     (if cs = connStateActive then ''active''
      else if cs = connStateIdle then ''idle''
      else if cs = connStateClosed then ''closed''
      else ''unknown'')"

lemma connState_neq [simp]: "connStateActive \<noteq> connStateIdle" "connStateIdle \<noteq> connStateActive"
  by (simp_all add: connStateActive_def connStateIdle_def)

record response =
  r_id :: u32
  r_status :: "status option"
  r_data :: gobytes
  r_closeStream :: bool
  r_streaming :: bool

text \<open>
  The receiver: at the top of its loop, in \<open>ch.recv\<close>, in \<open>sendStatus\<close>, in \<open>sh.data\<close> for a data message
  or for the first message of a stream, before \<open>streams.Store\<close>, before \<open>atomic.AddInt32\<close>, before
  \<open>recvErr <- err\<close>, before the deferred \<open>close(recvErr)\<close>, ended, and after a panic.
\<close>

datatype receiver =
    RTop
  | RRecv
  | RSend response
  | RData nat streamMessage data_phase
  | RHandle u32 nat gobytes data_phase
  | RStore u32 "nat option"
  | RAdd
  | RErr error
  | RExit
  | REnd
  | RPanic

text \<open>
  The main loop: before it loads \<open>active\<close>, in its \<open>select\<close> (with the shutdown case or not), sending a
  response, before \<open>streams.Delete\<close>, before \<open>atomic.AddInt32\<close>, before each of the deferred calls
  \<open>delConnection\<close>, \<open>close(done)\<close>, \<open>cancel\<close> and \<open>conn.Close\<close>, ended.
\<close>

datatype main_loop =
    MTop
  | MSelect bool
  | MReply response
  | MDelete u32
  | MDec
  | MReturn
  | MDone
  | MCancel
  | MClose
  | MEnd

datatype call_phase = Running | Responding response | Ended

record call =
  call_id :: u32
  call_handler :: "nat option"
  call_streaming :: bool
  call_phase :: call_phase

text \<open>
  The stream handlers live in the heap \<open>k_heap\<close>; \<open>k_streams\<close> is the map \<open>streams\<close>, whose values are
  pointers that are nil (\<open>Some None\<close>) for a unary call. \<open>k_recvErr\<close> is the channel \<open>recvErr\<close>, and
  \<open>k_recvErrNil\<close> says that the main loop has set its variable to nil. \<open>k_state\<close> is the connection's
  atomic state and \<open>k_local\<close> the main loop's variable \<open>state\<close>.
\<close>

record conn =
  k_ctx :: gocontext
  k_r :: reader
  k_w :: bufw
  k_buffers :: "gobytes list"
  k_store :: store
  k_shutdown :: bool
  k_state :: "connState option"
  k_local :: connState
  k_recvErr :: "error chan"
  k_recvErrNil :: bool
  k_done :: bool
  k_streams :: "u32 \<rightharpoonup> nat option"
  k_heap :: "streamHandler list"
  k_active :: "32 word"
  k_lastStreamID :: u32
  k_calls :: "call list"
  k_receiver :: receiver
  k_main :: main_loop
  k_registered :: bool
  k_closed :: bool

text \<open>
  \<open>k_registered\<close>: the connection is in the server's set of connections; \<open>k_closed\<close>: the network
  connection was closed. What a connection uses of its surroundings is its environment.
\<close>

record ('u, 'w, 'ss) conn_env =
  e_grpc :: grpc
  e_proto :: "'u proto"
  e_services :: "('u, 'w, 'ss) serviceSet"
  e_grow :: "nat \<Rightarrow> nat \<Rightarrow> nat"

definition getState :: "conn \<Rightarrow> connState option" where
  "getState c = k_state c"

definition setState :: "connState \<Rightarrow> conn \<Rightarrow> conn" where
  "setState newstate c = c\<lparr>k_state := Some newstate\<rparr>"

text \<open>\<open>close\<close> runs once: it closes the channel \<open>shutdown\<close>.\<close>

definition conn_close :: "conn \<Rightarrow> conn" where
  "conn_close c = (if k_shutdown c then c else c\<lparr>k_shutdown := True\<rparr>)"

section \<open>The receiver\<close>

text \<open>The response that \<open>sendStatus\<close> sends.\<close>

definition status_response :: "u32 \<Rightarrow> status option \<Rightarrow> response" where
  "status_response sid st =
     \<lparr>r_id = sid, r_status = st, r_data = None, r_closeStream = True, r_streaming = False\<rparr>"

definition invalid :: "u32 \<Rightarrow> string \<Rightarrow> receiver" where
  "invalid sid msg = RSend (status_response sid (Some (Status InvalidArgument msg)))"

definition conn_put_buffer :: "gobytes \<Rightarrow> conn \<Rightarrow> conn" where
  "conn_put_buffer p c = c\<lparr>k_buffers := putmbuf p (k_buffers c)\<rparr>"

text \<open>After \<open>sh.data\<close>, or when the message carries no data: the flag remote closed.\<close>

definition receiver_close :: "messageHeader \<Rightarrow> gobytes \<Rightarrow> nat \<Rightarrow> conn \<Rightarrow> conn" where
  "receiver_close mh p ref c =
     (if has_flag (Flags mh) flagRemoteClosed then
        (let c = c\<lparr>k_heap := (k_heap c)[ref := closeSend (k_heap c ! ref)]\<rparr>
         in if slice_len p > 0
            then c\<lparr>k_receiver := invalid (StreamID mh) ''data close message cannot include data''\<rparr>
            else c\<lparr>k_receiver := RTop\<rparr>)
      else c\<lparr>k_receiver := RTop\<rparr>)"

text \<open>A data message. A nil handler is dereferenced by \<open>data\<close> and by \<open>closeSend\<close>.\<close>

definition receiver_data :: "messageHeader \<Rightarrow> gobytes \<Rightarrow> conn \<Rightarrow> conn" where
  "receiver_data mh p c =
     (case k_streams c (StreamID mh) of
        None \<Rightarrow> c\<lparr>k_receiver := invalid (StreamID mh) ''StreamID is no longer active''\<rparr>
      | Some None \<Rightarrow>
          if \<not> has_flag (Flags mh) flagNoData \<or> has_flag (Flags mh) flagRemoteClosed
          then c\<lparr>k_receiver := RPanic\<rparr> else c\<lparr>k_receiver := RTop\<rparr>
      | Some (Some ref) \<Rightarrow>
          if \<not> has_flag (Flags mh) flagNoData
          then c\<lparr>k_receiver := RData ref (mh, p) DataEnter\<rparr>
          else receiver_close mh p ref c)"

text \<open>The call that \<open>handle\<close> starts is added to the goroutines of the connection.\<close>

definition start_call :: "u32 \<Rightarrow> nat option \<Rightarrow> bool \<Rightarrow> conn \<Rightarrow> conn" where
  "start_call sid ref streaming c =
     c\<lparr>k_calls := k_calls c @
        [\<lparr>call_id = sid, call_handler = ref, call_streaming = streaming, call_phase = Running\<rparr>]\<rparr>"

definition receiver_handle ::
    "('u, 'w, 'ss) conn_env \<Rightarrow> int \<Rightarrow> u32 \<Rightarrow> Request \<Rightarrow> conn \<Rightarrow> conn" where
  "receiver_handle E now sid req c =
     (case handle (e_grow E) now (e_services E) (k_ctx c) req (k_store c) of
        (HandleError err, h) \<Rightarrow>
          c\<lparr>k_store := h, k_receiver := RSend (status_response sid (fst (FromError (e_grpc E) (Some err))))\<rparr>
      | (HandleUnary g, h) \<Rightarrow>
          (start_call sid None False c)\<lparr>k_store := h, k_receiver := RStore sid None\<rparr>
      | (HandleStream sh g first, h) \<Rightarrow>
          (let ref = length (k_heap c);
               c = (start_call sid (Some ref) (ss_StreamingServer (sh_info sh)) c)
                     \<lparr>k_store := h, k_heap := k_heap c @ [sh]\<rparr>
           in case first of
                Some p \<Rightarrow> c\<lparr>k_receiver := RHandle sid ref p DataEnter\<rparr>
              | None \<Rightarrow> c\<lparr>k_receiver := RStore sid (Some ref)\<rparr>))"

definition receiver_request ::
    "('u, 'w, 'ss) conn_env \<Rightarrow> int \<Rightarrow> messageHeader \<Rightarrow> gobytes \<Rightarrow> conn \<Rightarrow> conn" where
  "receiver_request E now mh p c =
     (if StreamID mh \<le> k_lastStreamID c
      then c\<lparr>k_receiver := invalid (StreamID mh) ''StreamID cannot be re-used and must increment''\<rparr>
      else
        (let c = c\<lparr>k_lastStreamID := StreamID mh\<rparr> in
         case codec_Unmarshal (e_proto E) p (AnyMessage (Some (MRequest empty_request))) of
           Inl err \<Rightarrow>
             (conn_put_buffer p c)\<lparr>k_receiver := invalid (StreamID mh)
                (''unmarshal request error: '' @ error_text (StatusText (e_grpc E)) err)\<rparr>
         | Inr v \<Rightarrow>
             receiver_handle E now (StreamID mh)
               (case v of AnyMessage (Some (MRequest req)) \<Rightarrow> req | _ \<Rightarrow> empty_request)
               (conn_put_buffer p c)))"

definition receiver_message ::
    "('u, 'w, 'ss) conn_env \<Rightarrow> int \<Rightarrow> messageHeader \<Rightarrow> gobytes \<Rightarrow> conn \<Rightarrow> conn" where
  "receiver_message E now mh p c =
     (if StreamID mh mod 2 \<noteq> 1
      then c\<lparr>k_receiver :=
             invalid (StreamID mh) ''StreamID must be odd for client initiated streams''\<rparr>
      else if Type mh = messageTypeData then receiver_data mh p c
      else if Type mh = messageTypeRequest then receiver_request E now mh p c
      else c\<lparr>k_receiver := RTop\<rparr>)"

definition receiver_frame ::
    "('u, 'w, 'ss) conn_env \<Rightarrow> int \<Rightarrow> bytes option \<Rightarrow> conn \<Rightarrow> conn" where
  "receiver_frame E now pool c =
     (case recv pool (k_r c) of
        ((mh, p, err), r) \<Rightarrow>
          let c = c\<lparr>k_r := r\<rparr> in
          (case err of
             Some e \<Rightarrow>
               (case FromError (e_grpc E) (Some e) of
                  (st, ok) \<Rightarrow>
                    if \<not> ok then c\<lparr>k_receiver := RErr e\<rparr>
                    else c\<lparr>k_receiver := RSend (status_response (StreamID mh) st)\<rparr>)
           | None \<Rightarrow> receiver_message E now mh p c))"

definition set_handler :: "nat \<Rightarrow> streamHandler \<Rightarrow> conn \<Rightarrow> conn" where
  "set_handler ref sh c = c\<lparr>k_heap := (k_heap c)[ref := sh]\<rparr>"

fun receiver_next ::
    "('u, 'w, 'ss) conn_env \<Rightarrow> int \<Rightarrow> bytes option \<Rightarrow> receiver \<Rightarrow> conn \<Rightarrow> conn list" where
  "receiver_next E now pool RTop c =
     [if k_shutdown c \<or> k_done c then c\<lparr>k_receiver := RExit\<rparr> else c\<lparr>k_receiver := RRecv\<rparr>]"
| "receiver_next E now pool RRecv c = [receiver_frame E now pool c]"
| "receiver_next E now pool (RSend r) c =
     (if k_shutdown c then [c\<lparr>k_receiver := RExit\<rparr>] else []) @
     (if k_done c then [c\<lparr>k_receiver := RExit\<rparr>] else [])"
| "receiver_next E now pool (RData ref msg (DataReturn err)) c =
     [case err of
        Some e \<Rightarrow> c\<lparr>k_receiver := invalid (StreamID (fst msg))
                 (''data handling error: '' @ error_text (StatusText (e_grpc E)) e)\<rparr>
      | None \<Rightarrow> receiver_close (fst msg) (snd msg) ref c]"
| "receiver_next E now pool (RData ref msg DataPanic) c = [c\<lparr>k_receiver := RPanic\<rparr>]"
| "receiver_next E now pool (RData ref msg ph) c =
     map (\<lambda>(ph', sh). (set_handler ref sh c)\<lparr>k_receiver := RData ref msg ph'\<rparr>)
       (data_next (snd msg) ph (k_heap c ! ref))"
| "receiver_next E now pool (RHandle sid ref p (DataReturn err)) c =
     [case err of
        Some e \<Rightarrow>
          c\<lparr>k_receiver := RSend (status_response sid (fst (FromError (e_grpc E) (Some e))))\<rparr>
      | None \<Rightarrow> c\<lparr>k_receiver := RStore sid (Some ref)\<rparr>]"
| "receiver_next E now pool (RHandle sid ref p DataPanic) c = [c\<lparr>k_receiver := RPanic\<rparr>]"
| "receiver_next E now pool (RHandle sid ref p ph) c =
     map (\<lambda>(ph', sh). (set_handler ref sh c)\<lparr>k_receiver := RHandle sid ref p ph'\<rparr>)
       (data_next p ph (k_heap c ! ref))"
| "receiver_next E now pool (RStore sid ref) c =
     [c\<lparr>k_streams := (k_streams c)(sid \<mapsto> ref), k_receiver := RAdd\<rparr>]"
| "receiver_next E now pool RAdd c = [c\<lparr>k_active := k_active c + 1, k_receiver := RTop\<rparr>]"
| "receiver_next E now pool (RErr e) c =
     (case chan_send e (k_recvErr c) of
        Sent ch \<Rightarrow> [c\<lparr>k_recvErr := ch, k_receiver := RExit\<rparr>]
      | SendPanics \<Rightarrow> [c\<lparr>k_receiver := RPanic\<rparr>]
      | SendBlocks \<Rightarrow> [])"
| "receiver_next E now pool RExit c =
     [c\<lparr>k_recvErr := chan_close (k_recvErr c), k_receiver := REnd\<rparr>]"
| "receiver_next E now pool REnd c = []"
| "receiver_next E now pool RPanic c = []"

section \<open>The main loop\<close>

text \<open>Sending a response: the error, if the connection cannot go on.\<close>

definition reply_flags :: "response \<Rightarrow> u8" where
  "reply_flags r =
     (let flags = (if r_closeStream r then flagRemoteClosed else 0)
      in if r_data r = None then flags OR flagNoData else flags)"

definition send_reply ::
    "('u, 'w, 'ss) conn_env \<Rightarrow> response \<Rightarrow> bufw \<Rightarrow> error option \<times> bufw" where
  "send_reply E r w =
     (if \<not> r_streaming r \<or> Code (e_grpc E) (r_status r) \<noteq> OK then
        (case codec_Marshal (e_proto E) (AnyMessage (Some (MResponse
                \<lparr>RStatus = Proto (e_grpc E) (r_status r), RPayload = r_data r\<rparr>))) of
           Inl err \<Rightarrow> (Some err, w)
         | Inr p \<Rightarrow> send (r_id r) messageTypeResponse 0 p w)
      else send (r_id r) messageTypeData (reply_flags r) (r_data r) w)"

definition is_gone :: "error \<Rightarrow> bool" where
  "is_gone err \<longleftrightarrow> errors_is err IoEOF \<or> errors_is err IoErrUnexpectedEOF \<or> errors_is err (Errno ECONNRESET)"

definition main_select :: "bool \<Rightarrow> conn \<Rightarrow> conn list" where
  "main_select idle c =
     (if k_recvErrNil c then []
      else
        (case chan_recv (k_recvErr c) of
           Received err ch \<Rightarrow>
             [c\<lparr>k_recvErr := ch, k_recvErrNil := True,
                k_main := (if is_gone err then MReturn else MTop)\<rparr>]
         | ReceivedClosed \<Rightarrow> [c\<lparr>k_recvErrNil := True, k_main := MTop\<rparr>]
         | ReceiveBlocks \<Rightarrow> [])) @
     (if idle \<and> k_shutdown c then [c\<lparr>k_main := MReturn\<rparr>] else [])"

text \<open>Canceling the connection's context cancels the contexts derived from it.\<close>

definition cancel_ctx :: "gocontext \<Rightarrow> gocontext" where
  "cancel_ctx ctx = (if ctx_err ctx = None then ctx\<lparr>ctx_err := Some CtxCanceled\<rparr> else ctx)"

fun main_next :: "('u, 'w, 'ss) conn_env \<Rightarrow> main_loop \<Rightarrow> conn \<Rightarrow> conn list" where
  "main_next E MTop c =
     (let activeN = sint (k_active c);
          newstate = (if activeN > 0 then connStateActive else connStateIdle);
          c = (if newstate \<noteq> k_local c then (setState newstate c)\<lparr>k_local := newstate\<rparr> else c)
      in [c\<lparr>k_main := MSelect (\<not> activeN > 0)\<rparr>])"
| "main_next E (MSelect idle) c = main_select idle c"
| "main_next E (MReply r) c =
     (case send_reply E r (k_w c) of
        (Some err, w) \<Rightarrow> [c\<lparr>k_w := w, k_main := MReturn\<rparr>]
      | (None, w) \<Rightarrow> [c\<lparr>k_w := w, k_main := (if r_closeStream r then MDelete (r_id r) else MTop)\<rparr>])"
| "main_next E (MDelete sid) c =
     [c\<lparr>k_streams := (k_streams c)(sid := None), k_main := MDec\<rparr>]"
| "main_next E MDec c = [c\<lparr>k_active := k_active c - 1, k_main := MTop\<rparr>]"
| "main_next E MReturn c =
     [c\<lparr>k_registered := False, k_main := MDone\<rparr>]"
| "main_next E MDone c = [c\<lparr>k_done := True, k_main := MCancel\<rparr>]"
| "main_next E MCancel c =
     [c\<lparr>k_ctx := cancel_ctx (k_ctx c),
        k_heap := map (\<lambda>sh. sh\<lparr>sh_ctx := cancel_ctx (sh_ctx sh)\<rparr>) (k_heap c), k_main := MClose\<rparr>]"
| "main_next E MClose c = [c\<lparr>k_closed := True, k_main := MEnd\<rparr>]"
| "main_next E MEnd c = []"

text \<open>The main loop has not returned.\<close>

fun serving :: "main_loop \<Rightarrow> bool" where
  "serving MReturn = False"
| "serving MDone = False"
| "serving MCancel = False"
| "serving MClose = False"
| "serving MEnd = False"
| "serving _ = True"

section \<open>The goroutines together\<close>

definition conn_started :: "conn \<Rightarrow> bool" where
  "conn_started c \<longleftrightarrow>
     (\<exists>ctx r w h down. c = \<lparr>k_ctx = ctx, k_r = r, k_w = w, k_buffers = [], k_store = h, k_shutdown = down,
        k_state = Some connStateIdle, k_local = connStateIdle, k_recvErr = make_chan 1,
        k_recvErrNil = False, k_done = False, k_streams = Map.empty, k_heap = [], k_active = 0,
        k_lastStreamID = 0, k_calls = [], k_receiver = RTop, k_main = MTop, k_registered = True,
        k_closed = False\<rparr>)"

text \<open>
  What the goroutine of a call may send: a unary one a final response, a stream's handler messages
  on the stream and a final response that is one more message when the server streams.
\<close>

definition args_response :: "u32 \<Rightarrow> respond_args \<Rightarrow> response" where
  "args_response sid args =
     (case args of (st, p, streaming, close) \<Rightarrow>
        \<lparr>r_id = sid, r_status = st, r_data = p, r_closeStream = close, r_streaming = streaming\<rparr>)"

definition may_respond :: "call \<Rightarrow> response \<Rightarrow> bool" where
  "may_respond cl r \<longleftrightarrow> r_id r = call_id cl \<and>
     (case call_handler cl of
        None \<Rightarrow> r_closeStream r \<and> \<not> r_streaming r
      | Some ref \<Rightarrow>
          r_closeStream r \<and> r_streaming r = call_streaming cl \<or>
          \<not> r_closeStream r \<and> r_streaming r \<and> r_status r = None)"

definition responded :: "response \<Rightarrow> call \<Rightarrow> call" where
  "responded r cl = cl\<lparr>call_phase := (if r_closeStream r then Ended else Running)\<rparr>"

inductive conn_step :: "('u, 'w, 'ss) conn_env \<Rightarrow> conn \<Rightarrow> conn \<Rightarrow> bool"
  for E :: "('u, 'w, 'ss) conn_env" where
  kn_receiver: "t \<in> set (receiver_next E now pool (k_receiver s) s) \<Longrightarrow> conn_step E s t"
| kn_main: "t \<in> set (main_next E (k_main s) s) \<Longrightarrow> conn_step E s t"
| kn_status: "k_receiver s = RSend r \<Longrightarrow> k_main s = MSelect b \<Longrightarrow>
     conn_step E s (s\<lparr>k_receiver := RTop, k_main := MReply r\<rparr>)"
| kn_respond: "i < length (k_calls s) \<Longrightarrow> call_phase (k_calls s ! i) = Responding r \<Longrightarrow>
     k_main s = MSelect b \<Longrightarrow>
     conn_step E s (s\<lparr>k_calls := (k_calls s)[i := responded r (k_calls s ! i)], k_main := MReply r\<rparr>)"
| kn_call: "i < length (k_calls s) \<Longrightarrow> call_phase (k_calls s ! i) = Running \<Longrightarrow>
     may_respond (k_calls s ! i) r \<Longrightarrow>
     conn_step E s (s\<lparr>k_calls := (k_calls s)[i := (k_calls s ! i)\<lparr>call_phase := Responding r\<rparr>]\<rparr>)"
| kn_give_up: "i < length (k_calls s) \<Longrightarrow> call_phase (k_calls s ! i) = Responding r \<Longrightarrow> k_done s \<Longrightarrow>
     conn_step E s (s\<lparr>k_calls := (k_calls s)[i := responded r (k_calls s ! i)]\<rparr>)"
| kn_take: "ref < length (k_heap s) \<Longrightarrow> handler_take (k_heap s ! ref) = Some (p, sh) \<Longrightarrow>
     conn_step E s (set_handler ref sh s)"
| kn_cancel: "ref < length (k_heap s) \<Longrightarrow> ctx_err (sh_ctx (k_heap s ! ref)) = None \<Longrightarrow>
     conn_step E s (set_handler ref ((k_heap s ! ref)\<lparr>sh_ctx :=
       (sh_ctx (k_heap s ! ref))\<lparr>ctx_err := Some e\<rparr>\<rparr>) s)"
| kn_close: "k_registered s \<Longrightarrow> conn_step E s ((conn_close s)\<lparr>k_registered := False\<rparr>)"

lemma goroutine_may_respond:
  assumes "fst (handle grow now S ctx req h) = HandleUnary g \<and> cl = \<lparr>call_id = sid,
      call_handler = None, call_streaming = False, call_phase = Running\<rparr> \<or>
    fst (handle grow now S ctx req h) = HandleStream sh g first \<and> cl = \<lparr>call_id = sid,
      call_handler = Some ref, call_streaming = ss_StreamingServer (sh_info sh), call_phase = Running\<rparr>"
  shows "may_respond cl (args_response sid (fst (run_goroutine G P grow now' S ctx' ss h' g w)))"
  using assms
  by (auto simp: handle_def may_respond_def args_response_def Let_def split: option.splits prod.splits)

section \<open>The invariant of a connection\<close>

definition calls_ok :: "conn \<Rightarrow> bool" where
  "calls_ok s \<longleftrightarrow> sorted_wrt (<) (map call_id (k_calls s)) \<and>
     (\<forall>cl \<in> set (k_calls s). odd (unat (call_id cl)) \<and> call_id cl \<le> k_lastStreamID s \<and>
        (\<forall>r. call_phase cl = Responding r \<longrightarrow> r_id r = call_id cl))"

definition handlers_ok :: "conn \<Rightarrow> bool" where
  "handlers_ok s \<longleftrightarrow> (\<forall>ref < length (k_heap s). handler_ok (k_heap s ! ref)) \<and>
     (\<forall>sid ref. k_streams s sid = Some (Some ref) \<longrightarrow> ref < length (k_heap s))"

definition data_ok :: "data_phase \<Rightarrow> streamHandler \<Rightarrow> bool" where
  "data_ok ph sh \<longleftrightarrow> ph \<noteq> DataPanic \<and> (ph \<in> {DataSelect, DataWait} \<longrightarrow> \<not> sh_remoteClosed sh)"

definition receiver_ok :: "conn \<Rightarrow> bool" where
  "receiver_ok s \<longleftrightarrow>
     (case k_receiver s of
        RData ref msg ph \<Rightarrow> ref < length (k_heap s) \<and> data_ok ph (k_heap s ! ref)
      | RHandle sid ref p ph \<Rightarrow> ref < length (k_heap s) \<and> data_ok ph (k_heap s ! ref)
      | RStore sid (Some ref) \<Rightarrow> ref < length (k_heap s)
      | _ \<Rightarrow> True)"

definition recvErr_ok :: "conn \<Rightarrow> bool" where
  "recvErr_ok s \<longleftrightarrow> chan_cap (k_recvErr s) = 1 \<and> (chan_closed (k_recvErr s) \<longleftrightarrow> k_receiver s = REnd) \<and>
     (k_receiver s = RExit \<or> k_receiver s = REnd \<or> chan_buf (k_recvErr s) = [])"

definition main_ok :: "conn \<Rightarrow> bool" where
  "main_ok s \<longleftrightarrow> (k_done s \<longleftrightarrow> k_main s \<in> {MCancel, MClose, MEnd}) \<and> (k_closed s \<longleftrightarrow> k_main s = MEnd) \<and>
     (k_registered s \<longrightarrow> k_main s \<notin> {MDone, MCancel, MClose, MEnd})"

definition conn_inv :: "conn \<Rightarrow> bool" where
  "conn_inv s \<longleftrightarrow> calls_ok s \<and> handlers_ok s \<and> receiver_ok s \<and> recvErr_ok s \<and> main_ok s"

text \<open>Each part of the invariant looks at a few fields only.\<close>

lemma calls_ok_frame [simp]:
  "calls_ok (s\<lparr>k_ctx := x\<rparr>) = calls_ok s"
  "calls_ok (s\<lparr>k_r := x0\<rparr>) = calls_ok s"
  "calls_ok (s\<lparr>k_w := x1\<rparr>) = calls_ok s"
  "calls_ok (s\<lparr>k_buffers := x2\<rparr>) = calls_ok s"
  "calls_ok (s\<lparr>k_store := x3\<rparr>) = calls_ok s"
  "calls_ok (s\<lparr>k_shutdown := x4\<rparr>) = calls_ok s"
  "calls_ok (s\<lparr>k_state := x5\<rparr>) = calls_ok s"
  "calls_ok (s\<lparr>k_local := x6\<rparr>) = calls_ok s"
  "calls_ok (s\<lparr>k_recvErr := x7\<rparr>) = calls_ok s"
  "calls_ok (s\<lparr>k_recvErrNil := x8\<rparr>) = calls_ok s"
  "calls_ok (s\<lparr>k_done := x9\<rparr>) = calls_ok s"
  "calls_ok (s\<lparr>k_streams := x10\<rparr>) = calls_ok s"
  "calls_ok (s\<lparr>k_heap := x11\<rparr>) = calls_ok s"
  "calls_ok (s\<lparr>k_active := x12\<rparr>) = calls_ok s"
  "calls_ok (s\<lparr>k_receiver := x13\<rparr>) = calls_ok s"
  "calls_ok (s\<lparr>k_main := x14\<rparr>) = calls_ok s"
  "calls_ok (s\<lparr>k_registered := x15\<rparr>) = calls_ok s"
  "calls_ok (s\<lparr>k_closed := x16\<rparr>) = calls_ok s"
  by (simp_all add: calls_ok_def)

lemma handlers_ok_frame [simp]:
  "handlers_ok (s\<lparr>k_ctx := x\<rparr>) = handlers_ok s"
  "handlers_ok (s\<lparr>k_r := x0\<rparr>) = handlers_ok s"
  "handlers_ok (s\<lparr>k_w := x1\<rparr>) = handlers_ok s"
  "handlers_ok (s\<lparr>k_buffers := x2\<rparr>) = handlers_ok s"
  "handlers_ok (s\<lparr>k_store := x3\<rparr>) = handlers_ok s"
  "handlers_ok (s\<lparr>k_shutdown := x4\<rparr>) = handlers_ok s"
  "handlers_ok (s\<lparr>k_state := x5\<rparr>) = handlers_ok s"
  "handlers_ok (s\<lparr>k_local := x6\<rparr>) = handlers_ok s"
  "handlers_ok (s\<lparr>k_recvErr := x7\<rparr>) = handlers_ok s"
  "handlers_ok (s\<lparr>k_recvErrNil := x8\<rparr>) = handlers_ok s"
  "handlers_ok (s\<lparr>k_done := x9\<rparr>) = handlers_ok s"
  "handlers_ok (s\<lparr>k_active := x10\<rparr>) = handlers_ok s"
  "handlers_ok (s\<lparr>k_lastStreamID := x11\<rparr>) = handlers_ok s"
  "handlers_ok (s\<lparr>k_calls := x12\<rparr>) = handlers_ok s"
  "handlers_ok (s\<lparr>k_receiver := x13\<rparr>) = handlers_ok s"
  "handlers_ok (s\<lparr>k_main := x14\<rparr>) = handlers_ok s"
  "handlers_ok (s\<lparr>k_registered := x15\<rparr>) = handlers_ok s"
  "handlers_ok (s\<lparr>k_closed := x16\<rparr>) = handlers_ok s"
  by (simp_all add: handlers_ok_def)

lemma receiver_ok_frame [simp]:
  "receiver_ok (s\<lparr>k_ctx := x\<rparr>) = receiver_ok s"
  "receiver_ok (s\<lparr>k_r := x0\<rparr>) = receiver_ok s"
  "receiver_ok (s\<lparr>k_w := x1\<rparr>) = receiver_ok s"
  "receiver_ok (s\<lparr>k_buffers := x2\<rparr>) = receiver_ok s"
  "receiver_ok (s\<lparr>k_store := x3\<rparr>) = receiver_ok s"
  "receiver_ok (s\<lparr>k_shutdown := x4\<rparr>) = receiver_ok s"
  "receiver_ok (s\<lparr>k_state := x5\<rparr>) = receiver_ok s"
  "receiver_ok (s\<lparr>k_local := x6\<rparr>) = receiver_ok s"
  "receiver_ok (s\<lparr>k_recvErr := x7\<rparr>) = receiver_ok s"
  "receiver_ok (s\<lparr>k_recvErrNil := x8\<rparr>) = receiver_ok s"
  "receiver_ok (s\<lparr>k_done := x9\<rparr>) = receiver_ok s"
  "receiver_ok (s\<lparr>k_streams := x10\<rparr>) = receiver_ok s"
  "receiver_ok (s\<lparr>k_active := x11\<rparr>) = receiver_ok s"
  "receiver_ok (s\<lparr>k_lastStreamID := x12\<rparr>) = receiver_ok s"
  "receiver_ok (s\<lparr>k_calls := x13\<rparr>) = receiver_ok s"
  "receiver_ok (s\<lparr>k_main := x14\<rparr>) = receiver_ok s"
  "receiver_ok (s\<lparr>k_registered := x15\<rparr>) = receiver_ok s"
  "receiver_ok (s\<lparr>k_closed := x16\<rparr>) = receiver_ok s"
  by (simp_all add: receiver_ok_def split: receiver.split option.split)

lemma recvErr_ok_frame [simp]:
  "recvErr_ok (s\<lparr>k_ctx := x\<rparr>) = recvErr_ok s"
  "recvErr_ok (s\<lparr>k_r := x0\<rparr>) = recvErr_ok s"
  "recvErr_ok (s\<lparr>k_w := x1\<rparr>) = recvErr_ok s"
  "recvErr_ok (s\<lparr>k_buffers := x2\<rparr>) = recvErr_ok s"
  "recvErr_ok (s\<lparr>k_store := x3\<rparr>) = recvErr_ok s"
  "recvErr_ok (s\<lparr>k_shutdown := x4\<rparr>) = recvErr_ok s"
  "recvErr_ok (s\<lparr>k_state := x5\<rparr>) = recvErr_ok s"
  "recvErr_ok (s\<lparr>k_local := x6\<rparr>) = recvErr_ok s"
  "recvErr_ok (s\<lparr>k_recvErrNil := x7\<rparr>) = recvErr_ok s"
  "recvErr_ok (s\<lparr>k_done := x8\<rparr>) = recvErr_ok s"
  "recvErr_ok (s\<lparr>k_streams := x9\<rparr>) = recvErr_ok s"
  "recvErr_ok (s\<lparr>k_heap := x10\<rparr>) = recvErr_ok s"
  "recvErr_ok (s\<lparr>k_active := x11\<rparr>) = recvErr_ok s"
  "recvErr_ok (s\<lparr>k_lastStreamID := x12\<rparr>) = recvErr_ok s"
  "recvErr_ok (s\<lparr>k_calls := x13\<rparr>) = recvErr_ok s"
  "recvErr_ok (s\<lparr>k_main := x14\<rparr>) = recvErr_ok s"
  "recvErr_ok (s\<lparr>k_registered := x15\<rparr>) = recvErr_ok s"
  "recvErr_ok (s\<lparr>k_closed := x16\<rparr>) = recvErr_ok s"
  by (simp_all add: recvErr_ok_def)

lemma main_ok_frame [simp]:
  "main_ok (s\<lparr>k_ctx := x\<rparr>) = main_ok s"
  "main_ok (s\<lparr>k_r := x0\<rparr>) = main_ok s" "main_ok (s\<lparr>k_w := x1\<rparr>) = main_ok s"
  "main_ok (s\<lparr>k_buffers := x2\<rparr>) = main_ok s"
  "main_ok (s\<lparr>k_store := x3\<rparr>) = main_ok s"
  "main_ok (s\<lparr>k_shutdown := x4\<rparr>) = main_ok s"
  "main_ok (s\<lparr>k_state := x5\<rparr>) = main_ok s"
  "main_ok (s\<lparr>k_local := x6\<rparr>) = main_ok s"
  "main_ok (s\<lparr>k_recvErr := x7\<rparr>) = main_ok s"
  "main_ok (s\<lparr>k_recvErrNil := x8\<rparr>) = main_ok s"
  "main_ok (s\<lparr>k_streams := x9\<rparr>) = main_ok s"
  "main_ok (s\<lparr>k_heap := x10\<rparr>) = main_ok s"
  "main_ok (s\<lparr>k_active := x11\<rparr>) = main_ok s"
  "main_ok (s\<lparr>k_lastStreamID := x12\<rparr>) = main_ok s"
  "main_ok (s\<lparr>k_calls := x13\<rparr>) = main_ok s"
  "main_ok (s\<lparr>k_receiver := x14\<rparr>) = main_ok s"
  by (simp_all add: main_ok_def)

lemma odd_word: "(w :: u32) mod 2 = 1 \<Longrightarrow> odd (unat w)"
proof -
  assume "w mod 2 = 1"
  then have "unat (w mod 2) = 1" by simp
  then have "unat w mod 2 = 1" by (simp add: unat_mod_distrib)
  then show ?thesis by presburger
qed

lemma receiver_ok_simple [simp]:
  "receiver_ok (s\<lparr>k_receiver := RTop\<rparr>)" "receiver_ok (s\<lparr>k_receiver := RRecv\<rparr>)"
  "receiver_ok (s\<lparr>k_receiver := RSend r\<rparr>)" "receiver_ok (s\<lparr>k_receiver := RAdd\<rparr>)"
  "receiver_ok (s\<lparr>k_receiver := RErr e\<rparr>)" "receiver_ok (s\<lparr>k_receiver := RExit\<rparr>)"
  "receiver_ok (s\<lparr>k_receiver := REnd\<rparr>)" "receiver_ok (s\<lparr>k_receiver := RPanic\<rparr>)"
  "receiver_ok (s\<lparr>k_receiver := RStore sid None\<rparr>)"
  "receiver_ok (s\<lparr>k_receiver := invalid sid msg\<rparr>)"
  by (simp_all add: receiver_ok_def invalid_def)

lemma invalid_simps [simp]:
  "invalid sid msg \<noteq> REnd" "invalid sid msg \<noteq> RExit" "invalid sid msg \<noteq> RPanic"
  by (simp_all add: invalid_def)

lemma recvErr_ok_receiver [simp]:
  "recvErr_ok (s\<lparr>k_receiver := ph\<rparr>) \<longleftrightarrow> chan_cap (k_recvErr s) = 1 \<and>
     (chan_closed (k_recvErr s) \<longleftrightarrow> ph = REnd) \<and>
     (ph = RExit \<or> ph = REnd \<or> chan_buf (k_recvErr s) = [])"
  by (simp add: recvErr_ok_def)

lemma recvErr_okD:
  assumes "recvErr_ok s" "k_receiver s \<noteq> RExit" "k_receiver s \<noteq> REnd"
  shows "chan_cap (k_recvErr s) = 1" "\<not> chan_closed (k_recvErr s)" "chan_buf (k_recvErr s) = []"
  using assms by (simp_all add: recvErr_ok_def)

lemma conn_invD:
  assumes "conn_inv s"
  shows "calls_ok s" "handlers_ok s" "receiver_ok s" "recvErr_ok s" "main_ok s"
  using assms by (simp_all add: conn_inv_def)

lemma handlers_okD: "handlers_ok s \<Longrightarrow> ref < length (k_heap s) \<Longrightarrow> handler_ok (k_heap s ! ref)"
  by (simp add: handlers_ok_def)

lemma handlers_ok_set:
  "handlers_ok s \<Longrightarrow> handler_ok sh \<Longrightarrow> handlers_ok (s\<lparr>k_heap := (k_heap s)[ref := sh]\<rparr>)"
  by (auto simp: handlers_ok_def nth_update_if)

lemma conn_inv_set_handler:
  assumes "conn_inv s" "handler_ok sh" "ref < length (k_heap s)"
    "sh_remoteClosed sh = sh_remoteClosed (k_heap s ! ref)"
  shows "conn_inv (set_handler ref sh s)"
proof -
  have "receiver_ok (s\<lparr>k_heap := (k_heap s)[ref := sh]\<rparr>)"
    using conn_invD(3) [OF assms(1)] assms(4)
    by (auto simp: receiver_ok_def data_ok_def nth_update_if split: receiver.splits option.splits)
  with assms handlers_ok_set show ?thesis by (simp add: conn_inv_def set_handler_def)
qed

lemma closeSend_ok: "handler_ok sh \<Longrightarrow> handler_ok (closeSend sh)"
  by (auto simp: handler_ok_def closeSend_def handler_view)

lemma receiver_close_inv:
  assumes "conn_inv s" "k_receiver s \<noteq> RExit" "k_receiver s \<noteq> REnd" "ref < length (k_heap s)"
  shows "conn_inv (receiver_close mh p ref s)"
  using assms handlers_ok_set closeSend_ok handlers_okD recvErr_okD [OF conn_invD(4) [OF assms(1)]]
  by (auto simp: receiver_close_def conn_inv_def Let_def)

lemma receiver_data_inv:
  assumes "conn_inv s" "k_receiver s = RRecv"
  shows "conn_inv (receiver_data mh p s)"
proof -
  have "ref < length (k_heap s)" if "k_streams s (StreamID mh) = Some (Some ref)" for ref
    using conn_invD(2) [OF assms(1)] that by (simp add: handlers_ok_def)
  moreover have "receiver_ok (s\<lparr>k_receiver := RData ref (mh, p) DataEnter\<rparr>)" if "ref < length (k_heap s)" for ref
    using that by (simp add: receiver_ok_def data_ok_def)
  ultimately show ?thesis
    using assms receiver_close_inv [OF assms(1)] recvErr_okD [OF conn_invD(4) [OF assms(1)]]
    by (auto simp: receiver_data_def conn_inv_def split: option.splits)
qed

lemma calls_ok_start:
  assumes "calls_ok s" "k_lastStreamID s < sid" "odd (unat sid)"
  shows "calls_ok (start_call sid ref streaming (s\<lparr>k_lastStreamID := sid\<rparr>))"
proof -
  have "call_id cl < sid" if "cl \<in> set (k_calls s)" for cl
    using assms(1,2) that by (auto simp: calls_ok_def)
  with assms show ?thesis
    by (fastforce simp: calls_ok_def start_call_def sorted_wrt_append)
qed

lemma start_call_simps [simp]:
  "k_heap (start_call sid ref b s) = k_heap s" "k_streams (start_call sid ref b s) = k_streams s"
  "k_receiver (start_call sid ref b s) = k_receiver s" "k_recvErr (start_call sid ref b s) = k_recvErr s"
  by (simp_all add: start_call_def)

lemma frame_start_call [simp]:
  "handlers_ok (start_call sid ref b s) = handlers_ok s"
  "receiver_ok (start_call sid ref b s) = receiver_ok s"
  "recvErr_ok (start_call sid ref b s) = recvErr_ok s"
  "main_ok (start_call sid ref b s) = main_ok s"
  by (simp_all add: start_call_def)

lemma handle_stream_handler:
  "fst (handle grow now S ctx req h) = HandleStream sh g first \<Longrightarrow>
     handler_ok sh \<and> \<not> sh_remoteClosed sh"
  by (auto simp: handle_def Let_def handler_ok_def handler_view split: option.splits prod.splits)

lemma receiver_handle_inv:
  assumes inv: "conn_inv s" and run: "k_receiver s = RRecv"
    and sid: "\<forall>cl \<in> set (k_calls s). call_id cl < k_lastStreamID s" "odd (unat (k_lastStreamID s))"
  shows "conn_inv (receiver_handle E now (k_lastStreamID s) req s)"
proof -
  obtain x h where x: "handle (e_grow E) now (e_services E) (k_ctx s) req (k_store s) = (x, h)"
    by fastforce
  have calls: "calls_ok (start_call (k_lastStreamID s) ref b s)" for ref b
    using conn_invD(1) [OF inv] sid by (fastforce simp: calls_ok_def start_call_def sorted_wrt_append)
  note rec = recvErr_okD [OF conn_invD(4) [OF inv], unfolded run, simplified]
  show ?thesis
  proof (cases x)
    case (HandleError err)
    with inv rec show ?thesis by (simp add: receiver_handle_def x conn_inv_def)
  next
    case (HandleUnary g)
    with inv rec calls show ?thesis by (simp add: receiver_handle_def x conn_inv_def start_call_def)
  next
    case (HandleStream sh g first)
    have sh: "handler_ok sh" "\<not> sh_remoteClosed sh"
      using handle_stream_handler [of "e_grow E" now "e_services E" "k_ctx s" req "k_store s" sh g first]
      by (simp_all add: x HandleStream)
    let ?t = "(start_call (k_lastStreamID s) (Some (length (k_heap s))) (ss_StreamingServer (sh_info sh)) s)
      \<lparr>k_store := h, k_heap := k_heap s @ [sh]\<rparr>"
    have "handlers_ok ?t"
      using conn_invD(2) [OF inv] sh by (fastforce simp: handlers_ok_def nth_append less_Suc_eq)
    moreover have "receiver_ok (?t\<lparr>k_receiver := RStore sid (Some (length (k_heap s)))\<rparr>)"
      "receiver_ok (?t\<lparr>k_receiver := RHandle sid (length (k_heap s)) p DataEnter\<rparr>)" for sid p
      by (simp_all add: receiver_ok_def data_ok_def)
    ultimately show ?thesis
      using inv rec calls
      by (auto simp: receiver_handle_def x HandleStream conn_inv_def Let_def start_call_def split: option.splits)
  qed
qed

lemma receiver_message_inv:
  assumes inv: "conn_inv s" and run: "k_receiver s = RRecv"
  shows "conn_inv (receiver_message E now mh p s)"
proof -
  note rec = recvErr_okD [OF conn_invD(4) [OF inv], unfolded run, simplified]
  have "conn_inv (receiver_request E now mh p s)" if "StreamID mh mod 2 = 1"
  proof (cases "StreamID mh \<le> k_lastStreamID s")
    case True
    with inv rec show ?thesis by (simp add: receiver_request_def conn_inv_def)
  next
    case False
    let ?s = "s\<lparr>k_lastStreamID := StreamID mh\<rparr>"
    have calls: "\<forall>cl \<in> set (k_calls s). call_id cl < StreamID mh"
      using conn_invD(1) [OF inv] False by (auto simp: calls_ok_def)
    then have "conn_inv ?s" using inv by (auto simp: conn_inv_def calls_ok_def)
    then have put: "conn_inv (conn_put_buffer p ?s)" by (simp add: conn_inv_def conn_put_buffer_def)
    have "conn_inv (receiver_handle E now (StreamID mh) req (conn_put_buffer p ?s))" for req
      using receiver_handle_inv [OF put, of E now req] calls odd_word [OF that] run
      by (simp add: conn_put_buffer_def)
    moreover have "conn_inv ((conn_put_buffer p ?s)\<lparr>k_receiver := invalid sid msg\<rparr>)" for sid msg
      using put rec by (simp add: conn_inv_def conn_put_buffer_def)
    ultimately show ?thesis using False by (simp add: receiver_request_def Let_def split: sum.splits)
  qed
  with receiver_data_inv [OF inv run] inv rec show ?thesis
    by (simp add: receiver_message_def conn_inv_def)
qed

lemma receiver_frame_inv:
  assumes inv: "conn_inv s" and run: "k_receiver s = RRecv"
  shows "conn_inv (receiver_frame E now pool s)"
proof -
  have r: "conn_inv (s\<lparr>k_r := r\<rparr>)" for r using inv by (simp add: conn_inv_def)
  note rec = recvErr_okD [OF conn_invD(4) [OF inv], unfolded run, simplified]
  have msg: "conn_inv (receiver_message E now mh p (s\<lparr>k_r := r\<rparr>))" for mh p r
    by (rule receiver_message_inv [OF r]) (simp add: run)
  have "conn_inv (s\<lparr>k_r := r, k_receiver := ph\<rparr>)" if "\<exists>e. ph = RErr e \<or> ph = RSend e'" for r ph e'
    using that inv rec by (auto simp: conn_inv_def)
  with msg show ?thesis
    by (auto simp: receiver_frame_def Let_def split: prod.splits option.splits)
qed

lemma data_step_inv:
  assumes inv: "conn_inv s" and ref: "ref < length (k_heap s)" "data_ok ph (k_heap s ! ref)"
    and nxt: "(ph', sh) \<in> set (data_next p ph (k_heap s ! ref))"
  shows "conn_inv (set_handler ref sh s) \<and> data_ok ph' sh"
proof -
  have ok: "handler_ok (k_heap s ! ref)" using handlers_okD [OF conn_invD(2) [OF inv] ref(1)] .
  from data_next_ok [OF ok _ nxt] ref(2) have "handler_ok sh" "data_ok ph' sh"
    "sh_remoteClosed sh = sh_remoteClosed (k_heap s ! ref)" by (auto simp: data_ok_def)
  with conn_inv_set_handler [OF inv _ ref(1)] show ?thesis by simp
qed

lemma receiver_next_data:
  assumes "\<forall>err. ph \<noteq> DataReturn err" "ph \<noteq> DataPanic"
  shows "receiver_next E now pool (RData ref msg ph) c =
      map (\<lambda>(ph', sh). (set_handler ref sh c)\<lparr>k_receiver := RData ref msg ph'\<rparr>)
        (data_next (snd msg) ph (k_heap c ! ref))"
    "receiver_next E now pool (RHandle sid ref p ph) c =
      map (\<lambda>(ph', sh). (set_handler ref sh c)\<lparr>k_receiver := RHandle sid ref p ph'\<rparr>)
        (data_next p ph (k_heap c ! ref))"
  using assms by (cases ph; simp_all only: receiver_next.simps; simp)+

lemma set_handler_simps [simp]:
  "length (k_heap (set_handler ref sh s)) = length (k_heap s)"
  "k_receiver (set_handler ref sh s) = k_receiver s" "k_recvErr (set_handler ref sh s) = k_recvErr s"
  "k_calls (set_handler ref sh s) = k_calls s" "k_main (set_handler ref sh s) = k_main s"
  "k_active (set_handler ref sh s) = k_active s" "k_done (set_handler ref sh s) = k_done s"
  by (simp_all add: set_handler_def)

text \<open>While a phase of \<open>sh.data\<close> runs, for a data message or for the first message of a stream.\<close>

lemma receiver_data_phase_inv:
  assumes inv: "conn_inv s" and t: "t \<in> set (receiver_next E now pool (k_receiver s) s)"
    and run: "k_receiver s = RData ref msg ph \<or> k_receiver s = RHandle sid ref p ph"
    and busy: "\<forall>err. ph \<noteq> DataReturn err"
  shows "conn_inv t"
proof -
  have ref: "ref < length (k_heap s)" "data_ok ph (k_heap s ! ref)"
    using conn_invD(3) [OF inv] run by (auto simp: receiver_ok_def)
  then have ph: "ph \<noteq> DataPanic" by (simp add: data_ok_def)
  note rec = recvErr_okD [OF conn_invD(4) [OF inv]]
  have mk: "conn_inv ((set_handler ref sh s)\<lparr>k_receiver := r\<rparr>)"
    if "(ph', sh) \<in> set (data_next q ph (k_heap s ! ref))" "r = RData ref msg ph' \<or> r = RHandle sid ref p ph'"
    for ph' sh q r
    using data_step_inv [OF inv ref that(1)] that(2) rec run ref(1)
    by (auto simp: conn_inv_def receiver_ok_def set_handler_def)
  show ?thesis using run t mk by (auto simp: receiver_next_data [OF busy ph])
qed

lemma receiver_next_inv:
  assumes inv: "conn_inv s" and t: "t \<in> set (receiver_next E now pool (k_receiver s) s)"
  shows "conn_inv t"
proof (cases "k_receiver s")
  case RTop
  then show ?thesis using t inv recvErr_okD [OF conn_invD(4) [OF inv]]
    by (auto simp: conn_inv_def split: if_splits)
next
  case RRecv
  then show ?thesis using t receiver_frame_inv [OF inv] by simp
next
  case (RSend r)
  then show ?thesis using t inv recvErr_okD [OF conn_invD(4) [OF inv]]
    by (auto simp: conn_inv_def split: if_splits)
next
  case (RData ref msg ph)
  show ?thesis
  proof (cases "\<exists>err. ph = DataReturn err")
    case False
    then show ?thesis using receiver_data_phase_inv [OF inv t, of ref msg ph] RData by blast
  next
    case True
    have "ref < length (k_heap s)" using conn_invD(3) [OF inv] RData by (simp add: receiver_ok_def)
    from receiver_close_inv [OF inv _ _ this] True t inv recvErr_okD [OF conn_invD(4) [OF inv]] RData
    show ?thesis by (auto simp: conn_inv_def split: option.splits)
  qed
next
  case (RHandle sid ref p ph)
  show ?thesis
  proof (cases "\<exists>err. ph = DataReturn err")
    case False
    then show ?thesis using receiver_data_phase_inv [OF inv t, of ref _ ph sid p] RHandle by blast
  next
    case True
    have "ref < length (k_heap s)" using conn_invD(3) [OF inv] RHandle by (simp add: receiver_ok_def)
    then have "receiver_ok (s\<lparr>k_receiver := RStore sid (Some ref)\<rparr>)" by (simp add: receiver_ok_def)
    with True t inv recvErr_okD [OF conn_invD(4) [OF inv]] RHandle
    show ?thesis by (auto simp: conn_inv_def split: option.splits)
  qed
next
  case (RStore sid ref)
  have "handlers_ok (s\<lparr>k_streams := (k_streams s)(sid \<mapsto> ref)\<rparr>)"
    using conn_invD(2,3) [OF inv] RStore by (auto simp: handlers_ok_def receiver_ok_def split: option.splits)
  with t inv RStore recvErr_okD [OF conn_invD(4) [OF inv]] show ?thesis by (auto simp: conn_inv_def)
next
  case RAdd
  then show ?thesis using t inv recvErr_okD [OF conn_invD(4) [OF inv]] by (auto simp: conn_inv_def)
next
  case (RErr e)
  then show ?thesis using t inv recvErr_okD [OF conn_invD(4) [OF inv]]
    by (auto simp: conn_inv_def chan_send_def)
next
  case RExit
  then show ?thesis using t inv by (auto simp: conn_inv_def recvErr_ok_def)
qed (use t in simp_all)

lemma main_ok_phase:
  "main_ok s \<Longrightarrow> serving (k_main s) \<Longrightarrow> serving ph \<or> ph = MReturn \<Longrightarrow> main_ok (s\<lparr>k_main := ph\<rparr>)"
  by (cases "k_main s"; cases ph) (auto simp: main_ok_def)

lemma recvErr_ok_recv:
  assumes "recvErr_ok s" "chan_recv (k_recvErr s) = Received e ch"
  shows "recvErr_ok (s\<lparr>k_recvErr := ch\<rparr>)"
  using assms by (auto simp: recvErr_ok_def chan_recv_Received)

lemma main_next_inv:
  assumes inv: "conn_inv s" and t: "t \<in> set (main_next E (k_main s) s)"
  shows "conn_inv t"
proof (cases "k_main s")
  case MTop
  then show ?thesis using t inv main_ok_phase [OF conn_invD(5) [OF inv]]
    by (auto simp: conn_inv_def Let_def setState_def main_ok_def)
next
  case (MSelect idle)
  then show ?thesis using t inv main_ok_phase [OF conn_invD(5) [OF inv]]
      recvErr_ok_recv [OF conn_invD(4) [OF inv]]
    by (auto simp: conn_inv_def main_select_def main_ok_def split: if_splits chan_received.splits)
next
  case (MReply r)
  obtain err w where w: "send_reply E r (k_w s) = (err, w)" by fastforce
  with MReply t obtain ph where "t = s\<lparr>k_w := w, k_main := ph\<rparr>" "serving ph \<or> ph = MReturn"
    by (cases err) (auto split: if_splits)
  with inv MReply main_ok_phase [of "s\<lparr>k_w := w\<rparr>" ph] show ?thesis
    by (simp add: conn_inv_def)
next
  case (MDelete sid)
  have "handlers_ok (s\<lparr>k_streams := (k_streams s)(sid := None)\<rparr>)"
    using conn_invD(2) [OF inv] by (auto simp: handlers_ok_def)
  with MDelete t inv show ?thesis by (auto simp: conn_inv_def main_ok_def)
next
  case MDec
  then show ?thesis using t inv by (auto simp: conn_inv_def main_ok_def)
next
  case MReturn
  then show ?thesis using t inv by (auto simp: conn_inv_def main_ok_def)
next
  case MDone
  then show ?thesis using t inv by (auto simp: conn_inv_def main_ok_def)
next
  case MCancel
  let ?heap = "map (\<lambda>sh. sh\<lparr>sh_ctx := cancel_ctx (sh_ctx sh)\<rparr>) (k_heap s)"
  have "handlers_ok (s\<lparr>k_ctx := ctx, k_heap := ?heap\<rparr>)" for ctx
    using conn_invD(2) [OF inv] by (simp add: handlers_ok_def handler_ok_def handler_view)
  moreover have "receiver_ok (s\<lparr>k_ctx := ctx, k_heap := ?heap\<rparr>)" for ctx
    using conn_invD(3) [OF inv] by (auto simp: receiver_ok_def data_ok_def split: receiver.split option.split)
  ultimately show ?thesis using MCancel t inv by (auto simp: conn_inv_def main_ok_def)
next
  case MClose
  then show ?thesis using t inv by (auto simp: conn_inv_def main_ok_def)
qed (use t in simp)

lemma calls_ok_phase:
  assumes "calls_ok s" "i < length (k_calls s)"
    "\<forall>r. ph = Responding r \<longrightarrow> r_id r = call_id (k_calls s ! i)"
  shows "calls_ok (s\<lparr>k_calls := (k_calls s)[i := (k_calls s ! i)\<lparr>call_phase := ph\<rparr>]\<rparr>)"
proof -
  let ?cl = "(k_calls s ! i)\<lparr>call_phase := ph\<rparr>"
  have "map call_id ((k_calls s)[i := ?cl]) = map call_id (k_calls s)"
    using assms(2) by (simp add: map_update list_update_same_conv)
  moreover have "k_calls s ! i \<in> set (k_calls s)" using assms(2) by simp
  ultimately show ?thesis
    using assms(1,3) by (auto simp: calls_ok_def dest!: set_update_subset_insert [THEN subsetD])
qed

lemma conn_inv_step:
  assumes "conn_step E s t" "conn_inv s"
  shows "conn_inv t"
  using assms
proof (induction rule: conn_step.induct)
  case (kn_receiver t now pool s)
  then show ?case using receiver_next_inv by blast
next
  case (kn_main t s)
  then show ?case using main_next_inv by blast
next
  case (kn_status s r b)
  then show ?case using recvErr_okD [OF conn_invD(4) [OF kn_status.prems]]
    by (auto simp: conn_inv_def main_ok_def)
next
  case (kn_respond i s r b)
  then show ?case using calls_ok_phase [OF conn_invD(1) [OF kn_respond.prems] kn_respond.hyps(1)]
    by (auto simp: conn_inv_def main_ok_def responded_def)
next
  case (kn_call i s r)
  then show ?case using calls_ok_phase [OF conn_invD(1) [OF kn_call.prems] kn_call.hyps(1)]
    by (auto simp: conn_inv_def may_respond_def)
next
  case (kn_give_up i s r)
  then show ?case using calls_ok_phase [OF conn_invD(1) [OF kn_give_up.prems] kn_give_up.hyps(1)]
    by (auto simp: conn_inv_def responded_def)
next
  case (kn_take ref s p sh)
  then have "handler_ok (k_heap s ! ref)" using handlers_okD conn_invD(2) by blast
  with kn_take have "handler_ok sh \<and> sh_remoteClosed sh = sh_remoteClosed (k_heap s ! ref)"
    by (auto simp: handler_take_Some handler_ok_def handler_view)
  with conn_inv_set_handler [OF kn_take.prems _ kn_take.hyps(1)] show ?case by blast
next
  case (kn_cancel ref s e)
  then have "handler_ok (k_heap s ! ref)" using handlers_okD conn_invD(2) by blast
  with conn_inv_set_handler [OF kn_cancel.prems _ kn_cancel.hyps(1)] show ?case
    by (simp add: handler_ok_def handler_view)
next
  case (kn_close s)
  then show ?case by (simp add: conn_inv_def conn_close_def main_ok_def)
qed

interpretation conn_reach: step_invariant conn_started "conn_step E" conn_inv
proof unfold_locales
  show "conn_started s \<Longrightarrow> conn_inv s" for s
    by (auto simp: conn_started_def conn_inv_def calls_ok_def handlers_ok_def receiver_ok_def
        recvErr_ok_def main_ok_def)
qed (rule conn_inv_step)

end
