(* ===== verification/Ttrpc_ConnCalls.thy ===== *)
theory Ttrpc_ConnCalls
  imports Ttrpc_Conn
begin

text \<open>
  What holds of a connection of a server: the number of calls it counts, what ends it, and how the
  goroutines of a connection end. The theorems rest on the invariant of \<open>Ttrpc_Conn\<close> and on a second
  one for the executions in which the client breaks no rule of the protocol.
\<close>

section \<open>Counting the calls\<close>

text \<open>
  Executions in which the receiver never has to report an error status. In these the number
  \<open>active\<close> is exact: it counts the calls started and not yet ended, up to the step under way.
\<close>

definition polite_step :: "('u, 'w, 'ss) conn_env \<Rightarrow> conn \<Rightarrow> conn \<Rightarrow> bool" where
  "polite_step E s t \<longleftrightarrow> conn_step E s t \<and> (\<forall>r. k_receiver t \<noteq> RSend r)"

definition ended :: "call list \<Rightarrow> nat" where
  "ended cls = length (filter (\<lambda>cl. call_phase cl = Ended) cls)"

definition outstanding :: "conn \<Rightarrow> nat" where
  "outstanding s = length (k_calls s) - ended (k_calls s)"

fun adding :: "receiver \<Rightarrow> nat" where
  "adding (RHandle sid ref p ph) = 1"
| "adding (RStore sid ref) = 1"
| "adding RAdd = 1"
| "adding _ = 0"

fun deleting :: "main_loop \<Rightarrow> nat" where
  "deleting (MReply r) = (if r_closeStream r then 1 else 0)"
| "deleting (MDelete sid) = 1"
| "deleting MDec = 1"
| "deleting _ = 0"

definition balance :: "conn \<Rightarrow> int" where
  "balance s = int (length (k_calls s)) - int (ended (k_calls s)) - int (adding (k_receiver s)) +
     int (deleting (k_main s))"

definition books :: "conn \<Rightarrow> bool" where
  "books s \<longleftrightarrow> k_active s = word_of_int (balance s)"

definition polite_inv :: "conn \<Rightarrow> bool" where
  "polite_inv s \<longleftrightarrow> conn_inv s \<and> (\<forall>r. k_receiver s \<noteq> RSend r) \<and>
     (serving (k_main s) \<longrightarrow> books s)"

lemma ended_update:
  assumes "i < length cls" "call_phase (cls ! i) \<noteq> Ended"
  shows "ended (cls[i := cl]) = ended cls + (if call_phase cl = Ended then 1 else 0)"
  using assms
proof (induction cls arbitrary: i)
  case (Cons a cls)
  then show ?case by (cases i) (auto simp: ended_def)
qed simp

lemma books_same: "books s \<Longrightarrow> k_active t = k_active s \<Longrightarrow> balance t = balance s \<Longrightarrow> books t"
  by (simp add: books_def)

lemma word_of_int_step:
  "word_of_int (b + 1) = (word_of_int b + 1 :: 32 word)" "word_of_int (b - 1) = (word_of_int b - 1 :: 32 word)"
  by simp_all

lemma ended_le: "ended cls \<le> length cls"
  by (simp add: ended_def)

text \<open>What a received frame does to the books: nothing, or one call more, still to be counted.\<close>

definition one_call_more :: "conn \<Rightarrow> conn \<Rightarrow> bool" where
  "one_call_more s t \<longleftrightarrow> k_active t = k_active s \<and> k_main t = k_main s \<and>
     (k_calls t = k_calls s \<and> adding (k_receiver t) = 0 \<or>
      (\<exists>cl. k_calls t = k_calls s @ [cl] \<and> call_phase cl = Running \<and> adding (k_receiver t) = 1))"

lemma one_call_moreI:
  "k_active t = k_active s \<Longrightarrow> k_main t = k_main s \<Longrightarrow> k_calls t = k_calls s \<Longrightarrow>
     adding (k_receiver t) = 0 \<Longrightarrow> one_call_more s t"
  by (simp add: one_call_more_def)

lemma one_call_more_books:
  assumes "books s" "adding (k_receiver s) = 0" "one_call_more s t"
  shows "books t"
  using assms by (auto simp: one_call_more_def balance_def ended_def intro: books_same [OF assms(1)])

lemma adding_invalid [simp]: "adding (invalid sid msg) = 0"
  by (simp add: invalid_def)

lemma receiver_close_more: "one_call_more s (receiver_close mh p ref s)"
  by (rule one_call_moreI) (auto simp: receiver_close_def Let_def)

lemma receiver_data_more: "one_call_more s (receiver_data mh p s)"
  using receiver_close_more [of s]
  by (auto simp: receiver_data_def intro!: one_call_moreI split: option.splits)

lemma receiver_handle_more: "one_call_more s (receiver_handle E now sid req s)"
  by (auto simp: receiver_handle_def one_call_more_def start_call_def Let_def
      split: prod.splits handled.splits option.splits)

lemma receiver_request_more: "one_call_more s (receiver_request E now mh p s)"
proof -
  let ?s = "conn_put_buffer p (s\<lparr>k_lastStreamID := StreamID mh\<rparr>)"
  have "one_call_more s (receiver_handle E now sid req ?s)" for sid req
    using receiver_handle_more [of ?s E now sid req] by (simp add: one_call_more_def conn_put_buffer_def)
  moreover have "one_call_more s (?s\<lparr>k_receiver := invalid sid msg\<rparr>)" for sid msg
    by (rule one_call_moreI) (simp_all add: conn_put_buffer_def)
  moreover have "one_call_more s (s\<lparr>k_receiver := invalid sid msg\<rparr>)" for sid msg
    by (rule one_call_moreI) simp_all
  ultimately show ?thesis by (auto simp: receiver_request_def Let_def split: sum.splits)
qed

lemma receiver_frame_more: "one_call_more s (receiver_frame E now pool s)"
proof -
  have "one_call_more s (receiver_message E now mh p (s\<lparr>k_r := r\<rparr>))" for mh p r
    using receiver_data_more [of "s\<lparr>k_r := r\<rparr>" mh p] receiver_request_more [of "s\<lparr>k_r := r\<rparr>" E now mh p]
    by (auto simp: receiver_message_def one_call_more_def)
  moreover have "one_call_more s (s\<lparr>k_r := r, k_receiver := ph\<rparr>)" if "adding ph = 0" for r ph
    by (rule one_call_moreI) (simp_all add: that)
  ultimately show ?thesis
    by (auto simp: receiver_frame_def Let_def split: prod.splits option.splits)
qed

lemma receiver_next_main:
  "t \<in> set (receiver_next E now pool (k_receiver s) s) \<Longrightarrow> k_main t = k_main s"
  using receiver_frame_more [of s E now pool]
  by (cases "(E, now, pool, k_receiver s, s)" rule: receiver_next.cases)
    (auto simp: one_call_more_def receiver_close_def Let_def set_handler_def
      split: if_splits option.splits chan_sent.splits)

lemma books_receiver:
  assumes inv: "polite_inv s" and books: "books s"
    and t: "t \<in> set (receiver_next E now pool (k_receiver s) s)" "\<forall>r. k_receiver t \<noteq> RSend r"
  shows "books t \<and> k_main t = k_main s"
proof -
  have ok: "receiver_ok s" using inv by (simp add: polite_inv_def conn_inv_def)
  note same = books_same [OF books]
  show ?thesis
  proof (cases "k_receiver s")
    case RRecv
    with t one_call_more_books [OF books _ receiver_frame_more] receiver_frame_more [of s E now pool]
    show ?thesis by (auto simp: one_call_more_def)
  next
    case (RData ref msg ph)
    show ?thesis
    proof (cases "\<exists>err. ph = DataReturn err")
      case True
      with t RData one_call_more_books [OF books _ receiver_close_more] receiver_close_more [of s]
      show ?thesis by (auto simp: one_call_more_def invalid_def split: option.splits)
    next
      case False
      with ok RData have "ph \<noteq> DataPanic" by (auto simp: receiver_ok_def data_ok_def)
      with t RData False show ?thesis by (auto simp: receiver_next_data balance_def intro!: same)
    qed
  next
    case (RHandle sid ref p ph)
    show ?thesis
    proof (cases "\<exists>err. ph = DataReturn err")
      case True
      with t RHandle show ?thesis by (auto simp: balance_def intro!: same split: option.splits)
    next
      case False
      with ok RHandle have "ph \<noteq> DataPanic" by (auto simp: receiver_ok_def data_ok_def)
      with t RHandle False show ?thesis by (auto simp: receiver_next_data balance_def intro!: same)
    qed
  next
    case (RSend r)
    with inv show ?thesis by (simp add: polite_inv_def)
  next
    case (RErr e)
    with t show ?thesis by (auto simp: balance_def intro!: same split: chan_sent.splits)
  next
    case RTop
    with t show ?thesis by (auto simp: balance_def intro!: same split: if_splits)
  next
    case RAdd
    with t have "t = s\<lparr>k_active := k_active s + 1, k_receiver := RTop\<rparr>" by simp
    moreover from this RAdd have "balance t = balance s + 1" by (simp add: balance_def)
    ultimately show ?thesis using books by (simp add: books_def)
  qed (use t in \<open>auto simp: balance_def intro!: same\<close>)
qed

lemma books_main:
  assumes books: "books s" and t: "t \<in> set (main_next E (k_main s) s)"
    and phase: "serving (k_main t)"
  shows "books t"
proof -
  note same = books_same [OF books]
  show ?thesis
  proof (cases "k_main s")
    case MTop
    with t show ?thesis by (auto simp: Let_def setState_def balance_def intro!: same)
  next
    case (MSelect idle)
    with t phase show ?thesis
      by (auto simp: main_select_def balance_def intro!: same split: if_splits chan_received.splits)
  next
    case (MReply r)
    obtain err w where w: "send_reply E r (k_w s) = (err, w)" by fastforce
    with MReply t phase have "t = s\<lparr>k_w := w, k_main := (if r_closeStream r then MDelete (r_id r) else MTop)\<rparr>"
      by (cases err) auto
    with MReply show ?thesis by (auto simp: balance_def intro!: same)
  next
    case MDec
    with t have "t = s\<lparr>k_active := k_active s - 1, k_main := MTop\<rparr>" by simp
    moreover from this MDec have "balance t = balance s - 1" by (simp add: balance_def)
    ultimately show ?thesis using books by (simp add: books_def)
  qed (use t phase in \<open>auto simp: balance_def intro!: same\<close>)
qed

text \<open>A call moves on, and the main loop takes what ends it.\<close>

lemma books_call:
  assumes "books s" "i < length (k_calls s)" "call_phase (k_calls s ! i) \<noteq> Ended"
    and "k_calls t = (k_calls s)[i := cl]" "k_active t = k_active s" "k_receiver t = k_receiver s"
    and "deleting (k_main t) = deleting (k_main s) + (if call_phase cl = Ended then 1 else 0)"
  shows "books t"
proof -
  have "balance t = balance s"
    using ended_update [OF assms(2,3), of cl] assms(4,6,7) by (simp add: balance_def)
  then show ?thesis by (rule books_same [OF assms(1,5)])
qed

lemma books_step:
  assumes "conn_step E s t" "polite_inv s" "\<forall>r. k_receiver t \<noteq> RSend r" "serving (k_main t)"
  shows "books t"
proof -
  have inv: "conn_inv s" and quiet: "\<forall>r. k_receiver s \<noteq> RSend r" and books: "serving (k_main s) \<Longrightarrow> books s"
    using assms(2) by (simp_all add: polite_inv_def)
  have same: "books t" if "k_main t = k_main s" "k_active t = k_active s" "k_calls t = k_calls s"
    "k_receiver t = k_receiver s"
    using that assms(4) by (intro books_same [OF books]) (simp_all add: balance_def)
  from assms(1) show ?thesis
  proof cases
    case (kn_receiver now pool)
    with assms(4) have "books s" by (simp add: receiver_next_main books)
    from books_receiver [OF assms(2) this kn_receiver assms(3)] show ?thesis ..
  next
    case kn_main
    then have "serving (k_main s)" using assms(4) by (cases "k_main s") auto
    from books_main [OF books [OF this] kn_main assms(4)] show ?thesis .
  next
    case (kn_status r b)
    with quiet show ?thesis by simp
  next
    case (kn_respond i r b)
    with books have "books s" by simp
    then show ?thesis
      by (rule books_call [OF _ kn_respond(2), where cl = "responded r (k_calls s ! i)"])
        (simp_all add: kn_respond responded_def)
  next
    case (kn_call i r)
    with assms(4) books have "books s" by simp
    then show ?thesis
      by (rule books_call [OF _ kn_call(2), where cl = "(k_calls s ! i)\<lparr>call_phase := Responding r\<rparr>"])
        (simp_all add: kn_call)
  next
    case (kn_give_up i r)
    with conn_invD(5) [OF inv] have "\<not> serving (k_main s)" by (auto simp: main_ok_def)
    with kn_give_up assms(4) show ?thesis by simp
  qed (rule same; simp add: conn_close_def set_handler_def)+
qed

lemma polite_inv_step:
  assumes "polite_step E s t" "polite_inv s"
  shows "polite_inv t"
  using assms books_step [of E s t] conn_inv_step [of E s t] by (auto simp: polite_step_def polite_inv_def)

interpretation polite_reach: step_invariant conn_started "polite_step E" polite_inv
proof unfold_locales
  show "conn_started s \<Longrightarrow> polite_inv s" for s
    using conn_reach.inv_start [of s]
    by (auto simp: polite_inv_def books_def balance_def ended_def conn_started_def)
qed (rule polite_inv_step)

section \<open>Closed executions\<close>

text \<open>A server with one unary and one streaming method, and a client that sends given frames.\<close>

definition example_env :: "(bytes, unit, unit) conn_env" where
  "example_env = \<lparr>e_grpc = example_grpc, e_proto = example_proto,
     e_services = example_service (\<lambda>ctx um w. ((AnyNil, None), w)), e_grow = (\<lambda>c n. n)\<rparr>"

definition fresh_conn :: "bytes \<Rightarrow> conn" where
  "fresh_conn bs = \<lparr>k_ctx = background, k_r = \<lparr>rd_rest = bs, rd_err = IoEOF\<rparr>,
     k_w = \<lparr>w_conn = example_conn, w_buf = [], w_err = None\<rparr>, k_buffers = [], k_store = example_store,
     k_shutdown = False, k_state = Some connStateIdle, k_local = connStateIdle,
     k_recvErr = make_chan 1, k_recvErrNil = False, k_done = False, k_streams = Map.empty,
     k_heap = [], k_active = 0, k_lastStreamID = 0, k_calls = [], k_receiver = RTop, k_main = MTop,
     k_registered = True, k_closed = False\<rparr>"

definition unary_frame :: message where
  "unary_frame = (\<lparr>Length = 4, StreamID = 1, Type = messageTypeRequest, Flags = 0\<rparr>,
     Some [1, 1, 115, 109])"

definition even_frame :: message where
  "even_frame = (\<lparr>Length = 0, StreamID = 2, Type = messageTypeData, Flags = 0\<rparr>, None)"

definition data_frame :: message where
  "data_frame = (\<lparr>Length = 1, StreamID = 1, Type = messageTypeData, Flags = 0\<rparr>, Some [9])"

lemma frames_ok: "message_ok unary_frame" "message_ok even_frame" "message_ok data_frame"
  by (simp_all add: message_ok_def unary_frame_def even_frame_def data_frame_def messageLengthMax_def)

lemma fresh_conn_started: "conn_started (fresh_conn bs)"
  by (auto simp: conn_started_def fresh_conn_def)

lemma receiver_frame_message:
  assumes "k_r c = \<lparr>rd_rest = encode_message m @ bs, rd_err = e\<rparr>" "message_ok m"
  shows "receiver_frame E now pool c =
    receiver_message E now (fst m) (snd m) (c\<lparr>k_r := \<lparr>rd_rest = bs, rd_err = e\<rparr>\<rparr>)"
  by (simp add: receiver_frame_def assms recv_encode)

lemma example_unary_handle:
  "handle (\<lambda>c n. n) now (e_services example_env) ctx
     \<lparr>Service = ''s'', Method = ''m'', Payload = None, TimeoutNano = 0, Metadata = []\<rparr> h =
   (HandleUnary (UnaryGo (\<lambda>ctx um w. ((AnyNil, None), w)) \<lparr>us_FullMethod = fullPath ''s'' ''m''\<rparr>
      \<lparr>Service = ''s'', Method = ''m'', Payload = None, TimeoutNano = 0, Metadata = []\<rparr>), h)"
  by (simp add: handle_def example_env_def example_service_def newServiceSet_def)

lemma unary_frame_message:
  assumes "k_lastStreamID c = 0"
  shows "receiver_message example_env now (fst unary_frame) (snd unary_frame) c =
    c\<lparr>k_lastStreamID := 1, k_buffers := snd unary_frame # k_buffers c,
      k_calls := k_calls c @ [\<lparr>call_id = 1, call_handler = None, call_streaming = False,
        call_phase = Running\<rparr>], k_store := k_store c, k_receiver := RStore 1 None\<rparr>"
proof -
  have "codec_Unmarshal example_proto (Some [1, 1, 115, 109]) (AnyMessage (Some (MRequest empty_request))) =
    Inr (AnyMessage (Some (MRequest
      \<lparr>Service = ''s'', Method = ''m'', Payload = None, TimeoutNano = 0, Metadata = []\<rparr>)))"
    by (simp add: codec_Unmarshal_def example_proto_def example_unmarshal_def bytes_str_def opt_bytes_def
        char_of_def bit_Suc_0_iff)
  then show ?thesis
    using assms example_unary_handle [unfolded example_env_def]
    by (simp add: receiver_message_def unary_frame_def message_consts receiver_request_def Let_def
        receiver_handle_def conn_put_buffer_def putmbuf_def start_call_def example_env_def)
qed

text \<open>The steps of an execution, with the frames still to come.\<close>

abbreviation ex_from :: "(conn \<Rightarrow> bool) \<Rightarrow> conn \<Rightarrow> bool" where
  "ex_from start \<equiv> reach start (conn_step example_env)"

abbreviation ex_reach :: "conn \<Rightarrow> bool" where
  "ex_reach \<equiv> ex_from conn_started"

lemma ex_receiver:
  "ex_from st s \<Longrightarrow> t \<in> set (receiver_next example_env 0 None (k_receiver s) s) \<Longrightarrow> ex_from st t"
  by (blast intro: reach_step kn_receiver)

lemma ex_main: "ex_from st s \<Longrightarrow> t \<in> set (main_next example_env (k_main s) s) \<Longrightarrow> ex_from st t"
  by (blast intro: reach_step kn_main)

definition weaker :: "(conn \<Rightarrow> conn \<Rightarrow> bool) \<Rightarrow> bool" where
  "weaker step \<longleftrightarrow> (\<forall>s t. polite_step example_env s t \<longrightarrow> k_shutdown t = k_shutdown s \<longrightarrow> step s t)"

lemma weaker_steps: "weaker (polite_step example_env)" "weaker (conn_step example_env)"
  by (simp_all add: weaker_def polite_step_def)

lemma ex_polite:
  "weaker step \<Longrightarrow> reach st step s \<Longrightarrow>
     t \<in> set (receiver_next example_env 0 None (k_receiver s) s) \<Longrightarrow>
     (\<forall>r. k_receiver t \<noteq> RSend r) \<and> k_shutdown t = k_shutdown s \<Longrightarrow> reach st step t"
  by (erule reach_step) (simp add: weaker_def polite_step_def kn_receiver)

text \<open>The receiver takes a unary request and the main loop has not moved.\<close>

definition called :: "bytes \<Rightarrow> conn \<Rightarrow> bool" where
  "called bs s \<longleftrightarrow> k_receiver s = RTop \<and> k_streams s 1 = Some None \<and> k_lastStreamID s = 1 \<and>
     k_calls s = [\<lparr>call_id = 1, call_handler = None, call_streaming = False, call_phase = Running\<rparr>] \<and>
     k_r s = \<lparr>rd_rest = bs, rd_err = IoEOF\<rparr> \<and> \<not> k_shutdown s \<and> \<not> k_done s"

lemma ex_call:
  assumes R: "weaker step" and 0: "reach st step s"
    and s: "k_receiver s = RTop" "k_lastStreamID s = 0" "k_calls s = []"
    "\<not> k_shutdown s" "\<not> k_done s" "k_r s = \<lparr>rd_rest = encode_message unary_frame @ bs, rd_err = IoEOF\<rparr>"
  shows "\<exists>t. reach st step t \<and> called bs t \<and> k_main t = k_main s \<and> k_active t = k_active s + 1 \<and>
    k_state t = k_state s \<and> k_local t = k_local s \<and> k_registered t = k_registered s"
proof -
  define s1 where "s1 = s\<lparr>k_receiver := RRecv\<rparr>"
  have 1: "reach st step s1"
    by (rule ex_polite [OF R 0]) (simp_all add: s s1_def)
  define s2 where "s2 = receiver_frame example_env 0 None s1"
  have s2: "s2 = s1\<lparr>k_r := \<lparr>rd_rest = bs, rd_err = IoEOF\<rparr>, k_lastStreamID := 1,
      k_buffers := snd unary_frame # k_buffers s1,
      k_calls := [\<lparr>call_id = 1, call_handler = None, call_streaming = False, call_phase = Running\<rparr>],
      k_store := k_store s1, k_receiver := RStore 1 None\<rparr>"
    unfolding s2_def
    by (subst receiver_frame_message [where m = unary_frame and bs = bs and e = IoEOF])
      (simp_all add: s1_def s frames_ok unary_frame_message)
  have "s2 \<in> set (receiver_next example_env 0 None (k_receiver s1) s1)"
    "(\<forall>r. k_receiver s2 \<noteq> RSend r) \<and> k_shutdown s2 = k_shutdown s1"
    by (simp add: s1_def s2_def, simp add: s2)
  from ex_polite [OF R 1 this] have 2: "reach st step s2" .
  define s3 where "s3 = s2\<lparr>k_streams := (k_streams s2)(1 \<mapsto> None), k_receiver := RAdd\<rparr>"
  have 3: "reach st step s3" by (rule ex_polite [OF R 2]) (simp_all add: s2 s3_def)
  have "reach st step (s3\<lparr>k_active := k_active s3 + 1, k_receiver := RTop\<rparr>)"
    by (rule ex_polite [OF R 3]) (simp_all add: s3_def)
  moreover have "called bs (s3\<lparr>k_active := k_active s3 + 1, k_receiver := RTop\<rparr>)"
    using s by (simp add: called_def s3_def s2 s1_def)
  ultimately show ?thesis
    by (intro exI [of _ "s3\<lparr>k_active := k_active s3 + 1, k_receiver := RTop\<rparr>"])
      (simp add: s3_def s2 s1_def)
qed

lemma ex_reply:
  assumes "ex_from st s" "k_main s = MReply r" "r_closeStream r" "\<not> r_streaming r" "healthy (k_w s)"
    "codec_Marshal example_proto (AnyMessage (Some (MResponse
       \<lparr>RStatus = r_status r, RPayload = r_data r\<rparr>))) = Inr (Some p)" "length p \<le> messageLengthMax"
  shows "\<exists>w. healthy w \<and> wc_sent (w_conn w) = wc_sent (w_conn (k_w s)) @ frame (r_id r) messageTypeResponse 0 (Some p) \<and>
    ex_from st (s\<lparr>k_w := w, k_streams := (k_streams s)(r_id r := None),
    k_active := k_active s - 1, k_main := MTop\<rparr>)"
proof -
  have "slice_len (Some p) \<le> messageLengthMax" using assms(7) by simp
  from send_healthy [OF assms(5) this] obtain w where
    w: "send (r_id r) messageTypeResponse 0 (Some p) (k_w s) = (None, w)" "healthy w"
    "wc_sent (w_conn w) = wc_sent (w_conn (k_w s)) @ frame (r_id r) messageTypeResponse 0 (Some p)" by blast
  have "Proto example_grpc st = st" for st by (simp add: example_grpc_def)
  with w(1) assms(4,6) have "send_reply example_env r (k_w s) = (None, w)"
    by (simp add: send_reply_def example_env_def)
  with assms(2,3) have 1: "ex_from st (s\<lparr>k_w := w, k_main := MDelete (r_id r)\<rparr>)"
    by (intro ex_main [OF assms(1)]) simp
  have "ex_from st (s\<lparr>k_w := w, k_main := MDec, k_streams := (k_streams s)(r_id r := None)\<rparr>)"
    by (rule ex_main [OF 1]) simp
  from ex_main [OF this, of "s\<lparr>k_w := w, k_streams := (k_streams s)(r_id r := None),
    k_active := k_active s - 1, k_main := MTop\<rparr>"] w(2,3) show ?thesis by (intro exI [of _ w]) simp
qed

lemma ex_select:
  assumes "ex_from st s" "k_main s = MTop" "k_local s = connStateIdle" "\<not> 0 < sint (k_active s)"
  shows "ex_from st (s\<lparr>k_main := MSelect True\<rparr>)"
  by (rule ex_main [OF assms(1)]) (use assms in \<open>simp add: Let_def\<close>)

section \<open>Properties\<close>

text \<open>
  Claim C28. A connection is well formed at all times. It starts at most one call for an identifier: the
  identifiers of its calls are odd and strictly increasing in the order the calls were started, and
  every response a call is sending carries its own identifier. The stream handlers that its map
  points to exist, none has more messages queued than it has room for, and the queue of a handler is
  closed exactly when its client has closed the stream.
\<close>

theorem conn_one_call_per_stream:
  assumes "reach conn_started (conn_step E) s"
  shows "sorted_wrt (<) (map call_id (k_calls s)) \<and>
    (\<forall>cl \<in> set (k_calls s). odd (unat (call_id cl)) \<and> call_id cl \<le> k_lastStreamID s \<and>
       (\<forall>r. call_phase cl = Responding r \<longrightarrow> r_id r = call_id cl)) \<and>
    (\<forall>sid ref. k_streams s sid = Some (Some ref) \<longrightarrow> ref < length (k_heap s)) \<and>
    (\<forall>sh \<in> set (k_heap s). length (chan_buf (sh_recv sh)) \<le> chan_cap (sh_recv sh) \<and>
       (chan_closed (sh_recv sh) \<longleftrightarrow> sh_remoteClosed sh))"
  using conn_invD(1,2) [OF conn_reach.inv_reach [OF assms]]
  by (auto simp: calls_ok_def handlers_ok_def handler_ok_def handler_view all_set_conv_all_nth)

lemma ex_one_call:
  assumes "weaker step"
  shows "\<exists>s. reach conn_started step s \<and> called bs s \<and> k_main s = MTop \<and> k_active s = 1"
proof -
  let ?s = "fresh_conn (encode_message unary_frame @ bs)"
  have "reach conn_started step ?s" by (rule reach_start) (rule fresh_conn_started)
  from ex_call [OF assms this, of bs] show ?thesis by (auto simp: fresh_conn_def)
qed

theorem conn_one_call_per_stream_witness:
  "\<exists>s. called [] s \<and> odd (unat (call_id (hd (k_calls s))))"
proof -
  from ex_one_call [OF weaker_steps(2)] obtain s where s: "ex_reach s" "called [] s" by blast
  from conn_one_call_per_stream [OF s(1)] s(2) show ?thesis by (auto simp: called_def)
qed



text \<open>A connection that has answered a request with an even identifier, and has a proper one to read.\<close>

lemma ex_error_reply:
  "\<exists>w. ex_reach ((fresh_conn (encode_message even_frame @ encode_message unary_frame))
     \<lparr>k_r := \<lparr>rd_rest = encode_message unary_frame, rd_err = IoEOF\<rparr>, k_receiver := RTop, k_w := w,
      k_streams := (k_streams (fresh_conn (encode_message even_frame @ encode_message unary_frame)))(2 := None),
      k_active := k_active (fresh_conn (encode_message even_frame @ encode_message unary_frame)) - 1,
      k_main := MTop\<rparr>)"
proof -
  let ?s0 = "fresh_conn (encode_message even_frame @ encode_message unary_frame)"
  define s0 where "s0 = ?s0"
  let ?r = "\<lparr>rd_rest = encode_message unary_frame, rd_err = IoEOF\<rparr>"
  define bad where "bad = status_response 2 (Some (Status InvalidArgument
    ''StreamID must be odd for client initiated streams''))"
  have 0: "ex_reach s0" unfolding s0_def by (rule reach_start) (rule fresh_conn_started)
  have 1: "ex_reach (s0\<lparr>k_main := MSelect True\<rparr>)"
    by (rule ex_select [OF 0]) (simp_all add: s0_def fresh_conn_def)
  have 2: "ex_reach (s0\<lparr>k_main := MSelect True, k_receiver := RRecv\<rparr>)"
    by (rule ex_receiver [OF 1]) (simp add: s0_def fresh_conn_def)
  let ?s = "s0\<lparr>k_main := MSelect True, k_receiver := RRecv\<rparr>"
  have "receiver_frame example_env 0 None ?s = ?s\<lparr>k_r := ?r, k_receiver := RSend bad\<rparr>"
    by (subst receiver_frame_message [OF _ frames_ok(2), where bs = "encode_message unary_frame" and e = IoEOF])
      (simp add: s0_def fresh_conn_def,
       simp add: s0_def fresh_conn_def receiver_message_def even_frame_def invalid_def bad_def)
  then have 3: "ex_reach (?s\<lparr>k_r := ?r, k_receiver := RSend bad\<rparr>)" (is "ex_reach ?s3")
    by (intro ex_receiver [OF 2]) simp
  have "conn_step example_env ?s3 (?s3\<lparr>k_receiver := RTop, k_main := MReply bad\<rparr>)"
    by (rule kn_status) simp_all
  from reach_step [OF 3 this]
  have 4: "ex_reach (s0\<lparr>k_r := ?r, k_receiver := RTop, k_main := MReply bad\<rparr>)" by simp
  have bad: "r_closeStream bad" "\<not> r_streaming bad" "r_id bad = 2" "codec_Marshal example_proto (AnyMessage
      (Some (MResponse \<lparr>RStatus = r_status bad, RPayload = r_data bad\<rparr>))) =
    Inr (Some (4 # 49 # str_bytes ''StreamID must be odd for client initiated streams''))"
    by (simp_all add: bad_def codec_Marshal_def example_proto_def example_marshal_def status_response_def
        code_names_def)
  moreover have "healthy (k_w s0)" by (simp add: s0_def fresh_conn_def healthy_def example_conn_def)
  ultimately obtain w where
    5: "ex_reach (s0\<lparr>k_r := ?r, k_receiver := RTop, k_w := w, k_streams := (k_streams s0)(2 := None),
      k_active := k_active s0 - 1, k_main := MTop\<rparr>)"
    using ex_reply [OF 4, of bad] by (auto simp: messageLengthMax_def)
  then show ?thesis unfolding s0_def by blast
qed


lemma ex_data_panics:
  "\<exists>s t. reach conn_started (conn_step example_env) s \<and> k_receiver s = RRecv \<and>
     k_r s = \<lparr>rd_rest = encode_message data_frame, rd_err = IoEOF\<rparr> \<and>
     conn_step example_env s t \<and> k_receiver t = RPanic"
proof -
  from ex_one_call [OF weaker_steps(2), of "encode_message data_frame"] obtain s where
    s: "ex_reach s" "called (encode_message data_frame) s" by blast
  let ?s = "s\<lparr>k_receiver := RRecv\<rparr>"
  have 1: "ex_reach ?s"
    by (rule ex_receiver [OF s(1)]) (use s(2) in \<open>simp add: called_def\<close>)
  have "k_receiver (receiver_frame example_env 0 None ?s) = RPanic"
    using s(2)
    by (subst receiver_frame_message [OF _ frames_ok(3), where bs = "[]" and e = IoEOF])
      (simp add: called_def,
       simp add: called_def receiver_message_def data_frame_def receiver_data_def has_flag_def message_consts)
  with kn_receiver [of _ example_env 0 None ?s] 1 s(2) show ?thesis
    by (intro exI [of _ ?s] exI [of _ "receiver_frame example_env 0 None ?s"]) (simp add: called_def)
qed

text \<open>
  A data message on a unary stream crashes the server: the stream's entry holds a nil
  handler, and the receiver dereferences it.
\<close>

lemma unary_data_panics:
  "\<exists>s t. reach conn_started (conn_step example_env) s \<and> k_receiver s = RRecv \<and>
     k_r s = \<lparr>rd_rest = encode_message data_frame, rd_err = IoEOF\<rparr> \<and>
     conn_step example_env s t \<and> k_receiver t = RPanic"
  by (rule ex_data_panics)

text \<open>The main loop goes to its \<open>select\<close>, and then the receiver takes a unary request.\<close>

lemma ex_running_idle:
  assumes "weaker step" "st (fresh_conn (encode_message unary_frame))"
  shows "\<exists>t. reach st step t \<and> called [] t \<and> k_main t = MSelect True \<and> k_active t = 1 \<and>
    k_state t = Some connStateIdle \<and> k_registered t"
proof -
  define s0 where "s0 = fresh_conn (encode_message unary_frame)"
  have 0: "reach st step s0" unfolding s0_def by (rule reach_start [of st, OF assms(2)])
  have "conn_step example_env s0 (s0\<lparr>k_main := MSelect True\<rparr>)"
    by (rule kn_main) (simp add: s0_def fresh_conn_def Let_def)
  with assms(1) have "step s0 (s0\<lparr>k_main := MSelect True\<rparr>)"
    by (simp add: weaker_def polite_step_def s0_def fresh_conn_def)
  with reach_step [OF 0] have 1: "reach st step (s0\<lparr>k_main := MSelect True\<rparr>)" by blast
  from ex_call [OF assms(1) 1, of "[]"] show ?thesis by (auto simp: s0_def fresh_conn_def)
qed

text \<open>
  A graceful shutdown can abort a call, even of a client that breaks no rule: the main loop
  decided that the connection is idle before the request came, nothing wakes it up when the receiver
  counts the call, and so the connection's state stays idle while the call runs. \<open>closeIdleConns\<close>
  closes such a connection, and its main loop may return at once.
\<close>

lemma shutdown_aborts_first_call:
  "\<exists>s. reach conn_started (polite_step example_env) s \<and> sint (k_active s) = 1 \<and> outstanding s = 1 \<and>
     call_phase (hd (k_calls s)) = Running \<and> getState s = Some connStateIdle \<and> k_registered s \<and>
     (\<exists>t \<in> set (main_next example_env (k_main s) ((conn_close s)\<lparr>k_registered := False\<rparr>)). k_main t = MReturn)"
proof -
  from ex_running_idle [of "polite_step example_env" conn_started, OF weaker_steps(1) fresh_conn_started]
  obtain t where t: "reach conn_started (polite_step example_env) t" "called [] t" "k_main t = MSelect True"
      "k_active t = 1" "k_state t = Some connStateIdle" "k_registered t" by blast
  then show ?thesis
    by (intro exI [of _ t])
      (auto simp: called_def outstanding_def ended_def getState_def conn_close_def main_select_def)
qed

section \<open>How a connection ends\<close>

text \<open>The only way for the receiver to panic.\<close>

definition panicking_frame :: "bytes option \<Rightarrow> conn \<Rightarrow> bool" where
  "panicking_frame pool s \<longleftrightarrow>
     (case recv pool (k_r s) of
        ((mh, p, err), r) \<Rightarrow> err = None \<and> StreamID mh mod 2 = 1 \<and> Type mh = messageTypeData \<and>
          k_streams s (StreamID mh) = Some None \<and>
          (\<not> has_flag (Flags mh) flagNoData \<or> has_flag (Flags mh) flagRemoteClosed))"

lemma receiver_close_phase:
  "k_receiver (receiver_close mh p ref c) = RTop \<or>
   (\<exists>msg. k_receiver (receiver_close mh p ref c) = invalid (StreamID mh) msg)"
  by (auto simp: receiver_close_def Let_def)

lemma receiver_handle_phase: "k_receiver (receiver_handle E now sid req c) \<noteq> RPanic"
  by (auto simp: receiver_handle_def Let_def split: prod.splits handled.splits option.splits)

lemma receiver_frame_panics:
  assumes "k_receiver (receiver_frame E now pool s) = RPanic"
  shows "panicking_frame pool s"
proof -
  have close: "k_receiver (receiver_close mh p ref c) \<noteq> RPanic" for mh p ref c
    using receiver_close_phase [of mh p ref c] by auto
  have req: "k_receiver (receiver_request E now mh p c) \<noteq> RPanic" for mh p c
    by (auto simp: receiver_request_def Let_def receiver_handle_phase split: sum.splits)
  obtain mh p err r where r: "recv pool (k_r s) = ((mh, p, err), r)" by (metis surj_pair)
  show ?thesis
  proof (cases err)
    case None
    with assms r have "k_receiver (receiver_message E now mh p (s\<lparr>k_r := r\<rparr>)) = RPanic"
      by (simp add: receiver_frame_def)
    with close req have "StreamID mh mod 2 = 1" "Type mh = messageTypeData"
      "k_receiver (receiver_data mh p (s\<lparr>k_r := r\<rparr>)) = RPanic"
      by (auto simp: receiver_message_def invalid_def split: if_splits)
    with close r None show ?thesis
      by (auto simp: panicking_frame_def receiver_data_def invalid_def split: option.splits if_splits)
  next
    case (Some e)
    with assms r show ?thesis by (auto simp: receiver_frame_def Let_def split: prod.splits if_splits)
  qed
qed

text \<open>What the main loop leaves to the receiver and to the calls.\<close>

lemma main_next_keeps:
  assumes "t \<in> set (main_next E (k_main s) s)"
  shows "k_receiver t = k_receiver s \<and> k_calls t = k_calls s \<and> k_lastStreamID t = k_lastStreamID s"
proof (cases "k_main s")
  case MTop
  with assms show ?thesis by (simp add: Let_def setState_def)
next
  case (MSelect idle)
  with assms show ?thesis by (auto simp: main_select_def split: if_splits chan_received.splits)
next
  case (MReply r)
  obtain err w where "send_reply E r (k_w s) = (err, w)" by fastforce
  with MReply assms show ?thesis by (cases err) auto
qed (use assms in simp_all)

text \<open>
  Claim C12. The server panics on one occasion only: when it is sent a data message, with data or
  with the flag remote closed, on a stream that belongs to a unary call. In particular sending on
  \<open>recvErr\<close>, queueing a message for a handler and closing its queue never panic, however the
  goroutines interleave.
\<close>

theorem only_unary_data_panics:
  assumes "reach conn_started (conn_step E) s" and "conn_step E s t"
    and "k_receiver s \<noteq> RPanic" and "k_receiver t = RPanic"
  shows "k_receiver s = RRecv \<and> (\<exists>pool. panicking_frame pool s)"
proof -
  have inv: "conn_inv s" using conn_reach.inv_reach [OF assms(1)] .
  from assms(2) show ?thesis
  proof cases
    case (kn_receiver now pool)
    have inv': "conn_inv t" using conn_inv_step [OF assms(2) inv] .
    show ?thesis
    proof (cases "k_receiver s")
      case RRecv
      then have "k_receiver (receiver_frame E now pool s) = RPanic" using kn_receiver assms(4) by simp
      from receiver_frame_panics [OF this] RRecv show ?thesis by blast
    next
      case (RData ref msg ph)
      have "ph \<noteq> DataPanic" using conn_invD(3) [OF inv] RData by (auto simp: receiver_ok_def data_ok_def)
      with kn_receiver RData assms(4) receiver_close_phase [of "fst msg" "snd msg" ref s] show ?thesis
        by (cases "\<exists>err. ph = DataReturn err")
          (auto simp: receiver_next_data invalid_def split: option.splits)
    next
      case (RHandle sid ref p ph)
      have "ph \<noteq> DataPanic" using conn_invD(3) [OF inv] RHandle by (auto simp: receiver_ok_def data_ok_def)
      with kn_receiver RHandle assms(4) show ?thesis
        by (cases "\<exists>err. ph = DataReturn err") (auto simp: receiver_next_data split: option.splits)
    next
      case (RErr e)
      with recvErr_okD [OF conn_invD(4) [OF inv]] kn_receiver assms(4) show ?thesis
        by (simp add: chan_send_def)
    qed (use kn_receiver assms(3,4) in \<open>auto split: if_splits\<close>)
  next
    case kn_main
    from main_next_keeps [OF this] assms(3,4) show ?thesis by simp
  qed (use assms(3,4) in \<open>simp_all add: conn_close_def split: if_splits\<close>)
qed

theorem only_unary_data_panics_witness:
  "\<exists>s t pool. conn_step example_env s t \<and> k_receiver t = RPanic \<and> panicking_frame pool s"
proof -
  from ex_data_panics obtain s t where s: "ex_reach s" "conn_step example_env s t"
    "k_receiver s = RRecv" "k_receiver t = RPanic" by blast
  from s(3) have "k_receiver s \<noteq> RPanic" by simp
  from only_unary_data_panics [OF s(1,2) this s(4)] s(2,4) show ?thesis by blast
qed

text \<open>
  After \<open>done\<close> is closed: a bound on the steps the receiver still makes. Every other goroutine leaves
  the bound as it is.
\<close>

definition receiver_rank :: "receiver \<Rightarrow> nat" where
  "receiver_rank ph =
     (case ph of
        RRecv \<Rightarrow> 9 | RHandle sid ref p dp \<Rightarrow> 5 + data_rank dp | RData ref msg dp \<Rightarrow> 3 + data_rank dp
      | RStore sid ref \<Rightarrow> 4 | RAdd \<Rightarrow> 3 | RTop \<Rightarrow> 2 | RSend r \<Rightarrow> 2 | RErr e \<Rightarrow> 2 | RExit \<Rightarrow> 1
      | REnd \<Rightarrow> 0 | RPanic \<Rightarrow> 0)"

lemma receiver_frame_rank: "receiver_rank (k_receiver (receiver_frame E now pool s)) < 9"
proof -
  have close: "receiver_rank (k_receiver (receiver_close mh p ref c)) < 9" for mh p ref c
    using receiver_close_phase [of mh p ref c] by (auto simp: receiver_rank_def invalid_def)
  have hdl: "receiver_rank (k_receiver (receiver_handle E now sid req c)) < 9" for sid req c
    by (auto simp: receiver_handle_def Let_def receiver_rank_def data_rank_def
        split: prod.splits handled.splits option.splits)
  have "receiver_rank (k_receiver (receiver_request E now mh p c)) < 9" for mh p c
    by (auto simp: receiver_request_def Let_def hdl invalid_def receiver_rank_def [of "RSend r" for r]
        split: sum.splits)
  moreover have "receiver_rank (k_receiver (receiver_data mh p c)) < 9" for mh p c
    using close by (auto simp: receiver_data_def invalid_def receiver_rank_def data_rank_def split: option.splits)
  ultimately have "receiver_rank (k_receiver (receiver_message E now mh p c)) < 9" for mh p c
    by (auto simp: receiver_message_def invalid_def receiver_rank_def [of "RSend r" for r]
        receiver_rank_def [of RTop])
  then show ?thesis
    by (auto simp: receiver_frame_def Let_def receiver_rank_def [of "RSend r" for r]
        receiver_rank_def [of "RErr r" for r] split: prod.splits option.splits)
qed

lemma receiver_ends_rank:
  assumes "conn_inv s" "k_done s" "t \<in> set (receiver_next E now pool (k_receiver s) s)"
  shows "receiver_rank (k_receiver t) < receiver_rank (k_receiver s)"
proof (cases "k_receiver s")
  case RRecv
  with receiver_frame_rank assms(3) show ?thesis by (simp add: receiver_rank_def [of RRecv])
next
  case (RData ref msg ph)
  have dp: "ph \<noteq> DataPanic" using conn_invD(3) [OF assms(1)] RData by (auto simp: receiver_ok_def data_ok_def)
  show ?thesis
  proof (cases "\<exists>err. ph = DataReturn err")
    case True
    with assms(3) RData receiver_close_phase [of "fst msg" "snd msg" ref s] show ?thesis
      by (auto simp: receiver_rank_def invalid_def split: option.splits)
  next
    case False
    with dp assms(3) RData show ?thesis
      by (auto simp: receiver_next_data receiver_rank_def dest: dwait.rank_law)
  qed
next
  case (RHandle sid ref p ph)
  have dp: "ph \<noteq> DataPanic" using conn_invD(3) [OF assms(1)] RHandle by (auto simp: receiver_ok_def data_ok_def)
  show ?thesis
  proof (cases "\<exists>err. ph = DataReturn err")
    case True
    with assms(3) RHandle show ?thesis by (auto simp: receiver_rank_def split: option.splits)
  next
    case False
    with dp assms(3) RHandle show ?thesis
      by (auto simp: receiver_next_data receiver_rank_def dest: dwait.rank_law)
  qed
qed (use assms in \<open>auto simp: receiver_rank_def split: if_splits chan_sent.splits\<close>)

lemma receiver_enabled:
  assumes "conn_inv s" "k_done s" "receiver_next E now pool (k_receiver s) s = []"
  shows "k_receiver s = REnd \<or> k_receiver s = RPanic"
proof (cases "k_receiver s")
  case (RData ref msg ph)
  with assms(3) dwait.enabled_law [of ph "snd msg" "k_heap s ! ref"] show ?thesis
    by (cases ph) (auto simp: data_rank_def receiver_next_data)
next
  case (RHandle sid ref p ph)
  with assms(3) dwait.enabled_law [of ph p "k_heap s ! ref"] show ?thesis
    by (cases ph) (auto simp: data_rank_def receiver_next_data)
next
  case (RErr e)
  with recvErr_okD [OF conn_invD(4) [OF assms(1)]] assms(3) show ?thesis by (simp add: chan_send_def)
qed (use assms in auto)

text \<open>An execution with the number of steps that the receiver makes in it.\<close>

inductive conn_run :: "('u, 'w, 'ss) conn_env \<Rightarrow> nat \<Rightarrow> conn \<Rightarrow> conn \<Rightarrow> bool"
  for E :: "('u, 'w, 'ss) conn_env" where
  run_end: "conn_run E 0 s s"
| run_receiver: "t \<in> set (receiver_next E now pool (k_receiver s) s) \<Longrightarrow> conn_run E n t u \<Longrightarrow>
     conn_run E (Suc n) s u"
| run_other: "conn_step E s t \<Longrightarrow> k_receiver t = k_receiver s \<Longrightarrow> conn_run E n t u \<Longrightarrow> conn_run E n s u"

lemma done_stays:
  assumes "conn_step E s t" "conn_inv s" "k_done s"
  shows "k_done t"
proof -
  have inv: "main_ok s" "main_ok t" using assms conn_inv_step conn_invD(5) by blast+
  have "k_main s \<in> {MCancel, MClose, MEnd} \<Longrightarrow> k_main t \<in> {MCancel, MClose, MEnd}"
    using assms(1) by cases (auto dest: receiver_next_main simp: set_handler_def conn_close_def)
  with inv assms(3) show ?thesis by (simp add: main_ok_def)
qed


text \<open>An idle connection that is shut down runs its deferred calls.\<close>

lemma ex_idle_end:
  assumes "ex_reach s" "k_main s = MTop" "k_local s = connStateIdle" "k_active s = 0" "k_shutdown s"
  shows "\<exists>t. ex_reach t \<and> k_main t = MEnd \<and> k_done t \<and> k_receiver t = k_receiver s"
proof -
  let ?down = "\<lambda>ph. s\<lparr>k_main := ph, k_registered := False\<rparr>"
  have "ex_reach (s\<lparr>k_main := MSelect True\<rparr>)" by (rule ex_select) (use assms in simp_all)
  then have "ex_reach (s\<lparr>k_main := MReturn\<rparr>)"
    by (rule ex_main) (use assms(5) in \<open>simp add: main_select_def\<close>)
  then have "ex_reach (?down MDone)" by (rule ex_main) simp
  then have "ex_reach ((?down MCancel)\<lparr>k_done := True\<rparr>)" by (rule ex_main) simp
  then have "ex_reach ((?down MClose)\<lparr>k_done := True, k_ctx := cancel_ctx (k_ctx s),
      k_heap := map (\<lambda>sh. sh\<lparr>sh_ctx := cancel_ctx (sh_ctx sh)\<rparr>) (k_heap s)\<rparr>)" (is "ex_reach ?t")
    by (rule ex_main) simp
  then have "ex_reach (?t\<lparr>k_closed := True, k_main := MEnd\<rparr>)" by (rule ex_main) simp
  then show ?thesis by (intro exI [of _ "?t\<lparr>k_closed := True, k_main := MEnd\<rparr>"]) simp
qed


text \<open>
  Claim C39. After an error of the network that is none of EOF, unexpected EOF and connection reset, an
  idle connection is never closed by itself: its receiver has ended, the main loop waits for a
  shutdown that nobody has asked for, and the only step left is the one by which the server closes
  the connection.
\<close>

theorem receive_error_leaves_connection:
  "\<exists>s. reach conn_started (conn_step example_env) s \<and> k_receiver s = REnd \<and> k_calls s = [] \<and>
     k_registered s \<and> \<not> k_closed s \<and>
     {t. conn_step example_env s t} = {(conn_close s)\<lparr>k_registered := False\<rparr>}"
proof -
  let ?e = "Errno (OtherErrno 110 ''connection timed out'')"
  let ?r = "\<lparr>rd_rest = [], rd_err = ?e\<rparr>"
  define s0 where "s0 = (fresh_conn [])\<lparr>k_r := ?r\<rparr>"
  have 0: "ex_reach s0" by (rule reach_start) (auto simp: conn_started_def fresh_conn_def s0_def)
  have 1: "ex_reach (s0\<lparr>k_receiver := RRecv\<rparr>)"
    by (rule ex_receiver [OF 0]) (simp add: s0_def fresh_conn_def)
  have "receiver_frame example_env 0 None (s0\<lparr>k_receiver := RRecv\<rparr>) = s0\<lparr>k_receiver := RErr ?e\<rparr>"
  proof -
    have "recv None ?r = ((zero_header, None, Some ?e), ?r)"
      by (simp add: recv_def readMessageHeader_def ReadFull_def messageHeaderLength_def)
    moreover have "FromError (e_grpc example_env) (Some ?e) = (Some (Status Unknown ''''), False)"
      by (simp add: example_env_def example_grpc_def)
    ultimately show ?thesis
      by (simp add: receiver_frame_def s0_def fresh_conn_def Let_def)
  qed
  then have 2: "ex_reach (s0\<lparr>k_receiver := RErr ?e\<rparr>)" by (intro ex_receiver [OF 1]) simp
  let ?ch = "\<lparr>chan_cap = 1, chan_buf = [?e], chan_closed = False\<rparr>"
  have 3: "ex_reach (s0\<lparr>k_recvErr := ?ch, k_receiver := RExit\<rparr>)"
    by (rule ex_receiver [OF 2]) (simp add: s0_def fresh_conn_def chan_send_def make_chan_def)
  let ?closed = "\<lparr>chan_cap = 1, chan_buf = [?e], chan_closed = True\<rparr>"
  have 4: "ex_reach (s0\<lparr>k_recvErr := ?closed, k_receiver := REnd\<rparr>)"
    by (rule ex_receiver [OF 3]) (simp add: chan_close_def)
  have 5: "ex_reach (s0\<lparr>k_recvErr := ?closed, k_receiver := REnd, k_main := MSelect True\<rparr>)"
    by (rule ex_main [OF 4]) (simp add: s0_def fresh_conn_def Let_def)
  let ?drained = "\<lparr>chan_cap = 1, chan_buf = [], chan_closed = True\<rparr>"
  have 6: "ex_reach (s0\<lparr>k_recvErr := ?drained, k_receiver := REnd, k_recvErrNil := True, k_main := MTop\<rparr>)"
    by (rule ex_main [OF 5])
      (simp add: s0_def fresh_conn_def main_select_def chan_recv_def is_gone_def)
  let ?s = "s0\<lparr>k_recvErr := ?drained, k_receiver := REnd, k_recvErrNil := True, k_main := MSelect True\<rparr>"
  have 7: "ex_reach ?s"
    by (rule ex_main [OF 6]) (simp add: s0_def fresh_conn_def Let_def)
  have "conn_step example_env ?s t \<longleftrightarrow> t = (conn_close ?s)\<lparr>k_registered := False\<rparr>" for t
    by (subst conn_step.simps) (auto simp: s0_def fresh_conn_def main_select_def)
  then have "{t. conn_step example_env ?s t} = {(conn_close ?s)\<lparr>k_registered := False\<rparr>}" by blast
  with 7 show ?thesis by (intro exI [of _ ?s]) (simp add: s0_def fresh_conn_def)
qed

section \<open>What a connection promises\<close>

text \<open>
  The contract of a connection with its clients: the identifiers of the requests grow and are odd,
  a request opens a call or is refused, and an open call ends once. The state is the last identifier
  and the set of the open calls.
\<close>

type_synonym protocol = "u32 \<times> u32 set"

definition protocol_start :: "protocol \<Rightarrow> bool" where
  "protocol_start p \<longleftrightarrow> p = (0, {})"

inductive protocol_step :: "protocol \<Rightarrow> protocol \<Rightarrow> bool" where
  call_opens: "latest < sid \<Longrightarrow> odd (unat sid) \<Longrightarrow> protocol_step (latest, live) (sid, insert sid live)"
| call_refused: "latest < sid \<Longrightarrow> odd (unat sid) \<Longrightarrow> protocol_step (latest, live) (sid, live)"
| call_ends: "sid \<in> live \<Longrightarrow> protocol_step (latest, live) (latest, live - {sid})"

definition live_calls :: "call list \<Rightarrow> u32 set" where
  "live_calls cls = call_id ` set (filter (\<lambda>cl. call_phase cl \<noteq> Ended) cls)"

definition protocol_view :: "conn \<Rightarrow> protocol" where
  "protocol_view s = (k_lastStreamID s, live_calls (k_calls s))"

lemma live_calls_simps [simp]:
  "live_calls [] = {}"
  "live_calls (cl # cls) =
     (if call_phase cl = Ended then live_calls cls else insert (call_id cl) (live_calls cls))"
  by (auto simp: live_calls_def)

lemma live_calls_subset: "x \<in> live_calls cls \<Longrightarrow> x \<in> call_id ` set cls"
  by (auto simp: live_calls_def)

lemma live_calls_update:
  assumes "distinct (map call_id cls)" "i < length cls" "call_phase (cls ! i) \<noteq> Ended"
  shows "live_calls (cls[i := (cls ! i)\<lparr>call_phase := ph\<rparr>]) =
    (if ph = Ended then live_calls cls - {call_id (cls ! i)} else live_calls cls)"
  using assms
proof (induction cls arbitrary: i)
  case (Cons cl cls)
  show ?case
  proof (cases i)
    case 0
    with Cons.prems show ?thesis by (auto dest: live_calls_subset)
  next
    case (Suc j)
    then have "call_id (cls ! j) \<in> call_id ` set cls" using Cons.prems(2) by simp
    with Cons.prems(1) have "call_id (cls ! j) \<noteq> call_id cl" by auto
    with Cons.IH [of j] Cons.prems Suc show ?thesis by auto
  qed
qed simp

lemma live_calls_append:
  "call_phase cl = Running \<Longrightarrow> live_calls (cls @ [cl]) = insert (call_id cl) (live_calls cls)"
  by (simp add: live_calls_def)

lemma live_calls_mem:
  "i < length cls \<Longrightarrow> call_phase (cls ! i) \<noteq> Ended \<Longrightarrow> call_id (cls ! i) \<in> live_calls cls"
  by (auto simp: live_calls_def)

lemma calls_ok_distinct: "calls_ok s \<Longrightarrow> distinct (map call_id (k_calls s))"
  by (auto simp: calls_ok_def strict_sorted_iff)

lemma one_call_view:
  assumes "calls_ok s" "i < length (k_calls s)" "call_phase (k_calls s ! i) \<noteq> Ended"
    "k_lastStreamID t = k_lastStreamID s" "k_calls t = (k_calls s)[i := (k_calls s ! i)\<lparr>call_phase := ph\<rparr>]"
  shows "protocol_step (protocol_view s) (protocol_view t) \<or> protocol_view t = protocol_view s"
  using live_calls_update [OF calls_ok_distinct [OF assms(1)] assms(2,3), of ph]
    live_calls_mem [OF assms(2,3)] assms(4,5)
  by (auto simp: protocol_view_def intro: call_ends)

text \<open>What a received frame may do to the calls.\<close>

definition request_effect :: "conn \<Rightarrow> conn \<Rightarrow> bool" where
  "request_effect s t \<longleftrightarrow>
     k_lastStreamID t = k_lastStreamID s \<and> k_calls t = k_calls s \<or>
     k_lastStreamID s < k_lastStreamID t \<and> odd (unat (k_lastStreamID t)) \<and>
       (k_calls t = k_calls s \<or>
        (\<exists>cl. k_calls t = k_calls s @ [cl] \<and> call_id cl = k_lastStreamID t \<and> call_phase cl = Running))"

lemma request_effect_same:
  "k_lastStreamID t = k_lastStreamID s \<Longrightarrow> k_calls t = k_calls s \<Longrightarrow> request_effect s t"
  by (simp add: request_effect_def)

lemma request_effect_view:
  "request_effect s t \<Longrightarrow>
     protocol_step (protocol_view s) (protocol_view t) \<or> protocol_view t = protocol_view s"
  by (auto simp: request_effect_def protocol_view_def live_calls_append intro: call_opens call_refused)

lemma receiver_close_same:
  "k_lastStreamID (receiver_close mh p ref c) = k_lastStreamID c" "k_calls (receiver_close mh p ref c) = k_calls c"
  by (simp_all add: receiver_close_def Let_def)

lemma receiver_data_same:
  "k_lastStreamID (receiver_data mh p c) = k_lastStreamID c" "k_calls (receiver_data mh p c) = k_calls c"
  by (simp_all add: receiver_data_def receiver_close_same split: option.split)

lemma receiver_handle_calls:
  "k_lastStreamID (receiver_handle E now sid req c) = k_lastStreamID c \<and>
   (k_calls (receiver_handle E now sid req c) = k_calls c \<or>
    (\<exists>cl. k_calls (receiver_handle E now sid req c) = k_calls c @ [cl] \<and> call_id cl = sid \<and>
       call_phase cl = Running))"
  by (auto simp: receiver_handle_def start_call_def Let_def split: prod.splits handled.splits option.splits)

lemma receiver_request_effect:
  assumes "StreamID mh mod 2 = 1"
  shows "request_effect c (receiver_request E now mh p c)"
  using odd_word [OF assms] receiver_handle_calls [of E now "StreamID mh" _
      "conn_put_buffer p (c\<lparr>k_lastStreamID := StreamID mh\<rparr>)"]
  by (auto simp: receiver_request_def Let_def request_effect_def conn_put_buffer_def not_le split: sum.splits)

lemma receiver_frame_effect: "request_effect s (receiver_frame E now pool s)"
proof -
  have "request_effect s (receiver_message E now mh p (s\<lparr>k_r := r\<rparr>))" for mh p r
    using receiver_request_effect [of mh "s\<lparr>k_r := r\<rparr>" E now p]
    by (auto simp: receiver_message_def request_effect_def receiver_data_same)
  then show ?thesis
    by (auto simp: receiver_frame_def Let_def intro!: request_effect_same split: prod.splits option.splits)
qed

lemma receiver_next_effect:
  assumes "conn_inv s" "t \<in> set (receiver_next E now pool (k_receiver s) s)"
  shows "request_effect s t"
proof (cases "k_receiver s")
  case RRecv
  with assms(2) receiver_frame_effect show ?thesis by simp
next
  case (RData ref msg ph)
  with assms have "ph \<noteq> DataPanic" by (auto simp: conn_inv_def receiver_ok_def data_ok_def)
  with RData assms(2) show ?thesis
    by (cases "\<exists>err. ph = DataReturn err")
      (auto simp: receiver_next_data set_handler_def receiver_close_same
        intro!: request_effect_same split: option.splits)
next
  case (RHandle sid ref p ph)
  with assms have "ph \<noteq> DataPanic" by (auto simp: conn_inv_def receiver_ok_def data_ok_def)
  with RHandle assms(2) show ?thesis
    by (cases "\<exists>err. ph = DataReturn err")
      (auto simp: receiver_next_data set_handler_def intro!: request_effect_same split: option.splits)
qed (use assms(2) in \<open>auto intro!: request_effect_same split: if_splits chan_sent.splits\<close>)

lemma conn_step_view:
  assumes "conn_step E s t" "conn_inv s"
  shows "protocol_step (protocol_view s) (protocol_view t) \<or> protocol_view t = protocol_view s"
  using assms(1)
proof cases
  case (kn_receiver now pool)
  from request_effect_view [OF receiver_next_effect [OF assms(2) this]] show ?thesis .
next
  case kn_main
  from main_next_keeps [OF this] show ?thesis by (simp add: protocol_view_def)
next
  case (kn_respond i r b)
  show ?thesis
    by (rule one_call_view [OF conn_invD(1) [OF assms(2)] kn_respond(2)])
      (simp_all add: kn_respond responded_def)
next
  case (kn_call i r)
  show ?thesis
    by (rule one_call_view [OF conn_invD(1) [OF assms(2)] kn_call(2)]) (simp_all add: kn_call)
next
  case (kn_give_up i r)
  show ?thesis
    by (rule one_call_view [OF conn_invD(1) [OF assms(2)] kn_give_up(2)])
      (simp_all add: kn_give_up responded_def)
qed (simp_all add: protocol_view_def conn_close_def set_handler_def)

interpretation protocol: refinement conn_started "conn_step E" conn_inv
  protocol_start protocol_step protocol_view
proof unfold_locales
  show "conn_started s \<Longrightarrow> protocol_start (protocol_view s)" for s
    by (auto simp: conn_started_def protocol_start_def protocol_view_def)
qed (rule conn_step_view)

text \<open>
  Claim C10. A connection implements its contract: whatever frames it is sent and however its
  goroutines interleave, each of its steps opens a call for a new identifier, refuses one, ends an
  open call, or is none of the contract's business.
\<close>

theorem conn_refines_protocol:
  assumes "reach conn_started (conn_step E) s" and "conn_step E s t"
  shows "reach protocol_start protocol_step (protocol_view s) \<and>
    (protocol_step (protocol_view s) (protocol_view t) \<or> protocol_view t = protocol_view s)"
  using protocol.sim_reach [OF assms(1)] protocol.sim_step [OF assms(2) conn_reach.inv_reach [OF assms(1)]]
  by blast

theorem conn_refines_protocol_witness:
  "\<exists>s t. conn_step example_env s t \<and> protocol_view s = (1, {1}) \<and>
     (protocol_step (1, {1}) (protocol_view t) \<or> protocol_view t = (1, {1}))"
proof -
  from ex_one_call [OF weaker_steps(2)] obtain s where s: "ex_reach s" "called [] s" by blast
  let ?t = "s\<lparr>k_receiver := RRecv\<rparr>"
  have t: "conn_step example_env s ?t"
    by (rule kn_receiver [of _ _ 0 None]) (use s(2) in \<open>simp add: called_def\<close>)
  moreover have "protocol_view s = (1, {1})" using s(2) by (simp add: protocol_view_def called_def)
  ultimately show ?thesis using conn_refines_protocol [OF s(1) t] by metis
qed



text \<open>A call that responds at once, before its stream is stored.\<close>

definition fast_answer :: response where
  "fast_answer = \<lparr>r_id = 1, r_status = None, r_data = None, r_closeStream = True, r_streaming = False\<rparr>"

lemma ex_fast_answer:
  "\<exists>s. ex_from (\<lambda>s. s = fresh_conn (encode_message unary_frame)) s \<and>
     k_calls s = [\<lparr>call_id = 1, call_handler = None, call_streaming = False, call_phase = Ended\<rparr>] \<and>
     k_receiver s = RStore 1 None \<and> k_main s = MTop \<and> k_active s = - 1 \<and>
     wc_sent (w_conn (k_w s)) = frame 1 messageTypeResponse 0 (Some [0])"
proof -
  define s0 where "s0 = fresh_conn (encode_message unary_frame)"
  define cl where "cl = \<lparr>call_id = 1, call_handler = None, call_streaming = False, call_phase = Running\<rparr>"
  let ?R = "ex_from (\<lambda>s. s = s0)" and ?r = fast_answer
  have 0: "?R s0" by (rule reach_start) simp
  have 1: "?R (s0\<lparr>k_main := MSelect True\<rparr>)"
    by (rule ex_select [OF 0]) (simp_all add: s0_def fresh_conn_def)
  have 2: "?R (s0\<lparr>k_main := MSelect True, k_receiver := RRecv\<rparr>)" (is "reach _ _ ?s2")
    by (rule ex_receiver [OF 1]) (simp add: s0_def fresh_conn_def)
  obtain s3 where frame: "s3 = receiver_frame example_env 0 None ?s2" by blast
  have s3: "k_calls s3 = [cl]" "k_receiver s3 = RStore 1 None" "k_main s3 = MSelect True"
    "k_active s3 = 0" "k_w s3 = k_w s0"
    unfolding frame
    by (subst receiver_frame_message [OF _ frames_ok(1), where bs = "[]" and e = IoEOF];
        simp add: s0_def fresh_conn_def unary_frame_message cl_def)+
  have 3: "?R s3" by (rule ex_receiver [OF 2]) (simp add: frame)
  have "conn_step example_env s3 (s3\<lparr>k_calls := [cl\<lparr>call_phase := Responding ?r\<rparr>]\<rparr>)"
    using kn_call [of 0 s3 ?r example_env] by (simp add: s3 cl_def fast_answer_def may_respond_def)
  from reach_step [OF 3 this] have 4: "?R (s3\<lparr>k_calls := [cl\<lparr>call_phase := Responding ?r\<rparr>]\<rparr>)" .
  let ?ended = "[cl\<lparr>call_phase := Ended\<rparr>]"
  have "conn_step example_env (s3\<lparr>k_calls := [cl\<lparr>call_phase := Responding ?r\<rparr>]\<rparr>)
      (s3\<lparr>k_calls := ?ended, k_main := MReply ?r\<rparr>)"
    using kn_respond [of 0 "s3\<lparr>k_calls := [cl\<lparr>call_phase := Responding ?r\<rparr>]\<rparr>" ?r True example_env]
    by (simp add: s3 fast_answer_def responded_def)
  from reach_step [OF 4 this] have 5: "?R (s3\<lparr>k_calls := ?ended, k_main := MReply ?r\<rparr>)" (is "reach _ _ ?s5") .
  have "codec_Marshal example_proto (AnyMessage (Some (MResponse \<lparr>RStatus = r_status ?r, RPayload = r_data ?r\<rparr>))) =
      Inr (Some [0])"
    by (simp add: fast_answer_def codec_Marshal_def example_proto_def example_marshal_def)
  moreover have "healthy (k_w ?s5)" "wc_sent (w_conn (k_w ?s5)) = []"
    by (simp_all add: s3 s0_def fresh_conn_def healthy_def example_conn_def)
  ultimately obtain w where
    "?R (?s5\<lparr>k_w := w, k_streams := (k_streams ?s5)(1 := None), k_active := k_active ?s5 - 1, k_main := MTop\<rparr>)"
    (is "reach _ _ ?s6") "wc_sent (w_conn w) = frame 1 messageTypeResponse 0 (Some [0])"
    using ex_reply [OF 5, of ?r] by (auto simp: fast_answer_def messageLengthMax_def)
  then show ?thesis
    unfolding s0_def [symmetric] by (intro exI [of _ ?s6]) (simp add: s3 cl_def)
qed

text \<open>
  The receiver stores a stream after it has started the call, so that a call that responds at
  once is deleted before it is stored: no call is outstanding and \<open>active\<close> is zero, but the entry
  stays in \<open>streams\<close> for the rest of the connection, although the client broke no rule.
\<close>

lemma fast_response_leaves_entry:
  "\<exists>s. reach conn_started (conn_step example_env) s \<and> k_calls s \<noteq> [] \<and> outstanding s = 0 \<and>
     k_active s = 0 \<and> k_receiver s = RTop \<and> k_main s = MTop \<and> k_streams s 1 = Some None"
proof -
  obtain s6 where "ex_from (\<lambda>s. s = fresh_conn (encode_message unary_frame)) s6" and
    s6: "k_calls s6 = [\<lparr>call_id = 1, call_handler = None, call_streaming = False, call_phase = Ended\<rparr>]"
    "k_receiver s6 = RStore 1 None" "k_main s6 = MTop" "k_active s6 = - 1"
    using ex_fast_answer by blast
  then have "ex_reach s6" by (elim reach_weaken) (simp add: fresh_conn_started)
  then have "ex_reach (s6\<lparr>k_streams := (k_streams s6)(1 \<mapsto> None), k_receiver := RAdd\<rparr>)" (is "ex_reach ?s7")
    by (rule ex_receiver) (simp add: s6)
  then have "ex_reach (?s7\<lparr>k_active := k_active ?s7 + 1, k_receiver := RTop\<rparr>)" (is "ex_reach ?s8")
    by (rule ex_receiver) simp
  then show ?thesis
    by (intro exI [of _ ?s8]) (simp add: s6 outstanding_def ended_def)
qed

end
