(* ===== verification/Ttrpc_EndToEnd.thy ===== *)
theory Ttrpc_EndToEnd
  imports Ttrpc_Calls Ttrpc_ConnCalls
begin

text \<open>
  A unary call from the client to the method and back: \<open>Call\<close> and \<open>dispatch\<close> on one side, \<open>handle\<close>, the
  call's goroutine and the main loop of a connection on the other, joined by the frames they exchange.
  Then a server stream, from the handler's \<open>SendMsg\<close> to the client's \<open>RecvMsg\<close>.
\<close>

section \<open>The parts of a call\<close>

text \<open>
  What generated code registers for a method: unmarshal into a new request \<open>t0\<close>, then call the
  user's function.
\<close>

definition stub_method ::
    "'u message_value \<Rightarrow> (gocontext \<Rightarrow> 'u any \<Rightarrow> ('u, 'w) action) \<Rightarrow> ('u, 'w) Method" where
  "stub_method t0 f = (\<lambda>ctx unmarshal w.
     case unmarshal (AnyMessage (Some t0)) of
       Inl err \<Rightarrow> ((AnyNil, Some err), w)
     | Inr req \<Rightarrow> f ctx req w)"

text \<open>The bytes of a request as the server gets them, to the response its goroutine sends.\<close>

definition server_reply ::
    "('u, 'w, 'ss) conn_env \<Rightarrow> gocontext \<Rightarrow> int \<Rightarrow> store \<Rightarrow> 'ss \<Rightarrow> u32 \<Rightarrow> gobytes \<Rightarrow> 'w \<Rightarrow> (response \<times> 'w) option" where
  "server_reply E ctx now h ss sid p w =
     (case codec_Unmarshal (e_proto E) p (AnyMessage (Some (MRequest empty_request))) of
        Inr (AnyMessage (Some (MRequest req))) \<Rightarrow>
          (case handle (e_grow E) now (e_services E) ctx req h of
             (HandleUnary g, h1) \<Rightarrow>
               (case run_goroutine (e_grpc E) (e_proto E) (e_grow E) now (e_services E) ctx ss h1 g w of
                  (args, w1) \<Rightarrow> Some (args_response sid args, w1))
           | _ \<Rightarrow> None)
      | _ \<Rightarrow> None)"

text \<open>The message by which the main loop sends a final response; an empty payload arrives as nil.\<close>

definition reply_message :: "('u, 'w, 'ss) conn_env \<Rightarrow> response \<Rightarrow> message option" where
  "reply_message E r =
     (case codec_Marshal (e_proto E) (AnyMessage (Some (MResponse
             \<lparr>RStatus = Proto (e_grpc E) (r_status r), RPayload = r_data r\<rparr>))) of
        Inl err \<Rightarrow> None
      | Inr b \<Rightarrow> Some (\<lparr>Length = word_of_nat (slice_len b), StreamID = r_id r, Type = messageTypeResponse,
                        Flags = 0\<rparr>, norm_bytes b))"

lemma slice_norm [simp]: "Ttrpc_Prelude.slice (norm_bytes p) = Ttrpc_Prelude.slice p"
  by (simp add: norm_bytes_def)

lemma slice_len_norm [simp]: "slice_len (norm_bytes p) = slice_len p"
  by (cases p) (auto simp: norm_bytes_def)

text \<open>\<open>send_reply\<close> sends exactly this message.\<close>

lemma send_reply_message:
  assumes "\<not> r_streaming r" "reply_message E r = Some m"
  shows "send_reply E r w = send_message m w"
proof -
  have "send sid t fl (norm_bytes b) w = send sid t fl b w" for sid t fl b
    unfolding send_def slice_norm slice_len_norm ..
  with assms show ?thesis by (auto simp: send_reply_def reply_message_def send_message_def split: sum.splits)
qed

section \<open>The call\<close>

lemma unmarshal_norm:
  assumes "\<forall>t. Unmarshal P (Some []) t = Unmarshal P None t"
  shows "Unmarshal P (norm_bytes p) t = Unmarshal P p t" "codec_Unmarshal P (norm_bytes p) v = codec_Unmarshal P p v"
    "protoUnmarshal txt P (norm_bytes p) v = protoUnmarshal txt P p v"
  using assms by (cases p; auto simp: norm_bytes_def codec_Unmarshal_def protoUnmarshal_def split: any.split)+

lemma client_request_simps [simp]:
  "Service (client_request h order now ctx service method payload) = service"
  "Method (client_request h order now ctx service method payload) = method"
  "Payload (client_request h order now ctx service method payload) = payload"
  by (simp_all add: client_request_def Let_def split: prod.split option.split)

lemma message_bytes_whole:
  assumes "slice_len b \<le> messageLengthMax"
  shows "message_bytes (\<lparr>Length = word_of_nat (slice_len b), StreamID = sid, Type = ty, Flags = fl\<rparr>, norm_bytes b) =
    norm_bytes b"
proof -
  have "slice_len b < 2 ^ 32" using assms by (simp add: messageLengthMax_def)
  then have "unat (word_of_nat (slice_len b) :: u32) = slice_len b"
    by (simp add: unsigned_of_nat take_bit_nat_eq_self)
  then show ?thesis by (cases b) (auto simp: message_bytes_def norm_bytes_def)
qed

text \<open>
  The server's half: the method gets the request and the context of the request, and what it returns
  makes the response.
\<close>

definition method_outcome :: "grpc \<Rightarrow> 'u proto \<Rightarrow> 'u any \<Rightarrow> error option \<Rightarrow> gobytes \<times> error option" where
  "method_outcome G P rsp err =
     (case err of
        Some e \<Rightarrow> (None, Some e)
      | None \<Rightarrow>
          if isNil rsp then (None, Some (ErrorString ''ttrpc: marshal called with nil''))
          else (case protoMarshal (StatusText G) P rsp of
                  Inl e \<Rightarrow> (None, Some e)
                | Inr q \<Rightarrow> (q, None)))"

lemma server_half_with:
  assumes env: "proto_ok (e_proto E)"
      "\<forall>t. Unmarshal (e_proto E) (Some []) t = Unmarshal (e_proto E) None t"
    and service: "services (e_services E) (Service r) = Some srv" "Methods srv (Method r) = Some meth"
    and request: "codec_Marshal (e_proto E) (AnyMessage (Some req)) = Inr (Payload r)" "same_type (e_proto E) req t0"
      "codec_Marshal (e_proto E) (AnyMessage (Some (MRequest r))) = Inr p"
    and ctx: "fst (getRequestContext (e_grow E) now ctx (r\<lparr>Payload := norm_bytes (Payload r)\<rparr>) h) = ctx1"
    and body: "\<And>um info. um (AnyMessage (Some t0)) = Inr (AnyMessage (Some (norm_message req))) \<Longrightarrow>
        unaryInterceptor (e_services E) ctx1 um info meth w = ((rsp, err), w1)"
      "method_outcome (e_grpc E) (e_proto E) rsp err = (q, err')"
  shows "server_reply E ctx now h ss sid (norm_bytes p) w =
    Some (\<lparr>r_id = sid, r_status = call_status (e_grpc E) err', r_data = q, r_closeStream = True,
      r_streaming = False\<rparr>, w1)"
proof -
  let ?P = "e_proto E" and ?G = "e_grpc E" and ?r = "r\<lparr>Payload := norm_bytes (Payload r)\<rparr>"
  have "codec_Unmarshal ?P (norm_bytes p) (AnyMessage (Some (MRequest empty_request))) =
      Inr (AnyMessage (Some (MRequest ?r)))"
    using codec_roundtrip [OF env(1) _ request(3), of "MRequest empty_request"] unmarshal_norm(2) [OF env(2)]
    by simp
  moreover have "protoUnmarshal (StatusText ?G) ?P (Payload r) (AnyMessage (Some t0)) =
      Inr (AnyMessage (Some (norm_message req)))"
    using request(1,2) env(1) by (auto simp: protoUnmarshal_def codec_Marshal_def proto_ok_def)
  then have "protoUnmarshal (StatusText ?G) ?P (norm_bytes (Payload r)) (AnyMessage (Some t0)) =
      Inr (AnyMessage (Some (norm_message req)))"
    by (simp add: unmarshal_norm(3) [OF env(2)])
  then have "unaryInterceptor (e_services E) ctx1
      (protoUnmarshal (StatusText ?G) ?P (norm_bytes (Payload r))) info meth w = ((rsp, err), w1)" for info
    by (rule body(1))
  ultimately show ?thesis
    using service ctx body(2)
    by (auto simp: server_reply_def handle_def unaryCall_def method_outcome_def args_response_def
        split: prod.splits option.splits if_splits sum.splits)
qed

lemma server_half:
  assumes env: "proto_ok (e_proto E)"
      "\<forall>t. Unmarshal (e_proto E) (Some []) t = Unmarshal (e_proto E) None t"
    and service: "services (e_services E) (Service r) = Some srv"
      "Methods srv (Method r) = Some (stub_method t0 f)"
      "unaryInterceptor (e_services E) = defaultServerInterceptor"
    and request: "codec_Marshal (e_proto E) (AnyMessage (Some req)) = Inr (Payload r)" "same_type (e_proto E) req t0"
      "codec_Marshal (e_proto E) (AnyMessage (Some (MRequest r))) = Inr p"
    and body: "fst (getRequestContext (e_grow E) now ctx (r\<lparr>Payload := norm_bytes (Payload r)\<rparr>) h) = ctx1"
      "f ctx1 (AnyMessage (Some (norm_message req))) w = ((rsp, err), w1)"
      "method_outcome (e_grpc E) (e_proto E) rsp err = (q, err')"
  shows "server_reply E ctx now h ss sid (norm_bytes p) w =
    Some (\<lparr>r_id = sid, r_status = call_status (e_grpc E) err', r_data = q, r_closeStream = True,
      r_streaming = False\<rparr>, w1)"
  by (rule server_half_with [OF env service(1,2) request body(1) _ body(3)])
    (simp add: service(3) defaultServerInterceptor_def stub_method_def body(2))

text \<open>The client's half: the response, and what is left of the call.\<close>

lemma client_half:
  assumes env: "proto_ok P" "\<forall>t. Unmarshal P (Some []) t = Unmarshal P None t"
    and reply: "Marshal P (Some (MResponse \<lparr>RStatus = st, RPayload = q\<rparr>)) = Inr b"
      "slice_len b \<le> messageLengthMax"
  shows "dispatch_finish P resp (WaitMsg (\<lparr>Length = word_of_nat (slice_len b), StreamID = sid,
      Type = messageTypeResponse, Flags = 0\<rparr>, norm_bytes b)) c =
    ((None, \<lparr>RStatus = st, RPayload = norm_bytes q\<rparr>), put_buffer (norm_bytes b) c)"
proof -
  have "Unmarshal P (norm_bytes b) (Some (MResponse resp)) =
      Inr (Some (MResponse \<lparr>RStatus = st, RPayload = norm_bytes q\<rparr>))"
    using env reply(1) by (simp add: unmarshal_norm(1) proto_ok_def)
  then show ?thesis by (simp add: dispatch_finish_def message_bytes_whole [OF reply(2)] as_response_def)
qed

text \<open>
  The client's call, when its wait ends with the frame of a response: the reply that the response
  carries is unmarshalled into the caller's one, and a status that is not OK is the error.
\<close>

lemma client_call_with:
  assumes env: "grpc_ok G" "proto_ok P" "\<forall>t. Unmarshal P (Some []) t = Unmarshal P None t"
    and request: "codec_Marshal P (AnyMessage (Some req)) = Inr payload"
      "r = client_request hc order now ctx service method payload"
      "codec_Marshal P (AnyMessage (Some (MRequest r))) = Inr p"
    and sent: "createStream txt 0 p 1 c = (Inr s, c1)" "others ctx c1 = (ctx', c2)"
    and reply: "Marshal P (Some (MResponse \<lparr>RStatus = st, RPayload = q\<rparr>)) = Inr b"
      "m = (\<lparr>Length = word_of_nat (slice_len b), StreamID = sid, Type = messageTypeResponse,
        Flags = 0\<rparr>, norm_bytes b)" "slice_len b \<le> messageLengthMax"
      "choice < length (dispatch_ready ctx' s c2)" "dispatch_ready ctx' s c2 ! choice = (WaitMsg m, c3)"
    and target: "Unmarshal P q (Some target) = Inr v"
    and passes: "\<And>info. intercept ctx r empty_response info invoke st0 =
        (case dispatch txt P others choice ctx r empty_response c of
           None \<Rightarrow> None | Some (res, c') \<Rightarrow> Some (res, after c'))"
  shows "Call G P intercept invoke hc order now ctx service method (AnyMessage (Some req))
      (AnyMessage (Some target)) st0 =
    Some ((if Code G st = OK then None else map_option StatusError st, AnyMessage v),
      after (deleteStream s (put_buffer (snd m) c3)))"
proof -
  have "dispatch txt P others choice ctx r empty_response c =
      Some ((None, \<lparr>RStatus = st, RPayload = norm_bytes q\<rparr>), deleteStream s (put_buffer (snd m) c3))"
    using request(3) sent reply(4,5) client_half [OF env(2,3) reply(1,3), of empty_response sid c3]
    by (simp add: dispatch_def reply(2))
  moreover have "codec_Unmarshal P (norm_bytes q) (AnyMessage (Some target)) = Inr (AnyMessage v)"
    using target by (simp add: codec_Unmarshal_def unmarshal_norm(1) [OF env(3)])
  ultimately show ?thesis
    using request(1,2) passes grpc_okD(1,2,9) [OF env(1)]
    by (auto simp: Call_def split: option.split)
qed

lemma client_call:
  assumes env: "grpc_ok G" "proto_ok P" "\<forall>t. Unmarshal P (Some []) t = Unmarshal P None t"
    and request: "codec_Marshal P (AnyMessage (Some req)) = Inr payload"
      "r = client_request hc order now ctx service method payload"
      "codec_Marshal P (AnyMessage (Some (MRequest r))) = Inr p"
    and sent: "createStream txt 0 p 1 c = (Inr s, c1)" "others ctx c1 = (ctx', c2)"
    and reply: "Marshal P (Some (MResponse \<lparr>RStatus = st, RPayload = q\<rparr>)) = Inr b"
      "m = (\<lparr>Length = word_of_nat (slice_len b), StreamID = sid, Type = messageTypeResponse,
        Flags = 0\<rparr>, norm_bytes b)" "slice_len b \<le> messageLengthMax"
      "choice < length (dispatch_ready ctx' s c2)" "dispatch_ready ctx' s c2 ! choice = (WaitMsg m, c3)"
    and target: "Unmarshal P q (Some target) = Inr v"
  shows "Call G P defaultClientInterceptor
      (\<lambda>ctx req reply. dispatch txt P others choice ctx req reply)
      hc order now ctx service method (AnyMessage (Some req)) (AnyMessage (Some target)) c =
    Some ((if Code G st = OK then None else map_option StatusError st, AnyMessage v),
      deleteStream s (put_buffer (snd m) c3))"
  by (rule client_call_with [where others = others and ctx = ctx and after = "\<lambda>c. c",
        OF env request sent reply target])
    (simp add: defaultClientInterceptor_def split: option.split prod.split)

lemma reply_message_Some:
  assumes "grpc_ok (e_grpc E)" and "reply_message E rsp = Some m"
  obtains b where
    "Marshal (e_proto E) (Some (MResponse \<lparr>RStatus = r_status rsp, RPayload = r_data rsp\<rparr>)) = Inr b"
    "m = (\<lparr>Length = word_of_nat (slice_len b), StreamID = r_id rsp, Type = messageTypeResponse, Flags = 0\<rparr>,
      norm_bytes b)"
  using assms grpc_okD(3) [OF assms(1)]
  by (auto simp: reply_message_def codec_Marshal_def split: sum.splits)

text \<open>
  Claim C1. A unary call computes the user's function. The client marshals the request and sends it on
  a new stream; the server, whose service has the method, calls the function with the request and the
  context of the request; its reply is sent as the response; and \<open>Call\<close> returns no error and the reply, up
  to what the wire format cannot tell apart, and gives the stream back. The server's response is
  \<open>server_reply\<close>, the main loop sends it as the frame \<open>reply_message\<close>, and the client's wait ends with
  this frame.
\<close>

theorem unary_call_end_to_end:
  assumes "grpc_ok (e_grpc E)" and "proto_ok (e_proto E)"
    and "\<forall>t. Unmarshal (e_proto E) (Some []) t = Unmarshal (e_proto E) None t"
    and "services (e_services E) service = Some srv" and "Methods srv method = Some (stub_method t0 f)"
    and "unaryInterceptor (e_services E) = defaultServerInterceptor"
    and "codec_Marshal (e_proto E) (AnyMessage (Some req)) = Inr payload" and "same_type (e_proto E) req t0"
    and "r = client_request hc order now ctx service method payload"
    and "codec_Marshal (e_proto E) (AnyMessage (Some (MRequest r))) = Inr p"
    and "fst (getRequestContext (e_grow E) nows sctx (r\<lparr>Payload := norm_bytes payload\<rparr>) hs) = ctx1"
    and "f ctx1 (AnyMessage (Some (norm_message req))) w = ((AnyMessage (Some out), None), w1)"
    and "Marshal (e_proto E) (Some out) = Inr q" and "same_type (e_proto E) out target"
    and "createStream txt 0 p 1 c = (Inr s, c1)" and "others ctx c1 = (ctx', c2)"
    and "server_reply E sctx nows hs ss (nextStreamID c) (norm_bytes p) w = Some (resp, w2)"
    and "reply_message E resp = Some m" and "slice_len (snd m) \<le> messageLengthMax"
    and "choice < length (dispatch_ready ctx' s c2)" and "dispatch_ready ctx' s c2 ! choice = (WaitMsg m, c3)"
  shows "w2 = w1 \<and> (\<forall>wr. send_reply E resp wr = send_message m wr) \<and> Call (e_grpc E) (e_proto E) defaultClientInterceptor
      (\<lambda>ctx req reply. dispatch txt (e_proto E) others choice ctx req reply)
      hc order now ctx service method (AnyMessage (Some req)) (AnyMessage (Some target)) c =
    Some ((None, AnyMessage (Some (norm_message out))), deleteStream s (put_buffer (snd m) c3))"
proof -
  let ?P = "e_proto E" and ?G = "e_grpc E"
  have r: "Payload r = payload" "Service r = service" "Method r = method" by (simp_all add: assms(9))
  have "method_outcome ?G ?P (AnyMessage (Some out)) None = (q, None)"
    using assms(13) by (simp add: method_outcome_def isNil_def protoMarshal_def)
  from server_half [where E = E and r = r and f = f, OF assms(2,3) _ _ assms(6) _ assms(8,10) _ assms(12) this]
  have resp: "w2 = w1" "resp = \<lparr>r_id = nextStreamID c, r_status = call_status ?G None, r_data = q,
      r_closeStream = True, r_streaming = False\<rparr>"
    using assms(4,5,7,11,17) by (simp_all add: r)
  obtain b where b: "Marshal ?P (Some (MResponse \<lparr>RStatus = call_status ?G None, RPayload = q\<rparr>)) = Inr b"
    "m = (\<lparr>Length = word_of_nat (slice_len b), StreamID = nextStreamID c, Type = messageTypeResponse, Flags = 0\<rparr>,
      norm_bytes b)"
    using reply_message_Some [OF assms(1,18)] resp(2) by auto
  have "slice_len b \<le> messageLengthMax" using assms(19) b(2) by simp
  moreover have "Unmarshal ?P q (Some target) = Inr (Some (norm_message out))"
    using assms(2,13,14) by (simp add: proto_ok_def)
  moreover have "Code ?G (call_status ?G None) = OK" using call_status_code [OF assms(1), of None] by simp
  moreover have "send_reply E resp wr = send_message m wr" for wr
    by (rule send_reply_message [OF _ assms(18)]) (simp add: resp(2))
  ultimately show ?thesis
    using client_call [where others = others and ctx = ctx, OF assms(1-3,7,9,10,15,16) b _ assms(20,21)]
      resp(1) by simp
qed

text \<open>The status by which a call ends with an error, as far as the status library is specified.\<close>

definition status_for :: "grpc \<Rightarrow> error \<Rightarrow> status \<Rightarrow> bool" where
  "status_for G e st \<longleftrightarrow>
     (case status_in e of
        Some s \<Rightarrow> status_code st = status_code s
      | None \<Rightarrow> st = Status (convertCode (Some e)) (error_text (StatusText G) e)) \<and>
     (\<forall>s. e = StatusError s \<longrightarrow> st = s)"

lemma call_status_for:
  assumes "grpc_ok G" and "Code G (call_status G (Some e)) \<noteq> OK"
  shows "\<exists>st. call_status G (Some e) = Some st \<and> status_for G e st"
proof -
  obtain st where st: "call_status G (Some e) = Some st"
    using assms grpc_okD(2) [OF assms(1)] by (cases "call_status G (Some e)") auto
  show ?thesis
  proof (cases "status_in e")
    case None
    then have "\<not> snd (FromError G (Some e))" "\<forall>s. e \<noteq> StatusError s"
      using grpc_okD(7) [OF assms(1)] by auto
    with None show ?thesis
      by (auto simp: status_for_def call_status_def split: prod.split)
  next
    case (Some s)
    have "status_code st = status_code s"
      using call_status_code [OF assms(1), of "Some e"] Some st grpc_okD(1) [OF assms(1)] by simp
    moreover have "st = s" if "e = StatusError s" for s
      using that st grpc_okD(6) [OF assms(1)] by (simp add: call_status_def)
    ultimately show ?thesis using Some st by (auto simp: status_for_def)
  qed
qed

text \<open>
  Claim C2. An error that the user's function returns reaches the caller: \<open>Call\<close> returns an error with
  the status that the error carries, or with the converted code and the text of an error without one. The
  response has no payload, and unmarshalling nothing resets the caller's reply; the stream is given back.
  Only an error whose status is OK would not arrive.
\<close>

theorem unary_error_end_to_end:
  assumes "grpc_ok (e_grpc E)" and "proto_ok (e_proto E)"
    and "\<forall>t. Unmarshal (e_proto E) (Some []) t = Unmarshal (e_proto E) None t"
    and "services (e_services E) service = Some srv" and "Methods srv method = Some (stub_method t0 f)"
    and "unaryInterceptor (e_services E) = defaultServerInterceptor"
    and "codec_Marshal (e_proto E) (AnyMessage (Some req)) = Inr payload" and "same_type (e_proto E) req t0"
    and "r = client_request hc order now ctx service method payload"
    and "codec_Marshal (e_proto E) (AnyMessage (Some (MRequest r))) = Inr p"
    and "fst (getRequestContext (e_grow E) nows sctx (r\<lparr>Payload := norm_bytes payload\<rparr>) hs) = ctx1"
    and "f ctx1 (AnyMessage (Some (norm_message req))) w = ((rsp, Some e), w1)"
    and "map_option status_code (status_in e) \<noteq> Some OK"
    and "Unmarshal (e_proto E) None (Some target) = Inr reset"
    and "createStream txt 0 p 1 c = (Inr s, c1)" and "others ctx c1 = (ctx', c2)"
    and "server_reply E sctx nows hs ss (nextStreamID c) (norm_bytes p) w = Some (resp, w2)"
    and "reply_message E resp = Some m" and "slice_len (snd m) \<le> messageLengthMax"
    and "choice < length (dispatch_ready ctx' s c2)" and "dispatch_ready ctx' s c2 ! choice = (WaitMsg m, c3)"
  shows "w2 = w1 \<and> (\<exists>st. status_for (e_grpc E) e st \<and>
    Call (e_grpc E) (e_proto E) defaultClientInterceptor
      (\<lambda>ctx req reply. dispatch txt (e_proto E) others choice ctx req reply)
      hc order now ctx service method (AnyMessage (Some req)) (AnyMessage (Some target)) c =
    Some ((Some (StatusError st), AnyMessage reset), deleteStream s (put_buffer (snd m) c3)))"
proof -
  let ?P = "e_proto E" and ?G = "e_grpc E"
  have r: "Payload r = payload" "Service r = service" "Method r = method" by (simp_all add: assms(9))
  have code: "Code ?G (call_status ?G (Some e)) \<noteq> OK"
    using assms(13) call_status_code [OF assms(1), of "Some e"]
    by (cases "status_in e") (auto simp: convertCode_OK)
  have "method_outcome ?G ?P rsp (Some e) = (None, Some e)" by (simp add: method_outcome_def)
  from server_half [where E = E and r = r and f = f, OF assms(2,3) _ _ assms(6) _ assms(8,10) _ assms(12) this]
  have resp: "w2 = w1" "resp = \<lparr>r_id = nextStreamID c, r_status = call_status ?G (Some e), r_data = None,
      r_closeStream = True, r_streaming = False\<rparr>"
    using assms(4,5,7,11,17) by (simp_all add: r)
  obtain st where st: "call_status ?G (Some e) = Some st" "status_for ?G e st"
    using call_status_for [OF assms(1) code] by blast
  obtain b where b: "Marshal ?P (Some (MResponse \<lparr>RStatus = Some st, RPayload = None\<rparr>)) = Inr b"
    "m = (\<lparr>Length = word_of_nat (slice_len b), StreamID = nextStreamID c, Type = messageTypeResponse, Flags = 0\<rparr>,
      norm_bytes b)"
    using reply_message_Some [OF assms(1,18)] resp(2) st(1) by auto
  have "slice_len b \<le> messageLengthMax" using assms(19) b(2) by simp
  from client_call [where others = others and ctx = ctx, OF assms(1-3,7,9,10,15,16) b this assms(20,21,14)]
  show ?thesis using resp(1) st code by auto
qed

section \<open>Examples\<close>

text \<open>
  A service with one method, a client that asks it with two bytes, and other goroutines that hand the
  client the frame \<open>m\<close> of the response.
\<close>

definition stub_env :: "(gocontext \<Rightarrow> bytes any \<Rightarrow> (bytes, unit) action) \<Rightarrow> (bytes, unit, unit) conn_env" where
  "stub_env f = example_env\<lparr>e_services := example_service (stub_method (MUser []) f)\<rparr>"

definition ask :: Request where
  "ask = \<lparr>Service = ''s'', Method = ''m'', Payload = Some [7, 8], TimeoutNano = 0, Metadata = []\<rparr>"

definition ask_bytes :: gobytes where
  "ask_bytes = Some [1, 1, 115, 109, 7, 8]"

definition deliver :: "message \<Rightarrow> gocontext \<Rightarrow> client \<Rightarrow> gocontext \<times> client" where
  "deliver m ctx c = (ctx, c\<lparr>c_heap := (c_heap c)[0 := (c_heap c ! 0)\<lparr>st_recv :=
     \<lparr>chan_cap = 1, chan_buf = [m], chan_closed = False\<rparr>\<rparr>]\<rparr>)"

lemmas proto_parts =
  codec_Marshal_def codec_Unmarshal_def example_proto_def example_marshal_def example_unmarshal_def

lemma stub_env_simps [simp]:
  "e_grpc (stub_env f) = example_grpc" "e_proto (stub_env f) = example_proto"
  "e_services (stub_env f) = example_service (stub_method (MUser []) f)"
  "unaryInterceptor (example_service meth) = defaultServerInterceptor"
  by (simp_all add: stub_env_def example_env_def example_service_def newServiceSet_def)

lemma stub_env_ok:
  "grpc_ok (e_grpc (stub_env f))" "proto_ok (e_proto (stub_env f))"
  "\<forall>t. Unmarshal (e_proto (stub_env f)) (Some []) t = Unmarshal (e_proto (stub_env f)) None t"
  by (simp_all add: example_grpc_ok example_proto_ok) (simp add: example_proto_def example_unmarshal_def)

lemma stub_env_method:
  obtains srv where "services (e_services (stub_env f)) ''s'' = Some srv"
    "Methods srv ''m'' = Some (stub_method (MUser []) f)"
  by (simp add: example_service_def)

lemma ask_request:
  "ask = client_request example_store [] 0 background ''s'' ''m'' (Some [7, 8])"
  "codec_Marshal (e_proto (stub_env f)) (AnyMessage (Some (MUser [7, 8]))) = Inr (Some [7, 8])"
  "codec_Marshal (e_proto (stub_env f)) (AnyMessage (Some (MRequest ask))) = Inr ask_bytes"
  by (simp_all add: ask_def ask_bytes_def client_request_def background_def GetMetadata_def proto_parts
      str_bytes_def)

lemma ask_reply:
  assumes "\<And>ctx. f ctx (AnyMessage (Some (MUser [7, 8]))) () = ((rsp, err), ())"
    and "method_outcome example_grpc example_proto rsp err = (q, err')"
  shows "server_reply (stub_env f) background 0 example_store () (nextStreamID healthy_client)
      (norm_bytes ask_bytes) () =
    Some (\<lparr>r_id = 1, r_status = call_status example_grpc err', r_data = q, r_closeStream = True,
      r_streaming = False\<rparr>, ())"
proof -
  obtain srv where srv: "services (e_services (stub_env f)) (Service ask) = Some srv"
    "Methods srv (Method ask) = Some (stub_method (MUser []) f)"
    using stub_env_method [of f] by (auto simp: ask_def)
  have req: "codec_Marshal (e_proto (stub_env f)) (AnyMessage (Some (MUser [7, 8]))) = Inr (Payload ask)"
    "same_type (e_proto (stub_env f)) (MUser [7, 8] :: bytes message_value) (MUser [])"
    by (simp_all only: ask_request(2)) (simp_all add: ask_def)
  show ?thesis
    using server_half [where E = "stub_env f" and f = f and w = "()" and ?w1.0 = "()" and rsp = rsp and err = err
        and q = q and err' = err' and now = 0 and ctx = background and h = example_store and ss = "()" and sid = 1,
        OF stub_env_ok(2,3) srv _ req ask_request(3) refl] assms
    by (simp add: healthy_client_simps)
qed

lemma healthy_request_sent:
  assumes "slice_len b \<le> messageLengthMax" and "ctx_err ctx = None"
  obtains c1 c2 c3 where "createStream (\<lambda>s. []) 0 b 1 healthy_client = (Inr 0, c1)"
    "deliver m ctx c1 = (ctx, c2)" "0 < length (dispatch_ready ctx 0 c2)"
    "dispatch_ready ctx 0 c2 ! 0 = (WaitMsg m, c3)"
proof -
  from healthy_createStream [of healthy_client b "\<lambda>s. []" 0 1] assms(1)
  obtain c1 where c1: "createStream (\<lambda>s. []) 0 b 1 healthy_client = (Inr 0, c1)"
      "c_heap c1 = [newStream 1 1]" "\<not> c_done c1"
    by (auto simp: healthy_client_simps)
  obtain c2 where c2: "deliver m ctx c1 = (ctx, c2)" by (simp add: deliver_def)
  obtain c3 where "dispatch_ready ctx 0 c2 = [(WaitMsg m, c3)]"
    using c1(2,3) c2 assms(2) by (auto simp: deliver_def dispatch_ready_def stream_ready_def
        newStream_def take_message_def stream_take_def chan_recv_def)
  then have "0 < length (dispatch_ready ctx 0 c2)" "dispatch_ready ctx 0 c2 ! 0 = (WaitMsg m, c3)"
    by simp_all
  with c1(1) c2 show thesis by (rule that)
qed

lemma ask_sent:
  obtains c1 c2 c3 where "createStream (\<lambda>s. []) 0 ask_bytes 1 healthy_client = (Inr 0, c1)"
    "deliver m background c1 = (background, c2)" "0 < length (dispatch_ready background 0 c2)"
    "dispatch_ready background 0 c2 ! 0 = (WaitMsg m, c3)"
  by (rule healthy_request_sent [of ask_bytes background])
    (auto simp: ask_bytes_def messageLengthMax_def background_def)

text \<open>A method that reverses a byte string, and one that always fails.\<close>

definition reversing :: "gocontext \<Rightarrow> bytes any \<Rightarrow> (bytes, unit) action" where
  "reversing ctx v w =
     (((case v of AnyMessage (Some (MUser bs)) \<Rightarrow> AnyMessage (Some (MUser (rev bs))) | _ \<Rightarrow> AnyNil), None), w)"

definition refusing :: "gocontext \<Rightarrow> bytes any \<Rightarrow> (bytes, unit) action" where
  "refusing ctx v w = ((AnyNil, Some (StatusError (Status InvalidArgument ''no''))), w)"

theorem unary_call_end_to_end_witness:
  "\<exists>others c'. Call example_grpc example_proto defaultClientInterceptor
      (\<lambda>ctx req reply. dispatch (\<lambda>s. []) example_proto others 0 ctx req reply)
      example_store [] 0 background ''s'' ''m'' (AnyMessage (Some (MUser [7, 8]))) (AnyMessage (Some (MUser [])))
      healthy_client = Some ((None, AnyMessage (Some (MUser [8, 7]))), c')"
proof -
  let ?m = "(\<lparr>Length = 3, StreamID = 1, Type = messageTypeResponse, Flags = 0\<rparr>, Some [0, 8, 7]) :: message"
  let ?E = "stub_env reversing"
  obtain srv where srv: "services (e_services ?E) ''s'' = Some srv"
    "Methods srv ''m'' = Some (stub_method (MUser []) reversing)" by (rule stub_env_method)
  have int: "unaryInterceptor (e_services ?E) = defaultServerInterceptor" by simp
  obtain c1 c2 c3 where sent: "createStream (\<lambda>s. []) 0 ask_bytes 1 healthy_client = (Inr 0, c1)"
    "deliver ?m background c1 = (background, c2)" "0 < length (dispatch_ready background 0 c2)"
    "dispatch_ready background 0 c2 ! 0 = (WaitMsg ?m, c3)" by (rule ask_sent)
  have run: "reversing ctx (AnyMessage (Some (norm_message (MUser [7, 8])))) () =
      ((AnyMessage (Some (MUser [8, 7])), None), ())" for ctx
    by (simp add: reversing_def)
  have out: "Marshal (e_proto ?E) (Some (MUser [8, 7])) = Inr (Some [8, 7])"
    "same_type (e_proto ?E) (MUser [8, 7] :: bytes message_value) (MUser [])"
    "same_type (e_proto ?E) (MUser [7, 8] :: bytes message_value) (MUser [])"
    by (simp_all add: proto_parts)
  have reply: "server_reply ?E background 0 example_store () (nextStreamID healthy_client) (norm_bytes ask_bytes) () =
      Some (\<lparr>r_id = 1, r_status = None, r_data = Some [8, 7], r_closeStream = True, r_streaming = False\<rparr>, ())"
    using ask_reply [of reversing _ None "Some [8, 7]" None] run
    by (simp add: method_outcome_def isNil_def protoMarshal_def proto_parts call_status_def example_grpc_def)
  have m: "reply_message ?E \<lparr>r_id = 1, r_status = None, r_data = Some [8, 7], r_closeStream = True,
      r_streaming = False\<rparr> = Some ?m"
    by (simp add: reply_message_def proto_parts example_grpc_def norm_bytes_def)
  have m_len: "slice_len (snd ?m) \<le> messageLengthMax" by (simp add: messageLengthMax_def)
  note result = unary_call_end_to_end [where others = "deliver ?m" and f = reversing and E = ?E,
    OF stub_env_ok srv int ask_request(2) out(3) ask_request(1,3)
      refl run out(1,2) sent(1,2) reply m m_len sent(3,4)]
  show ?thesis by (rule exI [of _ "deliver ?m"], rule exI) (use result in simp)
qed

theorem unary_error_end_to_end_witness:
  "\<exists>others c'. Call example_grpc example_proto defaultClientInterceptor
      (\<lambda>ctx req reply. dispatch (\<lambda>s. []) example_proto others 0 ctx req reply)
      example_store [] 0 background ''s'' ''m'' (AnyMessage (Some (MUser [7, 8]))) (AnyMessage (Some (MUser [5])))
      healthy_client =
    Some ((Some (StatusError (Status InvalidArgument ''no'')), AnyMessage (Some (MUser []))), c')"
proof -
  let ?st = "Status InvalidArgument ''no''"
  let ?b = "[code_byte InvalidArgument, 2, 110, 111] :: bytes"
  let ?m = "(\<lparr>Length = 4, StreamID = 1, Type = messageTypeResponse, Flags = 0\<rparr>, Some ?b) :: message"
  let ?E = "stub_env refusing"
  obtain srv where srv: "services (e_services ?E) ''s'' = Some srv"
    "Methods srv ''m'' = Some (stub_method (MUser []) refusing)" by (rule stub_env_method)
  have int: "unaryInterceptor (e_services ?E) = defaultServerInterceptor" by simp
  obtain c1 c2 c3 where sent: "createStream (\<lambda>s. []) 0 ask_bytes 1 healthy_client = (Inr 0, c1)"
    "deliver ?m background c1 = (background, c2)" "0 < length (dispatch_ready background 0 c2)"
    "dispatch_ready background 0 c2 ! 0 = (WaitMsg ?m, c3)" by (rule ask_sent)
  have run: "refusing ctx (AnyMessage (Some (norm_message (MUser [7, 8])))) () = ((AnyNil, Some (StatusError ?st)), ())"
    for ctx by (simp add: refusing_def)
  have facts: "same_type (e_proto ?E) (MUser [7, 8] :: bytes message_value) (MUser [])"
    "map_option status_code (status_in (StatusError ?st)) \<noteq> Some OK"
    "Unmarshal (e_proto ?E) None (Some (MUser [5])) = Inr (Some (MUser []))"
    by (simp_all add: proto_parts)
  have reply: "server_reply ?E background 0 example_store () (nextStreamID healthy_client) (norm_bytes ask_bytes) () =
      Some (\<lparr>r_id = 1, r_status = Some ?st, r_data = None, r_closeStream = True, r_streaming = False\<rparr>, ())"
    using ask_reply [of refusing AnyNil "Some (StatusError ?st)" None "Some (StatusError ?st)"] run
    by (simp add: method_outcome_def call_status_def example_grpc_def)
  have m: "reply_message ?E \<lparr>r_id = 1, r_status = Some ?st, r_data = None, r_closeStream = True,
      r_streaming = False\<rparr> = Some ?m"
    by (simp add: reply_message_def proto_parts example_grpc_def norm_bytes_def str_bytes_def code_names_def)
  have m_len: "slice_len (snd ?m) \<le> messageLengthMax" by (simp add: messageLengthMax_def)
  note result = unary_error_end_to_end [where others = "deliver ?m" and f = refusing and E = ?E,
    OF stub_env_ok srv int ask_request(2) facts(1) ask_request(1,3)
      refl run facts(2,3) sent(1,2) reply m m_len sent(3,4)]
  show ?thesis by (rule exI [of _ "deliver ?m"], rule exI) (use result in \<open>auto simp: status_for_def\<close>)
qed

section \<open>A streaming server\<close>

text \<open>The frame by which the main loop sends a streaming response.\<close>

definition stream_frame :: "response \<Rightarrow> message" where
  "stream_frame r =
     (\<lparr>Length = word_of_nat (slice_len (r_data r)), StreamID = r_id r, Type = messageTypeData,
       Flags = reply_flags r\<rparr>, norm_bytes (r_data r))"

lemma send_reply_stream:
  assumes "r_streaming r" "Code (e_grpc E) (r_status r) = OK"
  shows "send_reply E r w = send_message (stream_frame r) w"
proof -
  have "send sid t fl (norm_bytes b) w = send sid t fl b w" for sid t fl b
    unfolding send_def slice_norm slice_len_norm ..
  with assms show ?thesis by (simp add: send_reply_def stream_frame_def send_message_def)
qed

text \<open>
  Successive calls of \<open>RecvMsg\<close> whose waits end with the given messages, each with a new value \<open>m\<close>
  to fill: the results in order.
\<close>

fun recv_run ::
    "grpc \<Rightarrow> 'u proto \<Rightarrow> 'u any \<Rightarrow> clientStream \<Rightarrow> client \<Rightarrow> message list \<Rightarrow>
     (error option \<times> 'u any) list \<times> clientStream \<times> client" where
  "recv_run G P m cs c [] = ([], cs, c)"
| "recv_run G P m cs c (msg # msgs) =
     (case RecvMsg_finish G P m cs (WaitMsg msg) c of
        (res, cs1, c1) \<Rightarrow> (case recv_run G P m cs1 c1 msgs of (out, cs2, c2) \<Rightarrow> (res # out, cs2, c2)))"

lemma recv_data:
  assumes "proto_ok P" "\<forall>t. Unmarshal P (Some []) t = Unmarshal P None t"
    and "sd_StreamingServer (cs_desc cs)"
    and "Marshal P (Some v) = Inr p" "same_type P v target" "slice_len p \<le> messageLengthMax"
  shows "RecvMsg_finish G P (AnyMessage (Some target)) cs (WaitMsg (stream_frame
      \<lparr>r_id = sid, r_status = st, r_data = p, r_closeStream = False, r_streaming = True\<rparr>)) c =
    ((None, AnyMessage (Some (norm_message v))), cs, put_buffer (norm_bytes p) c)"
proof -
  have "codec_Unmarshal P (norm_bytes p) (AnyMessage (Some target)) = Inr (AnyMessage (Some (norm_message v)))"
    using assms(1,4,5) by (simp add: unmarshal_norm(1) [OF assms(2)] codec_Unmarshal_def proto_ok_def)
  then show ?thesis
    using assms(3) message_bytes_whole [OF assms(6)]
    by (auto simp: RecvMsg_finish_def RecvMsg_data_def stream_frame_def reply_flags_def has_flag_def message_consts)
qed

lemma recv_last:
  assumes "sd_StreamingServer (cs_desc cs)"
  shows "RecvMsg_finish G P m cs (WaitMsg (stream_frame
      \<lparr>r_id = sid, r_status = st, r_data = None, r_closeStream = True, r_streaming = True\<rparr>)) c =
    ((Some IoEOF, m), cs\<lparr>cs_remoteClosed := True\<rparr>, deleteStream (cs_s cs) c)"
  using assms by (simp add: RecvMsg_finish_def RecvMsg_data_def stream_frame_def reply_flags_def
      has_flag_def message_consts)

lemma recv_run_messages:
  assumes "proto_ok P" "\<forall>t. Unmarshal P (Some []) t = Unmarshal P None t"
    and "sd_StreamingServer (cs_desc cs)"
    and "list_all2 (\<lambda>v r. same_type P v target \<and> slice_len (r_data r) \<le> messageLengthMax \<and>
      Marshal P (Some v) = Inr (r_data r) \<and> \<not> r_closeStream r \<and> r_streaming r) vs rs"
  shows "\<exists>c'. recv_run G P (AnyMessage (Some target)) cs c (map stream_frame rs @ msgs) =
      (case recv_run G P (AnyMessage (Some target)) cs c' msgs of
        (out, cs1, c1) \<Rightarrow> (map (\<lambda>v. (None, AnyMessage (Some (norm_message v)))) vs @ out, cs1, c1)) \<and>
    c_heap c' = c_heap c \<and> c_streams c' = c_streams c"
  using assms(4)
proof (induction vs rs arbitrary: c rule: list_all2_induct)
  case (Cons v vs r rs)
  have "r = \<lparr>r_id = r_id r, r_status = r_status r, r_data = r_data r, r_closeStream = False, r_streaming = True\<rparr>"
    using Cons.hyps(1) by (cases r) simp
  with recv_data [OF assms(1-3), of v "r_data r" target G "r_id r" "r_status r" c] Cons.hyps(1)
  have "RecvMsg_finish G P (AnyMessage (Some target)) cs (WaitMsg (stream_frame r)) c =
      ((None, AnyMessage (Some (norm_message v))), cs, put_buffer (norm_bytes (r_data r)) c)" by metis
  moreover obtain c' where "recv_run G P (AnyMessage (Some target)) cs (put_buffer (norm_bytes (r_data r)) c)
      (map stream_frame rs @ msgs) = (case recv_run G P (AnyMessage (Some target)) cs c' msgs of
        (out, cs1, c1) \<Rightarrow> (map (\<lambda>v. (None, AnyMessage (Some (norm_message v)))) vs @ out, cs1, c1))"
    "c_heap c' = c_heap c" "c_streams c' = c_streams c"
    using Cons.IH [of "put_buffer (norm_bytes (r_data r)) c"] by auto
  ultimately show ?case by (intro exI [of _ c']) (simp split: prod.split)
next
  case Nil
  show ?case by (rule exI [of _ c]) (simp split: prod.split)
qed

text \<open>
  Claim C3. A server stream from the handler to the client: the messages that the handler sends, and
  then its return without an error, go out as data frames, the last without data and with the flags
  remote closed and no data; \<open>RecvMsg\<close> returns the messages in order, up to what the wire format cannot
  tell apart, then EOF, and gives the stream back.
\<close>

theorem server_stream_end_to_end:
  assumes "grpc_ok (e_grpc E)" and "proto_ok (e_proto E)"
    and "\<forall>t. Unmarshal (e_proto E) (Some []) t = Unmarshal (e_proto E) None t"
    and "list_all2 (\<lambda>v args. handler_SendMsg (e_grpc E) (e_proto E) (AnyMessage (Some v)) sh = Inr args) vs sends"
    and "\<forall>v \<in> set vs. same_type (e_proto E) v target"
    and "\<forall>args \<in> set sends. slice_len (fst (snd args)) \<le> messageLengthMax"
    and "streamInterceptor (e_services E) = defaultStreamServerInterceptor"
    and "Handler stream sctx ss w = ((AnyNil, None), w1)" and "StreamingServer stream"
    and "run_goroutine (e_grpc E) (e_proto E) grow now (e_services E) kctx ss h (StreamGo stream sctx info) w = (last_args, w2)"
    and "rs = map (args_response sid) (sends @ [last_args])"
    and "sd_StreamingServer (cs_desc cs)" and "stream_ok (c_heap c ! cs_s cs)" and "cs_s cs < length (c_heap c)"
  shows "w2 = w1 \<and> (\<forall>r \<in> set rs. \<forall>wr. send_reply E r wr = send_message (stream_frame r) wr) \<and>
    (case recv_run (e_grpc E) (e_proto E) (AnyMessage (Some target)) cs c (map stream_frame rs) of
      (out, cs', c') \<Rightarrow>
        out = map (\<lambda>v. (None, AnyMessage (Some (norm_message v)))) vs @ [(Some IoEOF, AnyMessage (Some target))] \<and>
        cs_remoteClosed cs' \<and> st_closed (c_heap c' ! cs_s cs) \<and>
        getStream (st_id (c_heap c ! cs_s cs)) c' = None)"
proof -
  let ?G = "e_grpc E" and ?P = "e_proto E"
  have last: "last_args = (call_status ?G None, None, True, True)" "w2 = w1"
    using assms(7-10) by (auto simp: streamCall_def defaultStreamServerInterceptor_def protoMarshal_def
        split: prod.splits)
  have code: "Code ?G (call_status ?G None) = OK" "Code ?G None = OK"
    using call_status_code [OF assms(1), of None] grpc_okD(2) [OF assms(1)] by simp_all
  have sends: "list_all2 (\<lambda>v args. \<exists>p. args = (None, p, True, False) \<and> Marshal ?P (Some v) = Inr p) vs sends"
    using assms(4) by (rule list_all2_mono)
      (auto simp: handler_SendMsg_def protoMarshal_def split: if_splits sum.splits)
  then have datas: "list_all2 (\<lambda>v r. same_type ?P v target \<and> slice_len (r_data r) \<le> messageLengthMax \<and>
      Marshal ?P (Some v) = Inr (r_data r) \<and> \<not> r_closeStream r \<and> r_streaming r) vs (map (args_response sid) sends)"
    using assms(5,6) by (fastforce simp: list_all2_conv_all_nth args_response_def all_set_conv_all_nth)
  have final: "RecvMsg_finish ?G ?P m cs (WaitMsg (stream_frame (args_response sid last_args))) c =
      ((Some IoEOF, m), cs\<lparr>cs_remoteClosed := True\<rparr>, deleteStream (cs_s cs) c)" for m c
    by (simp add: last(1) args_response_def recv_last [OF assms(12)])
  from recv_run_messages [OF assms(2,3,12) datas, of ?G c "[stream_frame (args_response sid last_args)]"]
  obtain c' where run: "recv_run ?G ?P (AnyMessage (Some target)) cs c (map stream_frame rs) =
      (map (\<lambda>v. (None, AnyMessage (Some (norm_message v)))) vs @ [(Some IoEOF, AnyMessage (Some target))],
       cs\<lparr>cs_remoteClosed := True\<rparr>, deleteStream (cs_s cs) c')" "c_heap c' = c_heap c"
    by (auto simp: assms(11) final)
  have "send_reply E r wr = send_message (stream_frame r) wr" if "r \<in> set rs" for r wr
  proof (rule send_reply_stream)
    have "\<forall>args \<in> set sends. \<exists>p. args = (None, p, True, False)"
      using sends by (fastforce simp: list_all2_conv_all_nth in_set_conv_nth)
    then show "r_streaming r" "Code ?G (r_status r) = OK"
      using that code by (auto simp: assms(11) last(1) args_response_def)
  qed
  then show ?thesis
    using run last(2) closed_close [OF assms(13), of None] assms(14)
    by (simp add: deleteStream_table getStream_def)
qed

theorem server_stream_end_to_end_witness:
  "\<exists>rs cs' c'. rs = map (args_response 1) [(None, Some [7], True, False), (None, Some [8], True, False),
      (None, None, True, True)] \<and>
    recv_run example_grpc example_proto (AnyMessage (Some (MUser []))) example_cs
      (healthy_client\<lparr>c_heap := [newStream 1 64], c_streams := [1 \<mapsto> 0]\<rparr>) (map stream_frame rs) =
    ([(None, AnyMessage (Some (MUser [7]))), (None, AnyMessage (Some (MUser [8]))),
      (Some IoEOF, AnyMessage (Some (MUser [])))], cs', c') \<and>
    getStream 1 c' = None"
proof -
  let ?E = "stub_env reversing"
  let ?stream = "\<lparr>Handler = \<lambda>ctx ss w. ((AnyNil, None), w), StreamingClient = False, StreamingServer = True\<rparr>
    :: (bytes, unit, unit) Stream"
  let ?sends = "[(None, Some [7], True, False), (None, Some [8], True, False)] :: respond_args list"
  let ?c = "healthy_client\<lparr>c_heap := [newStream 1 64], c_streams := [1 \<mapsto> 0]\<rparr>"
  have sends: "list_all2 (\<lambda>v args. handler_SendMsg (e_grpc ?E) (e_proto ?E) (AnyMessage (Some v)) example_handler =
      Inr args) [MUser [7], MUser [8]] ?sends"
    by (simp add: handler_SendMsg_def protoMarshal_def example_handler_def proto_parts)
  have run: "run_goroutine (e_grpc ?E) (e_proto ?E) (\<lambda>c n. n) 0 (e_services ?E) background () example_store
      (StreamGo ?stream background example_info) () = ((None, None, True, True), ())"
    by (simp add: streamCall_def example_service_def newServiceSet_def defaultStreamServerInterceptor_def
        protoMarshal_def call_status_def example_grpc_def)
  have facts: "\<forall>v \<in> set [MUser [7], MUser [8] :: bytes message_value]. same_type (e_proto ?E) v (MUser [])"
    "\<forall>args \<in> set ?sends. slice_len (fst (snd args)) \<le> messageLengthMax"
    "streamInterceptor (e_services ?E) = defaultStreamServerInterceptor"
    "Handler ?stream background () () = ((AnyNil, None), ())" "StreamingServer ?stream"
    by (simp_all add: messageLengthMax_def example_service_def newServiceSet_def)
  have client: "sd_StreamingServer (cs_desc example_cs)" "stream_ok (c_heap ?c ! cs_s example_cs)"
    "cs_s example_cs < length (c_heap ?c)"
    by (simp_all add: example_cs_def)
  from server_stream_end_to_end [where E = ?E, OF stub_env_ok sends facts run refl client, of 1]
  show ?thesis by (auto simp: example_cs_def newStream_def split: prod.splits)
qed

end
