(* ===== verification/Ttrpc_Link.thy ===== *)
theory Ttrpc_Link
  imports Ttrpc_Calls Ttrpc_ConnCalls "HOL-Library.Sublist"
begin

text \<open>
  A client and a server at the two ends of a connection (\<open>client.go\<close> and \<open>server.go\<close> together).

  A reader holds all the bytes that will arrive, so two executions fit together (\<open>linked\<close>) when each
  end was started with a part of the bytes that the other has written in the end. What an end has written and
  what lies before it are lists of messages that its state does not hold: they are traces, invariants in the sense of
  \<open>traced\<close>, one for a client that writes, one for a client that reads, and one for a
  connection of a server that does both.
\<close>

section \<open>Frames on the wire\<close>

text \<open>A frame that was cut off, possibly before its first byte.\<close>

definition cut_off :: "bytes \<Rightarrow> bool" where
  "cut_off tail \<longleftrightarrow> (\<exists>m. message_ok m \<and> proper_prefix tail (encode_message m))"

definition frames_of :: "message list \<Rightarrow> bytes \<Rightarrow> bool" where
  "frames_of ms bs \<longleftrightarrow> list_all message_ok ms \<and>
     (\<exists>tail. cut_off tail \<and> bs = concat (map encode_message ms) @ tail)"

lemma cut_prefix: "message_ok m \<Longrightarrow> k < length (encode_message m) \<Longrightarrow> cut_off (take k (encode_message m))"
  unfolding cut_off_def proper_prefix_def by (intro exI [of _ m]) simp

lemma length_encode_message: "0 < length (encode_message m)"
  by (simp add: encode_message_def messageHeaderLength_def)

lemma cut_Nil [simp]: "cut_off []"
proof -
  have "message_ok (example_message 1 [])" by (simp add: example_message_def message_ok_def)
  from cut_prefix [OF this length_encode_message] show ?thesis by simp
qed

lemma cut_take:
  assumes "cut_off tail"
  shows "cut_off (take k tail)"
proof -
  from assms obtain m where m: "message_ok m" "length tail < length (encode_message m)"
    "tail = take (length tail) (encode_message m)" by (auto simp: cut_off_def proper_prefix_def)
  from m(3) have "take k tail = take (min k (length tail)) (encode_message m)" by (metis take_take)
  with cut_prefix [OF m(1), of "min k (length tail)"] m(2) show ?thesis by simp
qed

lemma frames_of_whole: "list_all message_ok ms \<Longrightarrow> frames_of ms (concat (map encode_message ms))"
  unfolding frames_of_def by (intro conjI exI [of _ "[]"]) simp_all

lemma frames_take:
  assumes "frames_of ms bs"
  shows "\<exists>n. frames_of (take n ms) (take k bs)"
  using assms
proof (induction ms arbitrary: bs k)
  case Nil
  then show ?case by (auto simp: frames_of_def cut_take)
next
  case (Cons m ms)
  from Cons.prems obtain tail where ok: "message_ok m" "list_all message_ok ms" "cut_off tail"
    and bs: "bs = encode_message m @ concat (map encode_message ms) @ tail"
    by (auto simp: frames_of_def)
  show ?case
  proof (cases "k < length (encode_message m)")
    case True
    with cut_prefix [OF ok(1) True] have "frames_of (take 0 (m # ms)) (take k bs)"
      by (simp add: frames_of_def bs)
    then show ?thesis ..
  next
    case False
    from ok have "frames_of ms (concat (map encode_message ms) @ tail)" by (auto simp: frames_of_def)
    from Cons.IH [OF this, of "k - length (encode_message m)"] obtain n where
      "frames_of (take n ms) (take (k - length (encode_message m)) (concat (map encode_message ms) @ tail))" ..
    with ok(1) False have "frames_of (take (Suc n) (m # ms)) (take k bs)" by (auto simp: frames_of_def bs)
    then show ?thesis ..
  qed
qed

lemma recv_cut:
  assumes "cut_off tail" "status_in e = None"
  shows "\<exists>e'. recv pool \<lparr>rd_rest = tail, rd_err = e\<rparr> =
    ((zero_header, None, Some e'), \<lparr>rd_rest = [], rd_err = e\<rparr>) \<and> status_in e' = None"
proof -
  from assms(1) obtain m where m: "message_ok m" "length tail < length (encode_message m)"
    "tail = take (length tail) (encode_message m)" by (auto simp: cut_off_def proper_prefix_def)
  show ?thesis
  proof (cases "length tail < messageHeaderLength")
    case True
    with assms(2) show ?thesis by (simp add: recv_def readMessageHeader_def ReadFull_def)
  next
    case False
    obtain mh p where [simp]: "m = (mh, p)" by fastforce
    let ?body = "take (length tail - messageHeaderLength) (slice p)"
    from False m(3) have "tail = encode_header mh @ ?body" by (simp add: encode_message_def)
    moreover have "unat (Length mh) = length (slice p)" "unat (Length mh) \<le> messageLengthMax"
      using m(1) by (simp_all add: message_ok_def slice_len_def)
    moreover from this False m(2) have "length ?body < unat (Length mh)" by (simp add: encode_message_def)
    ultimately show ?thesis
      using recv_truncated_payload [of ?body mh pool e] assms(2) by simp
  qed
qed

text \<open>A reader before which the messages \<open>ms\<close> lie, and whose connection ends with no status.\<close>

definition readable :: "message list \<Rightarrow> reader \<Rightarrow> bool" where
  "readable ms r \<longleftrightarrow> frames_of ms (rd_rest r) \<and> status_in (rd_err r) = None"

lemma recv_readable:
  assumes "readable ms r" "recv pool r = ((mh, p, err), r')"
  shows "case ms of
      [] \<Rightarrow> (\<exists>e. err = Some e \<and> status_in e = None) \<and> readable [] r'
    | m # ms' \<Rightarrow> err = None \<and> (mh, p) = m \<and> readable ms' r'"
proof (cases ms)
  case Nil
  with assms(1) have "cut_off (rd_rest r)" "status_in (rd_err r) = None"
    by (simp_all add: readable_def frames_of_def)
  from recv_cut [OF this, of pool] obtain e' where
    "recv pool r = ((zero_header, None, Some e'), \<lparr>rd_rest = [], rd_err = rd_err r\<rparr>)" "status_in e' = None"
    by (cases r) auto
  with Nil assms have "err = Some e'" "r' = \<lparr>rd_rest = [], rd_err = rd_err r\<rparr>" "status_in e' = None" by simp_all
  with Nil assms(1) show ?thesis by (simp add: readable_def frames_of_def)
next
  case (Cons m ms')
  with assms(1) obtain tail where ok: "message_ok m" "list_all message_ok ms'" "cut_off tail" "status_in (rd_err r) = None"
    and rest: "rd_rest r = encode_message m @ concat (map encode_message ms') @ tail"
    by (auto simp: readable_def frames_of_def)
  from recv_encode [OF ok(1), of pool _ "rd_err r"] rest
  have "recv pool r = ((fst m, snd m, None), \<lparr>rd_rest = concat (map encode_message ms') @ tail, rd_err = rd_err r\<rparr>)"
    by (cases r) simp
  with Cons assms(2) ok show ?thesis by (auto simp: readable_def frames_of_def)
qed

lemma readable_take: "readable ms r \<Longrightarrow> status_in e = None \<Longrightarrow>
    \<exists>n. readable (take n ms) \<lparr>rd_rest = take k (rd_rest r), rd_err = e\<rparr>"
  using frames_take [of ms "rd_rest r" k] by (auto simp: readable_def)

text \<open>
  A writer that has put the messages \<open>ms\<close> on the wire, and after them a part of a frame only if it has failed.
\<close>

definition writer_at :: "message list \<Rightarrow> bufw \<Rightarrow> bool" where
  "writer_at ms w \<longleftrightarrow> frames_of ms (wc_sent (w_conn w)) \<and>
     (w_err w = None \<longrightarrow> w_buf w = [] \<and> wc_sent (w_conn w) = concat (map encode_message ms))"

definition sent_frame :: "u32 \<Rightarrow> messageType \<Rightarrow> u8 \<Rightarrow> gobytes \<Rightarrow> message" where
  "sent_frame sid t fl p =
     (\<lparr>Length = word_of_nat (slice_len p), StreamID = sid, Type = t, Flags = fl\<rparr>,
      if slice_len p = 0 then None else p)"

lemma sent_frame_simps [simp]:
  "StreamID (fst (sent_frame sid t fl p)) = sid" "Type (fst (sent_frame sid t fl p)) = t"
  by (simp_all add: sent_frame_def)

lemma sent_frame_ok: "slice_len p \<le> messageLengthMax \<Longrightarrow> message_ok (sent_frame sid t fl p)"
  by (cases p) (auto simp: sent_frame_def message_ok_def messageLengthMax_def unat_u32_of_nat)

lemma sent_frame_bytes: "encode_message (sent_frame sid t fl p) = frame sid t fl p"
  by (auto simp: sent_frame_def frame_def encode_message_def slice_len_def)

lemma send_writer_at:
  assumes "writer_at ms w" "send sid t fl p w = (err, w')"
  shows "err \<noteq> None \<and> writer_at ms w' \<or> writer_at (ms @ [sent_frame sid t fl p]) w'"
proof (cases "messageLengthMax < slice_len p \<or> w_err w \<noteq> None")
  case True
  with assms(2) have "w' = w \<and> err \<noteq> None"
    by (auto simp: send_def writeMessageHeader_def bufio_Write_sticky OversizedMessageError_def split: if_splits) metis
  with assms(1) show ?thesis by simp
next
  case False
  then have len: "slice_len p \<le> messageLengthMax" and w: "w_err w = None" by auto
  with assms(1) have buf: "w_buf w = []" and ms: "list_all message_ok ms"
    and sent: "wc_sent (w_conn w) = concat (map encode_message ms)"
    by (simp_all add: writer_at_def frames_of_def)
  note put = send_through_buffer [OF w buf len refl assms(2), folded frame_def]
  note ok = sent_frame_ok [OF len, of sid t fl]
  show ?thesis
  proof (cases err)
    case None
    with put conn_put_sent [of "frame sid t fl p" "w_conn w" "w_conn w'"]
    have "wc_sent (w_conn w') = concat (map encode_message (ms @ [sent_frame sid t fl p]))"
      "w_buf w' = []" by (simp_all add: sent sent_frame_bytes)
    with ms ok frames_of_whole [of "ms @ [sent_frame sid t fl p]"] show ?thesis
      by (simp add: writer_at_def)
  next
    case (Some e)
    with put conn_put_prefix [of "frame sid t fl p" "w_conn w" e "w_conn w'"] obtain tail where
      "wc_sent (w_conn w') = concat (map encode_message ms) @ tail" "proper_prefix tail (frame sid t fl p)"
      "w_err w' = Some e" by (auto simp: sent)
    with ms ok Some show ?thesis
      unfolding writer_at_def frames_of_def cut_off_def by (metis option.simps(3) sent_frame_bytes)
  qed
qed

lemma writer_at_same:
  "writer_at ms w \<Longrightarrow> w_err w' = w_err w \<Longrightarrow> w_buf w' = w_buf w \<Longrightarrow>
     wc_sent (w_conn w') = wc_sent (w_conn w) \<Longrightarrow> writer_at ms w'"
  by (simp add: writer_at_def)

section \<open>What a client writes and reads\<close>

definition request_ids :: "message list \<Rightarrow> u32 list" where
  "request_ids ms = map (\<lambda>m. StreamID (fst m)) (filter (\<lambda>m. Type (fst m) = messageTypeRequest) ms)"

lemma request_ids_simps [simp]:
  "request_ids [] = []" "request_ids (ms @ ms') = request_ids ms @ request_ids ms'"
  "request_ids (m # ms) =
     (if Type (fst m) = messageTypeRequest then StreamID (fst m) # request_ids ms else request_ids ms)"
  by (simp_all add: request_ids_def)

text \<open>
  On the wire are requests, whose identifiers come in the order of the calls, and data for streams that were made.
\<close>

definition client_wrote :: "client_sys \<Rightarrow> message list \<Rightarrow> bool" where
  "client_wrote s ms \<longleftrightarrow> writer_at ms (c_w (cl_client s)) \<and> subseq (request_ids ms) (cl_requests s) \<and>
     (\<forall>m \<in> set ms. Type (fst m) \<in> {messageTypeRequest, messageTypeData} \<and>
        StreamID (fst m) \<in> stream_number ` {..<length (c_heap (cl_client s))})"

text \<open>
  What a stream holds and what is under way to it, followed by what the client has not read, comes
  from the messages it was given, in their order.
\<close>

definition delivering :: "run_phase \<Rightarrow> nat \<Rightarrow> message list" where
  "delivering ph i =
     (case ph of
        Deliver ref m dp \<Rightarrow> if ref = i \<and> (\<forall>err. dp \<noteq> RcvReturn err) then [m] else []
      | _ \<Rightarrow> [])"

definition client_reads :: "message list \<Rightarrow> client_sys \<Rightarrow> message list \<Rightarrow> bool" where
  "client_reads B s ms \<longleftrightarrow> readable ms (c_r (cl_client s)) \<and> subseq ms B \<and>
     (\<forall>i < length (c_heap (cl_client s)).
        subseq (st_queue (c_heap (cl_client s) ! i) @ delivering (cl_run s) i @ ms) B)"

definition fresh_writer :: "bufw \<Rightarrow> bool" where
  "fresh_writer w \<longleftrightarrow> w_buf w = [] \<and> w_err w = None \<and> wc_sent (w_conn w) = []"

definition client_fresh :: "client_sys \<Rightarrow> bool" where
  "client_fresh s \<longleftrightarrow> client_start s \<and> fresh_writer (c_w (cl_client s))"

definition client_fed :: "message list \<Rightarrow> client_sys \<Rightarrow> bool" where
  "client_fed B s \<longleftrightarrow> client_start s \<and> readable B (c_r (cl_client s))"

lemma fresh_writer_at: "fresh_writer w \<Longrightarrow> writer_at [] w"
  by (simp add: fresh_writer_def writer_at_def frames_of_def)

lemma client_wrote_start: "client_fresh s \<Longrightarrow> client_wrote s []"
  by (auto simp: client_fresh_def client_start_def client_wrote_def NewClient_def newChannel_def Let_def
      fresh_writer_at)

lemma client_reads_start: "client_fed B s \<Longrightarrow> client_reads B s B"
  by (auto simp: client_fed_def client_start_def client_reads_def NewClient_def newChannel_def Let_def)

text \<open>The writer is changed by closing the connection only, and what it holds and has sent is kept.\<close>

definition same_wire :: "bufw \<Rightarrow> bufw \<Rightarrow> bool" where
  "same_wire w w' \<longleftrightarrow> w_err w' = w_err w \<and> w_buf w' = w_buf w \<and> wc_sent (w_conn w') = wc_sent (w_conn w)"

lemma same_wire_at: "writer_at ms w \<Longrightarrow> same_wire w w' \<Longrightarrow> writer_at ms w'"
  by (simp add: writer_at_def same_wire_def)

lemma same_wire_refl [simp]: "same_wire w w"
  by (simp add: same_wire_def)

lemma client_Close_wire: "same_wire (c_w c) (c_w (client_Close n c))"
  by (simp add: client_Close_def conn_Close_def same_wire_def)

lemma cleanupStreams_sides: "c_w (cleanupStreams order err c) = c_w c \<and> c_r (cleanupStreams order err c) = c_r c"
proof (induction order arbitrary: c)
  case (Cons sid order)
  have "c_w (cleanup_turn err sid c) = c_w c \<and> c_r (cleanup_turn err sid c) = c_r c"
    by (simp add: cleanup_turn_def on_stream_def Let_def split: option.split)
  with Cons.IH [of "cleanup_turn err sid c"] show ?case by (simp add: cleanupStreams_def)
qed (simp add: cleanupStreams_def)

lemma receive_message_wire:
  "receive_message G pool c = (ph, c') \<Longrightarrow> c_w c' = c_w c \<and> length (c_heap c') = length (c_heap c)"
  by (auto simp: receive_message_def Let_def on_stream_def split: prod.splits if_splits option.splits)

lemma run_next_wire:
  assumes "(ph', c') \<in> set (run_next G pool n order ph c)" "heap_ok c"
  shows "same_wire (c_w c) (c_w c') \<and> length (c_heap c') = length (c_heap c)"
proof (cases ph)
  case LoopRecv
  with assms(1) have "receive_message G pool c = (ph', c')" by simp
  from receive_message_wire [OF this] show ?thesis by simp
next
  case (Deliver i m dp)
  with assms(1) show ?thesis
    by (cases "\<exists>err. dp = RcvReturn err") (auto simp: run_next_Deliver)
next
  case (Cleanup err)
  with assms(1) cleanupStreams_ok(2) [OF assms(2), of order err] show ?thesis
    by (simp add: cleanupStreams_sides streams_evolve_def)
qed (use assms(1) client_Close_wire in \<open>auto split: if_splits\<close>)

lemma client_wrote_same:
  "client_wrote s ms \<Longrightarrow> same_wire (c_w (cl_client s)) (c_w (cl_client t)) \<Longrightarrow>
     length (c_heap (cl_client t)) = length (c_heap (cl_client s)) \<Longrightarrow> cl_requests t = cl_requests s \<Longrightarrow>
     client_wrote t ms"
  by (auto simp: client_wrote_def same_wire_at)

lemma client_wrote_send:
  assumes "client_wrote s ms" "send sid t fl p (c_w (cl_client s)) = (err, w)"
    and "t = messageTypeRequest \<and> new = [sid] \<or> t = messageTypeData \<and> new = []"
    and "sid \<in> stream_number ` {..<length (c_heap (cl_client s))}"
  shows "\<exists>ms'. client_wrote (s\<lparr>cl_client := (cl_client s)\<lparr>c_w := w\<rparr>, cl_creating := cr,
    cl_requests := cl_requests s @ new\<rparr>) ms'"
proof -
  from assms(1) have at: "writer_at ms (c_w (cl_client s))" and sub: "subseq (request_ids ms) (cl_requests s)"
    by (simp_all add: client_wrote_def)
  have skip: "subseq (request_ids ms) (cl_requests s @ new)" using sub by (rule subseq_rev_drop_many)
  have add: "subseq (request_ids (ms @ [sent_frame sid t fl p])) (cl_requests s @ new)"
    using assms(3) sub by (auto simp: message_consts list_emb_append_mono)
  let ?t = "s\<lparr>cl_client := (cl_client s)\<lparr>c_w := w\<rparr>, cl_creating := cr,
    cl_requests := cl_requests s @ new\<rparr>"
  have "client_wrote ?t ms" if "writer_at ms w"
    using that skip assms(1) by (simp add: client_wrote_def)
  moreover have "client_wrote ?t (ms @ [sent_frame sid t fl p])"
    if "writer_at (ms @ [sent_frame sid t fl p]) w"
    using that add assms(1,3,4) by (auto simp: client_wrote_def simp del: request_ids_simps)
  ultimately show ?thesis using send_writer_at [OF at assms(2)] by blast
qed

lemma client_reads_mono:
  assumes "client_reads B s ms" "readable ms' (c_r (cl_client t))" "subseq ms' ms"
    and "length (c_heap (cl_client t)) = length (c_heap (cl_client s))"
    and "\<And>i. i < length (c_heap (cl_client s)) \<Longrightarrow>
      subseq (st_queue (c_heap (cl_client t) ! i) @ delivering (cl_run t) i @ ms')
        (st_queue (c_heap (cl_client s) ! i) @ delivering (cl_run s) i @ ms)"
  shows "client_reads B t ms'"
  using assms unfolding client_reads_def by (metis subseq_order.order_trans)

text \<open>The common case: nothing is read.\<close>

lemma client_reads_keep:
  assumes "client_reads B s ms" "c_r (cl_client t) = c_r (cl_client s)"
    and "length (c_heap (cl_client t)) = length (c_heap (cl_client s))"
    and "\<And>i. i < length (c_heap (cl_client s)) \<Longrightarrow>
      subseq (st_queue (c_heap (cl_client t) ! i) @ delivering (cl_run t) i)
        (st_queue (c_heap (cl_client s) ! i) @ delivering (cl_run s) i)"
  shows "client_reads B t ms"
proof (rule client_reads_mono [OF assms(1)])
  show "readable ms (c_r (cl_client t))" using assms(1,2) by (simp add: client_reads_def)
  show "subseq (st_queue (c_heap (cl_client t) ! i) @ delivering (cl_run t) i @ ms)
      (st_queue (c_heap (cl_client s) ! i) @ delivering (cl_run s) i @ ms)"
    if "i < length (c_heap (cl_client s))" for i
    using list_emb_append_mono [OF assms(4) [OF that] subseq_order.order_refl [of ms]] by simp
qed (simp_all add: assms(3))

lemma queue_cleanup:
  "st_queue (c_heap (cleanupStreams order err c) ! i) = st_queue (c_heap c ! i)"
proof (induction order arbitrary: c)
  case (Cons sid order)
  have "st_queue (c_heap (cleanup_turn err sid c) ! i) = st_queue (c_heap c ! i)"
    by (simp add: cleanup_turn_def on_stream_def Let_def nth_update_if split: option.split)
  with Cons.IH [of "cleanup_turn err sid c"] show ?case by (simp add: cleanupStreams_def)
qed (simp add: cleanupStreams_def)

text \<open>A message is queued at most once: the step that queues it returns.\<close>

lemma receive_next_queue:
  assumes "stream_ok st" "(dp', st') \<in> set (receive_next done m dp st)"
  shows "dp' = RcvReturn None \<and> st_queue st' = st_queue st @ [m] \<or> st_queue st' = st_queue st"
  using receive_next_shape [OF assms] by (auto simp: stream_offer_Some stream_view)

lemma client_reads_close:
  assumes "client_reads B s ms"
    and "c_heap (cl_client t) = c_heap (cl_client s)" "delivering (cl_run t) = delivering (cl_run s)"
    and "c_r (cl_client t) = c_r (client_Close n (cl_client s))"
  shows "\<exists>ms'. client_reads B t ms'"
proof -
  have "status_in (OpError ''read'' '''' NetErrClosed) = None" by simp
  from readable_take [OF _ this, of ms "c_r (cl_client s)" n] assms(1) obtain k where
    "readable (take k ms) \<lparr>rd_rest = take n (rd_rest (c_r (cl_client s))), rd_err = OpError ''read'' '''' NetErrClosed\<rparr>"
    by (auto simp: client_reads_def)
  moreover have "subseq (take k ms) ms" by (rule prefix_imp_subseq) (rule take_is_prefix)
  ultimately have "client_reads B t (if c_closeOnce (cl_client s) then ms else take k ms)"
    using assms
    by (intro client_reads_mono [OF assms(1)])
      (auto simp: client_Close_def conn_Close_def client_reads_def intro!: list_emb_append_mono)
  then show ?thesis ..
qed

lemma client_reads_message:
  assumes G: "grpc_ok G" and reads: "client_reads B s ms" and run: "cl_run s = LoopRecv"
    and rcv: "receive_message G pool (cl_client s) = (ph, c)"
  shows "\<exists>ms'. client_reads B (s\<lparr>cl_client := c, cl_run := ph\<rparr>) ms'"
proof -
  let ?c = "cl_client s"
  obtain mh p err r where rc: "recv pool (c_r ?c) = ((mh, p, err), r)" by (metis surj_pair)
  from reads have "readable ms (c_r ?c)" by (simp add: client_reads_def)
  note got = recv_readable [OF this rc]
  show ?thesis
  proof (cases ms)
    case Nil
    with got obtain e where "err = Some e" "status_in e = None" "readable [] r" by auto
    moreover from this have "\<not> snd (FromError G err)" using grpc_okD(7) [OF G] by simp
    ultimately have "(ph, c) = (Closing (filterCloseErr (StatusText G) err), ?c\<lparr>c_r := r\<rparr>)" "readable [] r"
      using rcv by (auto simp: receive_message_def rc Let_def)
    then have "client_reads B (s\<lparr>cl_client := c, cl_run := ph\<rparr>) []"
      by (intro client_reads_mono [OF reads]) (auto simp: delivering_def)
    then show ?thesis ..
  next
    case (Cons m ms')
    with got have m: "err = None" "(mh, p) = m" "readable ms' r" by auto
    with rcv consider "(ph, c) = (LoopTop, ?c\<lparr>c_r := r\<rparr>)"
      | i where "(ph, c) = (Deliver i m RcvEnter, ?c\<lparr>c_r := r\<rparr>)"
      by (auto simp: receive_message_def rc Let_def split: option.splits)
    then have "client_reads B (s\<lparr>cl_client := c, cl_run := ph\<rparr>) ms'"
    proof cases
      case 1
      with m(3) show ?thesis
        by (intro client_reads_mono [OF reads])
          (auto simp: Cons delivering_def run intro!: list_emb_append_mono list_emb_Cons)
    next
      case 2
      with m(3) show ?thesis
        by (intro client_reads_mono [OF reads])
          (auto simp: Cons delivering_def run intro!: list_emb_append_mono list_emb_Cons)
    qed
    then show ?thesis ..
  qed
qed

lemma client_reads_deliver:
  assumes "client_reads B s ms" "cl_run s = Deliver j m dp" "stream_ok (c_heap (cl_client s) ! j)"
    and "(ph, c) \<in> set (run_next G pool n order (cl_run s) (cl_client s))"
  shows "client_reads B (s\<lparr>cl_client := c, cl_run := ph\<rparr>) ms"
proof (cases "\<exists>err. dp = RcvReturn err")
  case True
  with assms show ?thesis by (intro client_reads_keep [OF assms(1)]) (auto simp: delivering_def)
next
  case False
  with assms(2,4) obtain dp' st where nxt: "(dp', st) \<in> set (receive_next (done_err (cl_client s)) m dp (c_heap (cl_client s) ! j))"
    and "ph = Deliver j m dp'" "c = (cl_client s)\<lparr>c_heap := (c_heap (cl_client s))[j := st]\<rparr>"
    by (auto simp: run_next_Deliver)
  with receive_next_queue [OF assms(3) nxt] assms(2) False show ?thesis
    by (intro client_reads_keep [OF assms(1)]) (auto simp: delivering_def nth_update_if)
qed

lemma client_reads_run:
  assumes "grpc_ok G" "client_reads B s ms" "client_inv s"
    and "(ph, c) \<in> set (run_next G pool n order (cl_run s) (cl_client s))"
  shows "\<exists>ms'. client_reads B (s\<lparr>cl_client := c, cl_run := ph\<rparr>) ms'"
proof (cases "cl_run s")
  case LoopRecv
  with assms client_reads_message [OF assms(1,2)] show ?thesis by auto
next
  case (Deliver i m dp)
  with assms(3) have "stream_ok (c_heap (cl_client s) ! i)"
    by (auto simp: client_inv_def run_ok_def intro: heap_okD(3))
  from client_reads_deliver [OF assms(2) Deliver this assms(4)] show ?thesis ..
next
  case (Closing err)
  with assms(4) show ?thesis
    by (intro client_reads_close [OF assms(2), where n = n]) (auto simp: delivering_def fun_eq_iff)
next
  case (Cleanup err)
  have "heap_ok (cl_client s)" using assms(3) by (simp add: client_inv_def)
  from cleanupStreams_ok(2) [OF this, of order err] Cleanup assms(4) show ?thesis
    by (intro exI [of _ ms] client_reads_keep [OF assms(2)])
      (auto simp: cleanupStreams_sides streams_evolve_def queue_cleanup delivering_def)
next
  case LoopTop
  with assms(4) show ?thesis
    by (intro exI [of _ ms] client_reads_keep [OF assms(2)]) (auto simp: delivering_def)
next
  case UserClose
  with assms(4) show ?thesis
    by (intro exI [of _ ms] client_reads_keep [OF assms(2)]) (auto simp: delivering_def)
qed (use assms(4) in simp)

lemma subseq_tail: "subseq xs (x # xs)"
  by (rule list_emb_Cons) simp

lemma client_wrote_client_send:
  assumes "client_wrote s ms" "client_send sid t fl p (cl_client s) = (err, c)"
    and "t = messageTypeRequest \<and> new = [sid] \<or> t = messageTypeData \<and> new = []"
    and "sid \<in> stream_number ` {..<length (c_heap (cl_client s))}"
  shows "\<exists>ms'. client_wrote (s\<lparr>cl_client := c, cl_creating := cr, cl_requests := cl_requests s @ new\<rparr>) ms'"
proof -
  from assms(2) obtain w where w: "send sid t fl p (c_w (cl_client s)) = (err, w)" "c = (cl_client s)\<lparr>c_w := w\<rparr>"
    by (auto simp: client_send_def split: prod.splits)
  from client_wrote_send [OF assms(1) w(1) assms(3,4)] show ?thesis unfolding w(2) .
qed

lemma client_alloc_sides:
  "createStream_alloc n c = (x, c') \<Longrightarrow> c_w c' = c_w c \<and> c_r c' = c_r c"
  by (auto simp: createStream_alloc_def Let_def split: if_splits)

lemma client_wrote_step:
  assumes "client_step G s t" "client_inv s" "client_wrote s ms"
  shows "\<exists>ms'. client_wrote t ms'"
proof -
  have ok: "heap_ok (cl_client s)" using assms(2) by (simp add: client_inv_def)
  have same: "\<exists>ms'. client_wrote t ms'" if "same_wire (c_w (cl_client s)) (c_w (cl_client t))"
    "length (c_heap (cl_client t)) = length (c_heap (cl_client s))" "cl_requests t = cl_requests s"
    using client_wrote_same [OF assms(3) that] ..
  from assms(1) show ?thesis
  proof cases
    case (cl_run ph c pool n order)
    with run_next_wire [OF cl_run(2) ok] show ?thesis by (intro same) simp_all
  next
    case (cl_alloc recvBuf ref c)
    with heap_ok_alloc(2,3) [OF ok cl_alloc(3)] client_alloc_sides [OF cl_alloc(3)] assms(3)
    have "client_wrote t ms" by (auto simp: client_wrote_def)
    then show ?thesis ..
  next
    case (cl_request ref flags b err c)
    have ref: "ref < length (c_heap (cl_client s))"
      using assms(2) cl_request(2) by (simp add: client_inv_def requests_ok_def Let_def)
    obtain err' where "client_send (st_id (c_heap (cl_client s) ! ref)) messageTypeRequest flags b (cl_client s) = (err', c)"
      using cl_request(3) by (auto simp: createStream_send_def split: prod.splits)
    from client_wrote_client_send [OF assms(3) this, of "[st_id (c_heap (cl_client s) ! ref)]" None]
      heap_okD(2) [OF ok ref] ref cl_request(1) show ?thesis by simp
  next
    case (cl_data ref flags b err c)
    from cl_data(4) have "client_send (st_id (c_heap (cl_client s) ! ref)) messageTypeData flags b (cl_client s) = (err, c)"
      by (simp add: stream_send_def)
    from client_wrote_client_send [OF assms(3) this, of "[]" None]
      heap_okD(2) [OF ok cl_data(3)] cl_data(3) have
      "\<exists>ms'. client_wrote (s\<lparr>cl_client := c, cl_creating := None, cl_requests := cl_requests s @ []\<rparr>) ms'"
      by simp
    moreover have "t = s\<lparr>cl_client := c, cl_creating := None, cl_requests := cl_requests s @ []\<rparr>"
      using cl_data(1,2) by (cases s) simp
    ultimately show ?thesis by simp
  next
    case (cl_take ref r c)
    with stream_ready_shape [OF cl_take(3)] show ?thesis by (intro same) auto
  next
    case (cl_close n)
    then show ?thesis by (intro same) (simp_all add: client_Close_wire)
  qed (intro same; simp add: deleteStream_map_def on_stream_def)+
qed

lemma client_reads_alloc:
  assumes "client_reads B s ms" "client_inv s" "createStream_alloc n (cl_client s) = (Inr ref, c)"
  shows "client_reads B (s\<lparr>cl_client := c, cl_creating := Some ref\<rparr>) ms"
proof -
  have ok: "heap_ok (cl_client s)" using assms(2) by (simp add: client_inv_def)
  note al = heap_ok_alloc [OF ok assms(3)]
  have "delivering (cl_run s) ref = []"
    using assms(2) al(2) by (auto simp: client_inv_def run_ok_def delivering_def split: run_phase.splits)
  then show ?thesis
    using assms(1) al(2,3) client_alloc_sides [OF assms(3)]
    by (auto simp: client_reads_def nth_append less_Suc_eq newStream_def stream_view)
qed

lemma client_reads_step:
  assumes "client_step G s t" "grpc_ok G" "client_inv s" "client_reads B s ms"
  shows "\<exists>ms'. client_reads B t ms'"
proof -
  have keep: "\<exists>ms'. client_reads B t ms'"
    if "c_r (cl_client t) = c_r (cl_client s)" "cl_run t = cl_run s"
      "length (c_heap (cl_client t)) = length (c_heap (cl_client s))"
      "\<And>i. i < length (c_heap (cl_client s)) \<Longrightarrow>
        subseq (st_queue (c_heap (cl_client t) ! i)) (st_queue (c_heap (cl_client s) ! i))"
    using client_reads_keep [OF assms(4), of t] that by (auto intro!: exI [of _ ms] list_emb_append_mono)
  from assms(1) show ?thesis
  proof cases
    case (cl_run ph c pool n order)
    from client_reads_run [OF assms(2,4,3) cl_run(2)] cl_run(1) show ?thesis by simp
  next
    case (cl_alloc recvBuf ref c)
    from client_reads_alloc [OF assms(4,3) cl_alloc(3)] cl_alloc(1) show ?thesis by blast
  next
    case (cl_request ref flags b err c)
    from createStream_send_shape [OF cl_request(3)] cl_request(1) show ?thesis by (intro keep) auto
  next
    case (cl_data ref flags b err c)
    from stream_send_shape [OF cl_data(4)] cl_data(1) show ?thesis by (intro keep) auto
  next
    case (cl_take ref r c)
    from stream_ready_shape [OF cl_take(3)] have
      "c = cl_client s \<or> (\<exists>m st. stream_take (c_heap (cl_client s) ! ref) = Some (m, st) \<and>
         c = (cl_client s)\<lparr>c_heap := (c_heap (cl_client s))[ref := st]\<rparr>)" by blast
    then show ?thesis
      using cl_take(1)
      by (intro keep) (auto simp: nth_update_if stream_take_Some stream_view subseq_tail)
  next
    case (cl_close n)
    then show ?thesis by (intro client_reads_close [OF assms(4), where n = n]) simp_all
  qed (intro keep; simp add: deleteStream_map_def on_stream_def nth_update_if)+
qed

interpretation client_writes: traced client_fresh "client_step G" client_inv client_wrote
proof unfold_locales
  show "client_fresh s \<Longrightarrow> client_inv s" for s
    using client_reach.inv_start by (auto simp: client_fresh_def)
qed (use client_inv_step client_wrote_start client_wrote_step in blast)+

interpretation client_reading: traced "\<lambda>s. grpc_ok G \<and> client_fed B s" "client_step G"
  "\<lambda>s. grpc_ok G \<and> client_inv s" "client_reads B"
proof unfold_locales
  show "grpc_ok G \<and> client_fed B s \<Longrightarrow> grpc_ok G \<and> client_inv s" for s
    using client_reach.inv_start by (auto simp: client_fed_def)
qed (use client_inv_step client_reads_start client_reads_step in blast)+

section \<open>What a server reads and writes\<close>

text \<open>What a client puts on the wire.\<close>

definition client_traffic :: "message list \<Rightarrow> bool" where
  "client_traffic A \<longleftrightarrow> sorted_wrt (<) (request_ids A) \<and>
     (\<forall>m \<in> set A. odd (unat (StreamID (fst m))) \<and>
        Type (fst m) \<in> {messageTypeRequest, messageTypeData})"

definition stream_ids :: "message list \<Rightarrow> u32 set" where
  "stream_ids ms = (\<lambda>m. StreamID (fst m)) ` set ms"

text \<open>
  Before the receiver lies an end of the traffic, whose requests are newer than all it has seen; the
  calls come from requests, in their order.
\<close>

definition conn_reads :: "message list \<Rightarrow> conn \<Rightarrow> message list \<Rightarrow> bool" where
  "conn_reads A s ms \<longleftrightarrow> readable ms (k_r s) \<and> suffix ms A \<and>
     (\<forall>sid \<in> set (request_ids ms). k_lastStreamID s < sid) \<and>
     subseq (map call_id (k_calls s) @ request_ids ms) (request_ids A)"

text \<open>The identifiers of the responses that the receiver and the main loop are about to send.\<close>

fun receiver_ids :: "receiver \<Rightarrow> u32 set" where
  "receiver_ids (RSend r) = {r_id r}"
| "receiver_ids (RData ref msg ph) = {StreamID (fst msg)}"
| "receiver_ids (RHandle sid ref p ph) = {sid}"
| "receiver_ids _ = {}"

fun main_ids :: "main_loop \<Rightarrow> u32 set" where
  "main_ids (MReply r) = {r_id r}"
| "main_ids _ = {}"

definition conn_wrote :: "message list \<Rightarrow> conn \<Rightarrow> message list \<Rightarrow> bool" where
  "conn_wrote A s ms \<longleftrightarrow> writer_at ms (k_w s) \<and>
     (\<forall>m \<in> set ms. Type (fst m) \<in> {messageTypeResponse, messageTypeData} \<and> StreamID (fst m) \<in> stream_ids A) \<and>
     receiver_ids (k_receiver s) \<union> main_ids (k_main s) \<subseteq> stream_ids A"

definition conn_trace :: "message list \<Rightarrow> conn \<Rightarrow> message list \<times> message list \<Rightarrow> bool" where
  "conn_trace A s x \<longleftrightarrow> conn_reads A s (fst x) \<and> conn_wrote A s (snd x)"

definition conn_fed :: "message list \<Rightarrow> conn \<Rightarrow> bool" where
  "conn_fed A s \<longleftrightarrow> conn_started s \<and> fresh_writer (k_w s) \<and> readable A (k_r s)"

lemma conn_trace_start:
  assumes "conn_fed A s" "client_traffic A"
  shows "conn_trace A s (A, [])"
proof -
  have "0 < sid" if "sid \<in> set (request_ids A)" for sid
    using assms(2) that by (auto simp: client_traffic_def request_ids_def word_less_nat_alt intro: odd_pos)
  with assms show ?thesis
    by (auto simp: conn_fed_def conn_started_def conn_trace_def conn_reads_def conn_wrote_def fresh_writer_at)
qed

lemma invalid_ids [simp]: "receiver_ids (invalid sid msg) = {sid}"
  by (simp add: invalid_def status_response_def)

lemma receiver_close_sides:
  "k_r (receiver_close mh p ref c) = k_r c \<and> k_w (receiver_close mh p ref c) = k_w c \<and>
   k_main (receiver_close mh p ref c) = k_main c \<and>
   receiver_ids (k_receiver (receiver_close mh p ref c)) \<subseteq> {StreamID mh}"
  by (simp add: receiver_close_def Let_def)

lemma receiver_handle_sides:
  "k_r (receiver_handle E now sid req c) = k_r c \<and> k_w (receiver_handle E now sid req c) = k_w c \<and>
   k_main (receiver_handle E now sid req c) = k_main c \<and>
   receiver_ids (k_receiver (receiver_handle E now sid req c)) \<subseteq> {sid}"
  by (auto simp: receiver_handle_def status_response_def Let_def start_call_def
      split: prod.splits handled.splits option.splits)

lemma receiver_message_sides:
  "k_r (receiver_message E now mh p c) = k_r c \<and> k_w (receiver_message E now mh p c) = k_w c \<and>
   k_main (receiver_message E now mh p c) = k_main c \<and>
   receiver_ids (k_receiver (receiver_message E now mh p c)) \<subseteq> {StreamID mh}"
  using receiver_handle_sides [of E now "StreamID mh" _ "conn_put_buffer p (c\<lparr>k_lastStreamID := StreamID mh\<rparr>)"]
  by (auto simp: receiver_message_def receiver_data_def receiver_request_def receiver_close_sides Let_def
      conn_put_buffer_def dest: receiver_close_sides [THEN conjunct2, THEN conjunct2, THEN conjunct2, THEN subsetD]
      split: option.splits sum.splits)

text \<open>The receiver reads in one phase only; in the others it touches neither the connection nor the calls.\<close>

definition keeps_traffic :: "conn \<Rightarrow> conn \<Rightarrow> bool" where
  "keeps_traffic s t \<longleftrightarrow> k_r t = k_r s \<and> k_lastStreamID t = k_lastStreamID s \<and>
     map call_id (k_calls t) = map call_id (k_calls s)"

lemma receiver_next_sides:
  assumes "conn_inv s" "t \<in> set (receiver_next E now pool (k_receiver s) s)" "k_receiver s \<noteq> RRecv"
  shows "keeps_traffic s t \<and> k_w t = k_w s \<and> k_main t = k_main s \<and>
    receiver_ids (k_receiver t) \<subseteq> receiver_ids (k_receiver s)"
proof (cases "k_receiver s")
  case (RData ref msg ph)
  with assms have "ph \<noteq> DataPanic" by (auto simp: conn_inv_def receiver_ok_def data_ok_def)
  with RData assms(2) receiver_close_sides [of "fst msg" "snd msg" ref s] show ?thesis
    by (cases "\<exists>err. ph = DataReturn err")
      (auto simp: receiver_next_data set_handler_def receiver_close_same keeps_traffic_def split: option.splits)
next
  case (RHandle sid ref p ph)
  with assms have "ph \<noteq> DataPanic" by (auto simp: conn_inv_def receiver_ok_def data_ok_def)
  with RHandle assms(2) show ?thesis
    by (cases "\<exists>err. ph = DataReturn err")
      (auto simp: receiver_next_data set_handler_def keeps_traffic_def status_response_def split: option.splits)
qed (use assms(2,3) in \<open>auto simp: keeps_traffic_def split: if_splits chan_sent.splits\<close>)

lemma main_next_sides:
  assumes "t \<in> set (main_next E (k_main s) s)"
  shows "k_r t = k_r s \<and> main_ids (k_main t) = {} \<and> ((\<exists>r. k_main s = MReply r) \<or> k_w t = k_w s)"
proof (cases "k_main s")
  case MTop
  with assms show ?thesis by (simp add: Let_def setState_def)
next
  case (MSelect idle)
  with assms show ?thesis by (auto simp: main_select_def split: if_splits chan_received.splits)
next
  case (MReply r')
  obtain err w where "send_reply E r' (k_w s) = (err, w)" by fastforce
  with MReply assms show ?thesis by (cases err) auto
qed (use assms in simp_all)

lemma word_odd: "odd (unat w) \<Longrightarrow> (w :: u32) mod 2 = 1"
proof -
  assume "odd (unat w)"
  then have "unat (w mod 2) = unat (1 :: u32)" by (simp add: unat_mod_distrib odd_iff_mod_2_eq_one)
  then show ?thesis by (rule word_unat_eq_iff [THEN iffD2])
qed

lemma request_accepted:
  assumes "k_lastStreamID c < StreamID mh"
  shows "k_lastStreamID (receiver_request E now mh p c) = StreamID mh \<and>
    map call_id (k_calls (receiver_request E now mh p c)) \<in>
      {map call_id (k_calls c), map call_id (k_calls c) @ [StreamID mh]}"
proof -
  let ?c = "conn_put_buffer p (c\<lparr>k_lastStreamID := StreamID mh\<rparr>)"
  have c: "k_lastStreamID ?c = StreamID mh" "k_calls ?c = k_calls c" by (simp_all add: conn_put_buffer_def)
  obtain ph req where "receiver_request E now mh p c \<in>
      {?c\<lparr>k_receiver := ph\<rparr>, receiver_handle E now (StreamID mh) req ?c}"
    using assms by (cases "codec_Unmarshal (e_proto E) p (AnyMessage (Some (MRequest empty_request)))")
      (auto simp: receiver_request_def Let_def not_le [symmetric])
  with receiver_handle_calls [of E now "StreamID mh" req ?c] c show ?thesis by auto
qed

text \<open>A server that reads the traffic of a client accepts it.\<close>

lemma frame_accepted:
  assumes "grpc_ok (e_grpc E)" "client_traffic A" "conn_reads A s ms"
    and rc: "recv pool (k_r s) = ((mh, p, err), r)"
  shows "case ms of
      [] \<Rightarrow> readable [] r \<and> (\<exists>e. err = Some e \<and> status_in e = None \<and>
        receiver_frame E now pool s = s\<lparr>k_r := r, k_receiver := RErr e\<rparr>)
    | m # ms' \<Rightarrow> readable ms' r \<and> err = None \<and> m = (mh, p) \<and>
        (if Type mh = messageTypeRequest
         then k_lastStreamID s < StreamID mh \<and>
           receiver_frame E now pool s = receiver_request E now mh p (s\<lparr>k_r := r\<rparr>)
         else Type mh = messageTypeData \<and> receiver_frame E now pool s = receiver_data mh p (s\<lparr>k_r := r\<rparr>))"
proof -
  from assms(3) have rd: "readable ms (k_r s)" and A: "suffix ms A"
    "\<forall>sid \<in> set (request_ids ms). k_lastStreamID s < sid" by (simp_all add: conn_reads_def)
  note got = recv_readable [OF rd rc]
  show ?thesis
  proof (cases ms)
    case Nil
    with got obtain e where e: "err = Some e" "status_in e = None" "readable [] r" by auto
    obtain st ok where "FromError (e_grpc E) (Some e) = (st, ok)" by fastforce
    with grpc_okD(7) [OF assms(1), of e] e Nil show ?thesis by (simp add: receiver_frame_def rc)
  next
    case (Cons m ms')
    with A(1) have "m \<in> set A" by (auto dest: set_mono_suffix)
    moreover from got Cons have m: "m = (mh, p)" "err = None" "readable ms' r" by auto
    ultimately have "StreamID mh mod 2 = 1" "Type mh \<in> {messageTypeRequest, messageTypeData}"
      using assms(2) word_odd by (auto simp: client_traffic_def)
    then have "receiver_frame E now pool s =
      (if Type mh = messageTypeRequest then receiver_request E now mh p (s\<lparr>k_r := r\<rparr>)
       else receiver_data mh p (s\<lparr>k_r := r\<rparr>)) \<and> (Type mh = messageTypeRequest \<or> Type mh = messageTypeData)"
      by (auto simp: receiver_frame_def rc m receiver_message_def message_consts)
    with A(2) Cons m show ?thesis by auto
  qed
qed

lemma conn_reads_frame:
  assumes "grpc_ok (e_grpc E)" "client_traffic A" "conn_reads A s ms" "k_receiver s = RRecv"
  shows "\<exists>ms'. conn_reads A (receiver_frame E now pool s) ms' \<and>
    receiver_ids (k_receiver (receiver_frame E now pool s)) \<subseteq> stream_ids A"
proof -
  obtain mh p err r where rc: "recv pool (k_r s) = ((mh, p, err), r)" by (metis surj_pair)
  let ?t = "receiver_frame E now pool s"
  note got = frame_accepted [OF assms(1-3) rc, of now]
  show ?thesis
  proof (cases ms)
    case Nil
    with got assms(3) show ?thesis by (intro exI [of _ "[]"]) (auto simp: conn_reads_def)
  next
    case (Cons m ms')
    with assms(3) have A: "suffix (m # ms') A" "suffix ms' A"
      "subseq (map call_id (k_calls s) @ request_ids (m # ms')) (request_ids A)"
      by (auto simp: conn_reads_def dest: suffix_ConsD)
    from A(1) obtain pre where "A = pre @ m # ms'" by (auto simp: suffix_def)
    with assms(2) have srt: "sorted_wrt (<) (request_ids (m # ms'))"
      by (simp add: client_traffic_def sorted_wrt_append del: request_ids_simps(3))
    from Cons got have m: "m = (mh, p)" "readable ms' r" by auto
    have "StreamID mh \<in> stream_ids A"
      using A(1) m(1) set_mono_suffix [OF A(1)] by (force simp: stream_ids_def)
    moreover have "receiver_ids (k_receiver ?t) \<subseteq> {StreamID mh}"
      using got Cons receiver_message_sides [of E now mh p "s\<lparr>k_r := r\<rparr>"]
      by (simp add: receiver_frame_def rc)
    moreover have "conn_reads A ?t ms'"
    proof (cases "Type mh = messageTypeRequest")
      case True
      with got Cons have t: "?t = receiver_request E now mh p (s\<lparr>k_r := r\<rparr>)" "k_lastStreamID s < StreamID mh" by auto
      note acc = request_accepted [of "s\<lparr>k_r := r\<rparr>" mh E now p]
      have "k_r ?t = r" using receiver_message_sides [of E now mh p "s\<lparr>k_r := r\<rparr>"] got Cons
        by (simp add: receiver_frame_def rc)
      moreover have "subseq (map call_id (k_calls ?t) @ request_ids ms') (request_ids A)"
        using acc t A(3) True m(1) by (auto elim: subseq_order.order_trans [rotated] intro!: list_emb_append_mono subseq_tail)
      ultimately show ?thesis
        using acc t A(2) m srt True by (auto simp: conn_reads_def)
    next
      case False
      with got Cons have t: "?t = receiver_data mh p (s\<lparr>k_r := r\<rparr>)" by auto
      have "k_r ?t = r" using receiver_message_sides [of E now mh p "s\<lparr>k_r := r\<rparr>"] got Cons
        by (simp add: receiver_frame_def rc)
      with t A(2,3) m False assms(3) Cons show ?thesis
        by (simp add: conn_reads_def receiver_data_same)
    qed
    ultimately show ?thesis by blast
  qed
qed

lemma send_reply_at:
  assumes "writer_at ms w" "send_reply E r w = (err, w')"
  shows "\<exists>ms'. writer_at ms' w' \<and> set ms' \<subseteq> set ms \<union>
    {m. Type (fst m) \<in> {messageTypeResponse, messageTypeData} \<and> StreamID (fst m) = r_id r}"
proof -
  have sent: ?thesis if "send (r_id r) t fl p w = (err, w')" "t \<in> {messageTypeResponse, messageTypeData}" for t fl p
    using send_writer_at [OF assms(1) that(1)]
  proof
    assume "writer_at (ms @ [sent_frame (r_id r) t fl p]) w'"
    with that(2) show ?thesis by (intro exI [of _ "ms @ [sent_frame (r_id r) t fl p]"]) auto
  qed blast
  show ?thesis
  proof (cases "w' = w")
    case True
    with assms(1) show ?thesis by blast
  next
    case False
    show ?thesis
    proof (cases "\<not> r_streaming r \<or> Code (e_grpc E) (r_status r) \<noteq> OK")
      case True
      with assms(2) False obtain p where "send (r_id r) messageTypeResponse 0 p w = (err, w')"
        by (cases "codec_Marshal (e_proto E) (AnyMessage (Some (MResponse
            \<lparr>RStatus = Proto (e_grpc E) (r_status r), RPayload = r_data r\<rparr>)))")
          (simp_all add: send_reply_def)
      then show ?thesis by (rule sent) simp
    next
      case data: False
      with assms(2) have "send (r_id r) messageTypeData (reply_flags r) (r_data r) w = (err, w')"
        by (simp add: send_reply_def)
      then show ?thesis by (rule sent) simp
    qed
  qed
qed

lemma subseq_subset: "subseq xs ys \<Longrightarrow> set xs \<subseteq> set ys"
  by (auto elim: list_emb_set)

lemma sorted_wrt_subseq: "subseq xs ys \<Longrightarrow> sorted_wrt P ys \<Longrightarrow> sorted_wrt P xs"
  by (induction rule: list_emb.induct) (auto dest: subseq_subset)

lemma call_ids_known:
  assumes "conn_reads A s ms"
  shows "call_id ` set (k_calls s) \<subseteq> stream_ids A"
proof -
  from assms have "set (map call_id (k_calls s) @ request_ids ms) \<subseteq> set (request_ids A)"
    unfolding conn_reads_def by (intro subseq_subset) blast
  then show ?thesis by (auto simp: request_ids_def stream_ids_def)
qed

lemma conn_trace_keep:
  assumes "conn_trace A s x" "keeps_traffic s t" "k_w t = k_w s"
    and "receiver_ids (k_receiver t) \<union> main_ids (k_main t) \<subseteq>
      receiver_ids (k_receiver s) \<union> main_ids (k_main s) \<union> call_id ` set (k_calls s)"
  shows "conn_trace A t x"
proof -
  have "call_id ` set (k_calls s) \<subseteq> stream_ids A"
    using assms(1) call_ids_known unfolding conn_trace_def by blast
  with assms(4) assms(1) have "receiver_ids (k_receiver t) \<union> main_ids (k_main t) \<subseteq> stream_ids A"
    unfolding conn_trace_def conn_wrote_def by blast
  with assms(1-3) show ?thesis
    by (simp add: conn_trace_def conn_reads_def conn_wrote_def keeps_traffic_def)
qed

lemma conn_trace_receiver:
  assumes "grpc_ok (e_grpc E)" "client_traffic A" "conn_inv s" "conn_trace A s x"
    and "t \<in> set (receiver_next E now pool (k_receiver s) s)"
  shows "\<exists>y. conn_trace A t y"
proof (cases "k_receiver s = RRecv")
  case True
  with assms(5) have t: "t = receiver_frame E now pool s" by simp
  have "k_w t = k_w s \<and> k_main t = k_main s"
    using receiver_message_sides [of E now] unfolding t
    by (auto simp: receiver_frame_def Let_def split: prod.splits option.splits)
  with conn_reads_frame [OF assms(1,2) _ True, of "fst x" now pool] assms(4) show ?thesis
    by (auto simp: conn_trace_def conn_wrote_def t)
next
  case False
  from receiver_next_sides [OF assms(3,5) False] have "conn_trace A t x"
    by (intro conn_trace_keep [OF assms(4)]) auto
  then show ?thesis ..
qed

lemma conn_trace_main:
  assumes "conn_trace A s x" "t \<in> set (main_next E (k_main s) s)"
  shows "\<exists>y. conn_trace A t y"
proof -
  note keep = main_next_keeps [OF assms(2)] main_next_sides [OF assms(2)]
  have "\<exists>ms'. writer_at ms' (k_w t) \<and> (\<forall>m \<in> set ms'.
      Type (fst m) \<in> {messageTypeResponse, messageTypeData} \<and> StreamID (fst m) \<in> stream_ids A)"
  proof (cases "\<exists>r. k_main s = MReply r")
    case True
    then obtain r where r: "k_main s = MReply r" ..
    obtain err w where w: "send_reply E r (k_w s) = (err, w)" by fastforce
    from assms(2) r w have "k_w t = w" by (cases err) auto
    with send_reply_at [OF _ w, of "snd x"] assms(1) r show ?thesis
      by (fastforce simp: conn_trace_def conn_wrote_def)
  next
    case False
    with keep assms(1) show ?thesis by (auto simp: conn_trace_def conn_wrote_def)
  qed
  then obtain ms' where "conn_wrote A t ms'"
    using keep assms(1) by (auto simp: conn_trace_def conn_wrote_def)
  moreover have "conn_reads A t (fst x)" using keep assms(1) by (simp add: conn_trace_def conn_reads_def)
  ultimately show ?thesis by (auto simp: conn_trace_def)
qed

lemma conn_trace_step:
  assumes "conn_step E s t" "grpc_ok (e_grpc E)" "client_traffic A" "conn_inv s" "conn_trace A s x"
  shows "\<exists>y. conn_trace A t y"
  using assms(1)
proof cases
  case (kn_receiver now pool)
  from conn_trace_receiver [OF assms(2-5) this] show ?thesis .
next
  case kn_main
  from conn_trace_main [OF assms(5) this] show ?thesis .
next
  case (kn_respond i r b)
  then have "r_id r = call_id (k_calls s ! i)" "k_calls s ! i \<in> set (k_calls s)"
    using conn_invD(1) [OF assms(4)] by (auto simp: calls_ok_def)
  with kn_respond have "conn_trace A t x"
    by (intro conn_trace_keep [OF assms(5)])
      (auto simp: keeps_traffic_def responded_def map_update list_update_same_conv)
  then show ?thesis ..
next
  case (kn_call i r)
  then have "conn_trace A t x"
    by (intro conn_trace_keep [OF assms(5)]) (auto simp: keeps_traffic_def map_update list_update_same_conv)
  then show ?thesis ..
next
  case (kn_give_up i r)
  then have "conn_trace A t x"
    by (intro conn_trace_keep [OF assms(5)])
      (auto simp: keeps_traffic_def responded_def map_update list_update_same_conv)
  then show ?thesis ..
next
  case (kn_status r b)
  then have "conn_trace A t x"
    by (intro conn_trace_keep [OF assms(5)]) (simp_all add: keeps_traffic_def)
  then show ?thesis ..
next
  case (kn_take ref p sh)
  then have "conn_trace A t x"
    by (intro conn_trace_keep [OF assms(5)]) (simp_all add: keeps_traffic_def set_handler_def)
  then show ?thesis ..
next
  case (kn_cancel ref e)
  then have "conn_trace A t x"
    by (intro conn_trace_keep [OF assms(5)]) (simp_all add: keeps_traffic_def set_handler_def)
  then show ?thesis ..
next
  case (kn_close)
  then have "conn_trace A t x"
    by (intro conn_trace_keep [OF assms(5)]) (auto simp: keeps_traffic_def conn_close_def)
  then show ?thesis ..
qed

interpretation conn_link: traced "\<lambda>s. (grpc_ok (e_grpc E) \<and> client_traffic A) \<and> conn_fed A s" "conn_step E"
  "\<lambda>s. (grpc_ok (e_grpc E) \<and> client_traffic A) \<and> conn_inv s" "conn_trace A"
proof unfold_locales
  show "(grpc_ok (e_grpc E) \<and> client_traffic A) \<and> conn_fed A s \<Longrightarrow>
      (grpc_ok (e_grpc E) \<and> client_traffic A) \<and> conn_inv s" for s
    using conn_reach.inv_start by (auto simp: conn_fed_def)
  show "(grpc_ok (e_grpc E) \<and> client_traffic A) \<and> conn_fed A s \<Longrightarrow> \<exists>x. conn_trace A s x" for s
    using conn_trace_start by blast
qed (use conn_inv_step conn_trace_step in blast)+

section \<open>A client and a server on one connection\<close>

text \<open>
  Each end reads a part of what the other has written, from its start, and then a failure of the
  connection: \<open>i\<close> bytes have got from the server to the client, \<open>j\<close> bytes from the client to the server.
\<close>

definition linked :: "grpc \<Rightarrow> ('u, 'w, 'ss) conn_env \<Rightarrow> client_sys \<Rightarrow> conn \<Rightarrow> bool" where
  "linked G E C S \<longleftrightarrow> (\<exists>i j e e'. status_in e = None \<and> status_in e' = None \<and>
     reach (\<lambda>s. client_fresh s \<and>
         c_r (cl_client s) = \<lparr>rd_rest = take i (wc_sent (w_conn (k_w S))), rd_err = e\<rparr>)
       (client_step G) C \<and>
     reach (\<lambda>s. conn_started s \<and> fresh_writer (k_w s) \<and>
         k_r s = \<lparr>rd_rest = take j (wc_sent (w_conn (c_w (cl_client C)))), rd_err = e'\<rparr>)
       (conn_step E) S)"

lemma linkedI:
  assumes "reach (\<lambda>s. client_fresh s \<and>
         c_r (cl_client s) = \<lparr>rd_rest = take i (wc_sent (w_conn (k_w S))), rd_err = e\<rparr>) (client_step G) C"
    and "reach (\<lambda>s. conn_started s \<and> fresh_writer (k_w s) \<and>
         k_r s = \<lparr>rd_rest = take j (wc_sent (w_conn (c_w (cl_client C)))), rd_err = e'\<rparr>) (conn_step E) S"
    and "status_in e = None" "status_in e' = None"
  shows "linked G E C S"
  unfolding linked_def using assms by blast

lemma linked_client:
  assumes "linked G E C S"
  obtains ms where "client_inv C" "client_wrote C ms"
proof -
  from assms have "reach client_fresh (client_step G) C"
    unfolding linked_def by (auto elim: reach_weaken)
  from client_writes.trace_reach [OF this] that show thesis by blast
qed

lemma client_wrote_traffic:
  assumes "client_wrote C ms" "client_inv C" "length (c_heap (cl_client C)) \<le> 2 ^ 31"
  shows "client_traffic (take n ms)"
proof -
  from assms(2) obtain k where k: "cl_requests C = map stream_number [0..<k]" "k \<le> length (c_heap (cl_client C))"
    by (auto simp: client_inv_def requests_ok_def Let_def split: option.splits)
  with assms(3) have "k \<le> 2 ^ 31" by linarith
  then have "sorted_wrt (<) (cl_requests C)"
    by (auto simp: k(1) sorted_wrt_map intro!: sorted_wrt_mono_rel [OF _ sorted_wrt_upt] stream_number_less)
  moreover have "subseq (request_ids ms) (cl_requests C)" using assms(1) by (simp add: client_wrote_def)
  moreover have "prefix (request_ids (take n ms)) (request_ids ms)"
    using request_ids_simps(2) [of "take n ms" "drop n ms"] by (auto simp: prefix_def)
  ultimately have "sorted_wrt (<) (request_ids (take n ms))"
    by (metis prefix_imp_subseq sorted_wrt_subseq subseq_order.order_trans)
  with assms(1) show ?thesis
    using stream_number_odd by (fastforce simp: client_traffic_def client_wrote_def dest: in_set_takeD)
qed

lemma heap_ids:
  assumes "heap_ok c"
  shows "stream_number ` {..<length (c_heap c)} \<subseteq> st_id ` set (c_heap c)"
proof
  fix sid
  assume "sid \<in> stream_number ` {..<length (c_heap c)}"
  then obtain i where "i < length (c_heap c)" "sid = stream_number i" by blast
  with heap_okD(2) [OF assms, of i] show "sid \<in> st_id ` set (c_heap c)" by (metis image_eqI nth_mem)
qed

text \<open>The server's end of a link: the traffic it was given comes from the client.\<close>

lemma linked_fed:
  assumes "linked G E C S" "grpc_ok (e_grpc E)" "length (c_heap (cl_client C)) \<le> 2 ^ 31"
  obtains ms n where "client_inv C" "client_wrote C ms" "client_traffic (take n ms)"
    "reach (\<lambda>s. (grpc_ok (e_grpc E) \<and> client_traffic (take n ms)) \<and> conn_fed (take n ms) s) (conn_step E) S"
proof -
  from linked_client [OF assms(1)] obtain ms where C: "client_inv C" "client_wrote C ms" .
  then have "frames_of ms (wc_sent (w_conn (c_w (cl_client C))))" by (simp add: client_wrote_def writer_at_def)
  from frames_take [OF this] have taken: "\<exists>n. frames_of (take n ms) (take j (wc_sent (w_conn (c_w (cl_client C)))))" for j .
  from assms(1) obtain j e' where e: "status_in e' = None"
    and S: "reach (\<lambda>s. conn_started s \<and> fresh_writer (k_w s) \<and>
         k_r s = \<lparr>rd_rest = take j (wc_sent (w_conn (c_w (cl_client C)))), rd_err = e'\<rparr>) (conn_step E) S"
    unfolding linked_def by blast
  from taken obtain n where n: "frames_of (take n ms) (take j (wc_sent (w_conn (c_w (cl_client C)))))" ..
  have tr: "client_traffic (take n ms)" by (rule client_wrote_traffic [OF C(2,1) assms(3)])
  have "reach (\<lambda>s. (grpc_ok (e_grpc E) \<and> client_traffic (take n ms)) \<and> conn_fed (take n ms) s) (conn_step E) S"
    by (rule reach_weaken [OF S]) (use assms(2) tr n e in \<open>simp add: conn_fed_def readable_def\<close>)
  with that C tr show thesis by blast
qed

lemma linked_conn:
  assumes "linked G E C S" "grpc_ok (e_grpc E)" "length (c_heap (cl_client C)) \<le> 2 ^ 31"
  obtains A x where "client_traffic A" "subseq (request_ids A) (cl_requests C)"
    "stream_ids A \<subseteq> st_id ` set (c_heap (cl_client C))" "conn_trace A S x"
proof -
  obtain ms n where C: "client_inv C" "client_wrote C ms" and tr: "client_traffic (take n ms)"
    and S: "reach (\<lambda>s. (grpc_ok (e_grpc E) \<and> client_traffic (take n ms)) \<and> conn_fed (take n ms) s) (conn_step E) S"
    by (rule linked_fed [OF assms])
  from conn_link.trace_reach [OF S] obtain x where "conn_trace (take n ms) S x" by blast
  moreover have "stream_ids ms \<subseteq> st_id ` set (c_heap (cl_client C))"
    using heap_ids [of "cl_client C"] C by (auto simp: stream_ids_def client_wrote_def client_inv_def)
  then have "stream_ids (take n ms) \<subseteq> st_id ` set (c_heap (cl_client C))"
    by (auto simp: stream_ids_def dest: in_set_takeD)
  moreover have "prefix (request_ids (take n ms)) (request_ids ms)"
    using request_ids_simps(2) [of "take n ms" "drop n ms"] by (auto simp: prefix_def)
  then have "subseq (request_ids (take n ms)) (cl_requests C)"
    using C(2) unfolding client_wrote_def by (blast intro: subseq_order.order_trans prefix_imp_subseq)
  ultimately show thesis using that tr by blast
qed

text \<open>The client's end of a link: what waits on its streams comes from the frames that the server has written.\<close>

lemma linked_queue:
  assumes "linked G E C S" "grpc_ok G" "frames_of ms (wc_sent (w_conn (k_w S)))" "i < length (c_heap (cl_client C))"
  shows "subseq (st_queue (c_heap (cl_client C) ! i))
    (filter (\<lambda>m. StreamID (fst m) = st_id (c_heap (cl_client C) ! i)) ms)"
proof -
  let ?q = "st_queue (c_heap (cl_client C) ! i)" and ?P = "\<lambda>m. StreamID (fst m) = st_id (c_heap (cl_client C) ! i)"
  from assms(1) obtain k e where e: "status_in e = None"
    and C: "reach (\<lambda>s. client_fresh s \<and>
         c_r (cl_client s) = \<lparr>rd_rest = take k (wc_sent (w_conn (k_w S))), rd_err = e\<rparr>) (client_step G) C"
    unfolding linked_def by blast
  from frames_take [OF assms(3)] obtain n where n: "frames_of (take n ms) (take k (wc_sent (w_conn (k_w S))))" ..
  have "reach (\<lambda>s. grpc_ok G \<and> client_fed (take n ms) s) (client_step G) C"
    by (rule reach_weaken [OF C]) (use assms(2) n e in \<open>simp add: client_fresh_def client_fed_def readable_def\<close>)
  from client_reading.trace_reach [OF this] obtain ahead where
    inv: "client_inv C" and rd: "client_reads (take n ms) C ahead" by blast
  from rd assms(4) have "subseq (?q @ delivering (cl_run C) i @ ahead) (take n ms)"
    by (simp add: client_reads_def)
  then have "subseq ?q ms"
    by (meson prefixI prefix_imp_subseq subseq_order.order_trans take_is_prefix)
  then have "subseq (filter ?P ?q) (filter ?P ms)" by (rule subseq_filter)
  moreover have "heap_ok (cl_client C)" using inv by (simp add: client_inv_def)
  ultimately show ?thesis using heap_okD(4) [OF _ assms(4)] by (simp add: filter_id_conv)
qed

section \<open>A closed example\<close>

text \<open>A client that has sent its request and received the reply, and the server that answered it.\<close>

lemma example_linked:
  "\<exists>C S. linked example_grpc example_env C S \<and> cl_requests C = [1] \<and> length (c_heap (cl_client C)) = 1 \<and>
     st_queue (c_heap (cl_client C) ! 0) = [example_reply] \<and> st_id (c_heap (cl_client C) ! 0) = 1 \<and>
     k_calls S = [\<lparr>call_id = 1, call_handler = None, call_streaming = False, call_phase = Ended\<rparr>] \<and>
     wc_sent (w_conn (k_w S)) = encode_message example_reply"
proof -
  let ?r = "\<lparr>rd_rest = encode_message example_reply, rd_err = IoEOF\<rparr>"
  from example_delivered obtain C where
    rC: "reach (\<lambda>s. s = sys (NewClient example_conn ?r) LoopTop None []) (client_step example_grpc) C"
    and C: "length (c_heap (cl_client C)) = 1" "st_queue (c_heap (cl_client C) ! 0) = [example_reply]"
      "st_id (c_heap (cl_client C) ! 0) = 1" "cl_requests C = [1]"
      "client_sent (cl_client C) = frame 1 messageTypeRequest 0 (Some [1, 1, 115, 109])" by blast
  from ex_fast_answer obtain S where
    rS: "ex_from (\<lambda>s. s = fresh_conn (encode_message unary_frame)) S"
    and S: "k_calls S = [\<lparr>call_id = 1, call_handler = None, call_streaming = False, call_phase = Ended\<rparr>]"
      "wc_sent (w_conn (k_w S)) = frame 1 messageTypeResponse 0 (Some [0])" by blast
  have up: "wc_sent (w_conn (c_w (cl_client C))) = encode_message unary_frame"
    using C(5) by (simp add: client_sent_def frame_def unary_frame_def)
  have down: "wc_sent (w_conn (k_w S)) = encode_message example_reply"
    using S(2) by (simp add: frame_def example_reply_def)
  have "reach (\<lambda>s. client_fresh s \<and> c_r (cl_client s) = ?r) (client_step example_grpc) C"
    by (rule reach_weaken [OF rC])
      (simp add: client_fresh_def sys_client_start, simp add: sys_def NewClient_def newChannel_def
        Let_def fresh_writer_def example_conn_def)
  moreover have "reach (\<lambda>s. conn_started s \<and> fresh_writer (k_w s) \<and>
      k_r s = \<lparr>rd_rest = encode_message unary_frame, rd_err = IoEOF\<rparr>) (conn_step example_env) S"
    by (rule reach_weaken [OF rS])
      (simp add: fresh_conn_started, simp add: fresh_conn_def fresh_writer_def example_conn_def)
  ultimately have "linked example_grpc example_env C S"
    by (intro linkedI [where i = "length (encode_message example_reply)" and e = IoEOF
        and j = "length (encode_message unary_frame)" and e' = IoEOF]) (simp_all add: up down)
  with C S(1) down show ?thesis by (intro exI [of _ C] exI [of _ S]) simp
qed

text \<open>A client that has sent its request, and a server that is about to read it.\<close>

lemma example_link_starts:
  "\<exists>C. linked example_grpc example_env C (fresh_conn (encode_message unary_frame)) \<and>
     length (c_heap (cl_client C)) = 1 \<and> cl_requests C = [1]"
proof -
  let ?S = "fresh_conn (encode_message unary_frame)"
  obtain c where
    r: "reach (\<lambda>s. s = sys (NewClient example_conn \<lparr>rd_rest = [], rd_err = IoEOF\<rparr>) LoopTop None [])
       (client_step example_grpc) (sys c LoopRecv None [1])"
    and c: "c_heap c = [newStream 1 2]" "client_sent c = frame 1 messageTypeRequest 0 (Some [1, 1, 115, 109])"
    using example_requested by blast
  have up: "wc_sent (w_conn (c_w c)) = encode_message unary_frame"
    using c(2) by (simp add: client_sent_def frame_def unary_frame_def)
  have S: "wc_sent (w_conn (k_w ?S)) = []" "fresh_writer (k_w ?S)"
    "k_r ?S = \<lparr>rd_rest = encode_message unary_frame, rd_err = IoEOF\<rparr>"
    by (simp_all add: fresh_conn_def example_conn_def fresh_writer_def)
  have "reach (\<lambda>s. client_fresh s \<and> c_r (cl_client s) = \<lparr>rd_rest = [], rd_err = IoEOF\<rparr>)
      (client_step example_grpc) (sys c LoopRecv None [1])"
    by (rule reach_weaken [OF r])
      (simp add: client_fresh_def sys_client_start, simp add: sys_def NewClient_def newChannel_def
        Let_def fresh_writer_def example_conn_def)
  moreover have "reach (\<lambda>s. conn_started s \<and> fresh_writer (k_w s) \<and>
      k_r s = \<lparr>rd_rest = encode_message unary_frame, rd_err = IoEOF\<rparr>) (conn_step example_env) ?S"
    using S fresh_conn_started by (intro reach_start) blast
  ultimately have "linked example_grpc example_env (sys c LoopRecv None [1]) ?S"
    by (intro linkedI [where i = 0 and e = IoEOF and j = "length (encode_message unary_frame)" and e' = IoEOF])
      (simp_all add: up sys_def)
  with c(1) show ?thesis by (intro exI [of _ "sys c LoopRecv None [1]"]) (simp add: sys_def)
qed

section \<open>Properties\<close>



text \<open>
  A client gets its server's messages: on every stream that it made, the messages that wait to be
  received are responses or data that the server sent on this stream, in the order in which it sent them and none twice,
  and the server writes frames on identifiers of the client's streams only.
\<close>

lemma client_gets_replies:
  assumes "linked G E C S" and "grpc_ok G" and "grpc_ok (e_grpc E)"
    and "length (c_heap (cl_client C)) \<le> 2 ^ 31"
  shows "\<exists>ms tail. wc_sent (w_conn (k_w S)) = concat (map encode_message ms) @ tail \<and> cut_off tail \<and>
    (\<forall>m \<in> set ms. Type (fst m) \<in> {messageTypeResponse, messageTypeData} \<and>
       StreamID (fst m) \<in> st_id ` set (c_heap (cl_client C))) \<and>
    (\<forall>i < length (c_heap (cl_client C)).
       subseq (st_queue (c_heap (cl_client C) ! i))
         (filter (\<lambda>m. StreamID (fst m) = st_id (c_heap (cl_client C) ! i)) ms))"
proof -
  from linked_conn [OF assms(1,3,4)] obtain A x where ids: "stream_ids A \<subseteq> st_id ` set (c_heap (cl_client C))" and x: "conn_trace A S x" .
  let ?ms = "snd x"
  from x have ms: "frames_of ?ms (wc_sent (w_conn (k_w S)))"
    "\<forall>m \<in> set ?ms. Type (fst m) \<in> {messageTypeResponse, messageTypeData} \<and>
       StreamID (fst m) \<in> st_id ` set (c_heap (cl_client C))"
    using ids by (auto simp: conn_trace_def conn_wrote_def writer_at_def)
  from linked_queue [OF assms(1,2) ms(1)] ms show ?thesis by (auto simp: frames_of_def)
qed

lemma client_gets_replies_witness:
  "\<exists>C S. linked example_grpc example_env C S \<and> st_queue (c_heap (cl_client C) ! 0) = [example_reply] \<and>
    (\<exists>ms tail. wc_sent (w_conn (k_w S)) = concat (map encode_message ms) @ tail \<and>
      subseq [example_reply] (filter (\<lambda>m. StreamID (fst m) = 1) ms))"
proof -
  obtain C S where CS: "linked example_grpc example_env C S" "length (c_heap (cl_client C)) = 1"
    "st_queue (c_heap (cl_client C) ! 0) = [example_reply]" "st_id (c_heap (cl_client C) ! 0) = 1"
    using example_linked by blast
  have "grpc_ok (e_grpc example_env)" "length (c_heap (cl_client C)) \<le> 2 ^ 31"
    using example_grpc_ok CS(2) by (simp_all add: example_env_def)
  from client_gets_replies [OF CS(1) example_grpc_ok this] CS show ?thesis
    by (metis less_one)
qed

end
