(* ===== verification/Ttrpc_ClientStream.thy ===== *)
theory Ttrpc_ClientStream
  imports Ttrpc_EndToEnd Ttrpc_Link
begin

text \<open>
  A client stream from the client's \<open>SendMsg\<close> and \<open>CloseSend\<close> (\<open>client.go\<close>) over the wire, through the receiver of the
  server's connection (\<open>server.go\<close>), to the \<open>RecvMsg\<close> of the stream handler (\<open>services.go\<close>).
\<close>

section \<open>The client's side\<close>

text \<open>Messages sent one after the other; the errors in order.\<close>

fun client_send_run ::
    "(status \<Rightarrow> string) \<Rightarrow> 'u proto \<Rightarrow> clientStream \<Rightarrow> 'u message_value list \<Rightarrow> client \<Rightarrow> error option list \<times> client" where
  "client_send_run txt P cs [] c = ([], c)"
| "client_send_run txt P cs (v # vs) c =
     (case client_SendMsg txt P (AnyMessage (Some v)) cs c of
        (err, c1) \<Rightarrow> (case client_send_run txt P cs vs c1 of (errs, c2) \<Rightarrow> (err # errs, c2)))"

definition data_message :: "u32 \<Rightarrow> gobytes \<Rightarrow> message" where
  "data_message sid p = sent_frame sid messageTypeData 0 p"

definition close_message :: "u32 \<Rightarrow> message" where
  "close_message sid = sent_frame sid messageTypeData (flagRemoteClosed OR flagNoData) None"

text \<open>A stream of a client on a connection that takes all bytes, open for sending.\<close>

definition may_send :: "clientStream \<Rightarrow> client \<Rightarrow> bool" where
  "may_send cs c \<longleftrightarrow> client_healthy c \<and> sd_StreamingClient (cs_desc cs) \<and> \<not> cs_localClosed cs"

lemma may_send_step:
  assumes "may_send cs c" "slice_len b \<le> messageLengthMax"
  obtains w where "client_send sid mt flags b c = (None, c\<lparr>c_w := w\<rparr>)" "may_send cs (c\<lparr>c_w := w\<rparr>)"
    "client_sent (c\<lparr>c_w := w\<rparr>) = client_sent c @ encode_message (sent_frame sid mt flags b)"
  using client_send_healthy [of c b sid mt flags] assms by (auto simp: may_send_def sent_frame_bytes)

lemma client_send_run_sent:
  assumes "may_send cs c"
    and "list_all2 (\<lambda>v p. Marshal P (Some v) = Inr p \<and> slice_len p \<le> messageLengthMax) vs ps"
  shows "\<exists>w. client_send_run txt P cs vs c = (replicate (length vs) None, c\<lparr>c_w := w\<rparr>) \<and> may_send cs (c\<lparr>c_w := w\<rparr>) \<and>
    client_sent (c\<lparr>c_w := w\<rparr>) =
      client_sent c @ concat (map encode_message (map (data_message (st_id (c_heap c ! cs_s cs))) ps))"
  using assms(2,1)
proof (induction vs ps arbitrary: c rule: list_all2_induct)
  case Nil
  then show ?case by (intro exI [of _ "c_w c"]) simp
next
  case (Cons v vs p ps)
  let ?sid = "st_id (c_heap c ! cs_s cs)"
  from Cons.hyps(1) have p: "Marshal P (Some v) = Inr p" "slice_len p \<le> messageLengthMax" by auto
  obtain w where w: "client_send ?sid messageTypeData 0 p c = (None, c\<lparr>c_w := w\<rparr>)" "may_send cs (c\<lparr>c_w := w\<rparr>)"
    "client_sent (c\<lparr>c_w := w\<rparr>) = client_sent c @ encode_message (data_message ?sid p)"
    using may_send_step [OF Cons.prems p(2)] unfolding data_message_def by blast
  have "client_SendMsg txt P (AnyMessage (Some v)) cs c = (None, c\<lparr>c_w := w\<rparr>)"
    using Cons.prems w(1) p(1) by (simp add: client_SendMsg_def may_send_def codec_Marshal_def stream_send_def)
  with Cons.IH [OF w(2)] w(3) show ?case by (auto simp: split: prod.split)
qed

lemma CloseSend_sent:
  assumes "may_send cs c"
  shows "\<exists>w. CloseSend txt cs c = (None, cs\<lparr>cs_localClosed := True\<rparr>, c\<lparr>c_w := w\<rparr>) \<and>
    client_sent (c\<lparr>c_w := w\<rparr>) = client_sent c @ encode_message (close_message (st_id (c_heap c ! cs_s cs)))"
proof -
  let ?sid = "st_id (c_heap c ! cs_s cs)"
  have "slice_len None \<le> messageLengthMax" by simp
  from may_send_step [OF assms this] obtain w where
    "client_send ?sid messageTypeData (flagRemoteClosed OR flagNoData) None c = (None, c\<lparr>c_w := w\<rparr>)"
    "client_sent (c\<lparr>c_w := w\<rparr>) = client_sent c @ encode_message (close_message ?sid)"
    unfolding close_message_def by blast
  with assms show ?thesis by (auto simp: CloseSend_def may_send_def stream_send_def)
qed

section \<open>The receiver's side\<close>

text \<open>A step of the receiver that is its only one, at any time and with any buffer.\<close>

definition only_step :: "('u, 'w, 'ss) conn_env \<Rightarrow> conn \<Rightarrow> conn \<Rightarrow> bool" where
  "only_step E s t \<longleftrightarrow> (\<forall>now pool. receiver_next E now pool (k_receiver s) s = [t])"

text \<open>The receiver is at the top of its loop and \<open>sid\<close> is a stream with the handler \<open>ref\<close>, which is open and has \<open>n\<close> places.\<close>

definition stream_open :: "u32 \<Rightarrow> nat \<Rightarrow> nat \<Rightarrow> conn \<Rightarrow> bool" where
  "stream_open sid ref n s \<longleftrightarrow> k_receiver s = RTop \<and> \<not> k_shutdown s \<and> \<not> k_done s \<and> sid mod 2 = 1 \<and>
     k_streams s sid = Some (Some ref) \<and> ref < length (k_heap s) \<and>
     (let sh = k_heap s ! ref in
        ctx_err (sh_ctx sh) = None \<and> \<not> sh_remoteClosed sh \<and> \<not> sh_shut sh \<and>
        length (sh_queue sh) + n \<le> sh_bound sh)"

definition queued :: "gobytes list \<Rightarrow> streamHandler \<Rightarrow> streamHandler" where
  "queued ps sh = sh\<lparr>sh_recv := (sh_recv sh)\<lparr>chan_buf := sh_queue sh @ ps\<rparr>\<rparr>"

lemma queued_append [simp]: "queued ps (queued qs sh) = queued (qs @ ps) sh"
  by (simp add: queued_def sh_queue_def)

lemma queued_Nil [simp]: "queued [] sh = sh"
  by (simp add: queued_def sh_queue_def)

lemma data_message_parts:
  "StreamID (fst (data_message sid p)) = sid" "Type (fst (data_message sid p)) = messageTypeData"
  "Flags (fst (data_message sid p)) = 0" "snd (data_message sid p) = norm_bytes p"
  by (cases p; auto simp: data_message_def sent_frame_def norm_bytes_def slice_len_def)+

lemma data_frame_received:
  assumes "stream_open sid ref (Suc n) s" "slice_len p \<le> messageLengthMax"
    and "k_r s = \<lparr>rd_rest = encode_message (data_message sid p) @ bs, rd_err = e\<rparr>"
  defines "t \<equiv> s\<lparr>k_r := \<lparr>rd_rest = bs, rd_err = e\<rparr>,
      k_heap := (k_heap s)[ref := queued [norm_bytes p] (k_heap s ! ref)]\<rparr>"
  shows "(only_step E)\<^sup>*\<^sup>* s t \<and> stream_open sid ref n t"
proof -
  let ?m = "data_message sid p"
  have ok: "message_ok ?m" unfolding data_message_def by (rule sent_frame_ok [OF assms(2)])
  note m = data_message_parts [of sid p]
  let ?s1 = "s\<lparr>k_receiver := RRecv\<rparr>"
  let ?s2 = "\<lambda>ph. s\<lparr>k_r := \<lparr>rd_rest = bs, rd_err = e\<rparr>, k_receiver := RData ref ?m ph\<rparr>"
  from assms(1) have s: "k_receiver s = RTop" "\<not> k_shutdown s" "\<not> k_done s" "k_streams s sid = Some (Some ref)"
    "ref < length (k_heap s)" "sid mod 2 = 1" by (simp_all add: stream_open_def)
  let ?sh = "k_heap s ! ref"
  have offer: "handler_offer (norm_bytes p) ?sh = Some (queued [norm_bytes p] ?sh)"
    using assms(1) by (simp add: stream_open_def Let_def handler_offer_Some queued_def)
  have 1: "only_step E s ?s1" by (simp add: only_step_def s)
  have "receiver_frame E now pool ?s1 = ?s2 DataEnter" for now pool
    by (subst receiver_frame_message [OF _ ok, where bs = bs and e = e])
      (simp_all add: assms(3) receiver_message_def m s receiver_data_def has_flag_def message_consts,
       simp add: prod_eq_iff m)
  then have 2: "only_step E ?s1 (?s2 DataEnter)" by (simp add: only_step_def)
  have 3: "only_step E (?s2 DataEnter) (?s2 DataSelect)"
    using assms(1) s by (simp add: only_step_def stream_open_def Let_def set_handler_def)
  have "data_cases (norm_bytes p) ?sh = [(DataReturn None, queued [norm_bytes p] ?sh)]"
    using offer assms(1)
    by (auto simp: data_cases_def handler_offer_def stream_open_def Let_def split: chan_sent.splits)
  then have 4: "only_step E (?s2 DataSelect) (t\<lparr>k_receiver := RData ref ?m (DataReturn None)\<rparr>)"
    by (simp add: only_step_def m set_handler_def t_def)
  have 5: "only_step E (t\<lparr>k_receiver := RData ref ?m (DataReturn None)\<rparr>) t"
    using s by (simp add: only_step_def receiver_close_def m has_flag_def message_consts t_def)
  have "(only_step E)\<^sup>*\<^sup>* s t"
    using 1 2 3 4 5 by (meson converse_rtranclp_into_rtranclp rtranclp.rtrancl_refl)
  moreover have "stream_open sid ref n t"
    using assms(1) by (simp add: stream_open_def Let_def t_def queued_def handler_view)
  ultimately show ?thesis ..
qed

lemma data_frames_received:
  assumes "stream_open sid ref (length ps) s" "\<forall>p \<in> set ps. slice_len p \<le> messageLengthMax"
    and "k_r s = \<lparr>rd_rest = concat (map encode_message (map (data_message sid) ps)) @ bs, rd_err = e\<rparr>"
  defines "t \<equiv> s\<lparr>k_r := \<lparr>rd_rest = bs, rd_err = e\<rparr>,
      k_heap := (k_heap s)[ref := queued (map norm_bytes ps) (k_heap s ! ref)]\<rparr>"
  shows "(only_step E)\<^sup>*\<^sup>* s t \<and> stream_open sid ref 0 t"
  using assms(1-3) unfolding t_def
proof (induction ps arbitrary: s)
  case Nil
  from Nil.prems(3) have "s\<lparr>k_r := \<lparr>rd_rest = bs, rd_err = e\<rparr>\<rparr> = s" by (cases s) simp
  with Nil.prems(1) show ?case by simp
next
  case (Cons p ps)
  let ?bs = "concat (map encode_message (map (data_message sid) ps)) @ bs"
  let ?t = "s\<lparr>k_r := \<lparr>rd_rest = ?bs, rd_err = e\<rparr>,
      k_heap := (k_heap s)[ref := queued [norm_bytes p] (k_heap s ! ref)]\<rparr>"
  have first: "(only_step E)\<^sup>*\<^sup>* s ?t \<and> stream_open sid ref (length ps) ?t"
    by (rule data_frame_received) (use Cons.prems in simp_all)
  have "ref < length (k_heap s)" using Cons.prems(1) by (simp add: stream_open_def)
  with Cons.IH [of ?t] first Cons.prems(2) show ?case by (auto intro: rtranclp_trans)
qed

lemma close_frame_received:
  assumes "stream_open sid ref 0 s"
    and "k_r s = \<lparr>rd_rest = encode_message (close_message sid) @ bs, rd_err = e\<rparr>"
  defines "t \<equiv> s\<lparr>k_r := \<lparr>rd_rest = bs, rd_err = e\<rparr>, k_heap := (k_heap s)[ref := close_recv (k_heap s ! ref)]\<rparr>"
  shows "(only_step E)\<^sup>*\<^sup>* s t"
proof -
  let ?m = "close_message sid"
  have "slice_len None \<le> messageLengthMax" by simp
  from sent_frame_ok [OF this] have ok: "message_ok ?m" unfolding close_message_def .
  have m: "StreamID (fst ?m) = sid" "Type (fst ?m) = messageTypeData" "Flags (fst ?m) = 5" "snd ?m = None"
    by (simp_all add: close_message_def sent_frame_def message_consts)
  from assms(1) have s: "k_receiver s = RTop" "\<not> k_shutdown s" "\<not> k_done s" "k_streams s sid = Some (Some ref)"
    "sid mod 2 = 1" by (simp_all add: stream_open_def)
  have shut: "closeSend (k_heap s ! ref) = close_recv (k_heap s ! ref)"
    using assms(1) by (simp add: stream_open_def Let_def closeSend_def close_recv_def)
  let ?s1 = "s\<lparr>k_receiver := RRecv\<rparr>"
  have 1: "only_step E s ?s1" by (simp add: only_step_def s)
  have "receiver_frame E now pool ?s1 = t" for now pool
    by (subst receiver_frame_message [OF _ ok, where bs = bs and e = e])
      (simp_all add: assms(2) receiver_message_def m s receiver_data_def receiver_close_def has_flag_def
        message_consts shut t_def)
  then have "only_step E ?s1 t" by (simp add: only_step_def)
  with 1 show ?thesis by (meson converse_rtranclp_into_rtranclp rtranclp.rtrancl_refl)
qed

lemma client_stream_received:
  assumes "stream_open sid ref (length ps) s" "\<forall>p \<in> set ps. slice_len p \<le> messageLengthMax"
    and "k_r s = \<lparr>rd_rest = concat (map encode_message (map (data_message sid) ps @ [close_message sid])) @ bs, rd_err = e\<rparr>"
  shows "\<exists>t. (only_step E)\<^sup>*\<^sup>* s t \<and> k_receiver t = RTop \<and> k_r t = \<lparr>rd_rest = bs, rd_err = e\<rparr> \<and>
    k_heap t ! ref = close_recv (queued (map norm_bytes ps) (k_heap s ! ref))"
proof -
  let ?t1 = "s\<lparr>k_r := \<lparr>rd_rest = encode_message (close_message sid) @ bs, rd_err = e\<rparr>,
      k_heap := (k_heap s)[ref := queued (map norm_bytes ps) (k_heap s ! ref)]\<rparr>"
  have 1: "(only_step E)\<^sup>*\<^sup>* s ?t1 \<and> stream_open sid ref 0 ?t1"
    by (rule data_frames_received) (use assms in simp_all)
  let ?t = "?t1\<lparr>k_r := \<lparr>rd_rest = bs, rd_err = e\<rparr>, k_heap := (k_heap ?t1)[ref := close_recv (k_heap ?t1 ! ref)]\<rparr>"
  have "(only_step E)\<^sup>*\<^sup>* ?t1 ?t"
    by (rule close_frame_received [where sid = sid]) (use 1 in simp_all)
  with 1 have "(only_step E)\<^sup>*\<^sup>* s ?t" by (blast intro: rtranclp_trans)
  moreover have "k_receiver ?t = RTop" "k_heap ?t ! ref = close_recv (queued (map norm_bytes ps) (k_heap s ! ref))"
    using assms(1) by (simp_all add: stream_open_def)
  ultimately show ?thesis by (intro exI [of _ ?t]) simp
qed

section \<open>The handler's side\<close>

text \<open>
  \<open>n\<close> calls of the handler's \<open>RecvMsg\<close>, each with a new value \<open>m\<close> to fill, as long as they have one ready case; the
  results in order.
\<close>

fun handler_recv_run ::
    "grpc \<Rightarrow> 'u proto \<Rightarrow> 'u any \<Rightarrow> nat \<Rightarrow> streamHandler \<Rightarrow> (error + 'u any) list \<times> streamHandler" where
  "handler_recv_run G P m 0 sh = ([], sh)"
| "handler_recv_run G P m (Suc n) sh =
     (case handler_RecvMsg G P m sh of
        [(r, sh1)] \<Rightarrow> (case handler_recv_run G P m n sh1 of (rs, sh2) \<Rightarrow> (r # rs, sh2))
      | _ \<Rightarrow> ([], sh))"

lemma handler_recv_run_one:
  "handler_RecvMsg G P m sh = [(r, sh1)] \<Longrightarrow>
     fst (handler_recv_run G P m (Suc n) sh) = r # fst (handler_recv_run G P m n sh1)"
  by (simp split: prod.split)

lemma handler_gets_messages:
  assumes "proto_ok P" "\<forall>t. Unmarshal P (Some []) t = Unmarshal P None t"
    and "list_all2 (\<lambda>v p. Marshal P (Some v) = Inr p \<and> same_type P v target) vs ps"
    and "sh_queue sh = map norm_bytes ps" "sh_shut sh" "ctx_err (sh_ctx sh) = None"
  shows "fst (handler_recv_run G P (AnyMessage (Some target)) (Suc (length vs)) sh) =
    map (\<lambda>v. Inr (AnyMessage (Some (norm_message v)))) vs @ [Inl IoEOF]"
  using assms(3-6)
proof (induction vs ps arbitrary: sh rule: list_all2_induct)
  case Nil
  then show ?case by (simp add: handler_RecvMsg_def chan_recv_def handler_view)
next
  case (Cons v vs p ps)
  let ?sh = "sh\<lparr>sh_recv := (sh_recv sh)\<lparr>chan_buf := map norm_bytes ps\<rparr>\<rparr>"
  have "protoUnmarshal (StatusText G) P (norm_bytes p) (AnyMessage (Some target)) =
      Inr (AnyMessage (Some (norm_message v)))"
    using assms(1) Cons.hyps(1) unfolding unmarshal_norm(3) [OF assms(2)]
    by (auto simp: protoUnmarshal_def proto_ok_def)
  then have "handler_RecvMsg G P (AnyMessage (Some target)) sh = [(Inr (AnyMessage (Some (norm_message v))), ?sh)]"
    using Cons.prems by (simp add: handler_RecvMsg_def chan_recv_def handler_view)
  moreover have "sh_queue ?sh = map norm_bytes ps" "sh_shut ?sh" "ctx_err (sh_ctx ?sh) = None"
    using Cons.prems by (simp_all add: handler_view)
  ultimately show ?case using Cons.IH [of ?sh]
    by (simp only: handler_recv_run_one list.size add_Suc_right add_0_right list.map append_Cons)
qed

section \<open>Property\<close>

text \<open>
  Claim C5. A client stream from the client to the handler: the messages that the client sends, and its
  \<open>CloseSend\<close>, are written without an error; the receiver of a connection that reads these bytes on an
  open stream with room for the messages has exactly one way to go, which leads it back to the top of its loop with
  the bytes that follow; and the handler's \<open>RecvMsg\<close> then returns the messages in order, up to what
  the wire format cannot tell apart, and EOF.
\<close>

theorem client_stream_end_to_end:
  assumes "proto_ok P" and "\<forall>t. Unmarshal P (Some []) t = Unmarshal P None t"
    and "client_healthy c" and "sd_StreamingClient (cs_desc cs)" and "\<not> cs_localClosed cs"
    and "list_all2 (\<lambda>v p. Marshal P (Some v) = Inr p \<and> slice_len p \<le> messageLengthMax \<and> same_type P v target) vs ps"
    and "client_send_run txt P cs vs c = (errs, c1)" and "CloseSend txt cs c1 = (err, cs', c2)"
    and "client_sent c2 = client_sent c @ wire"
    and "stream_open (st_id (c_heap c ! cs_s cs)) ref (length vs) s" and "sh_queue (k_heap s ! ref) = []"
    and "k_r s = \<lparr>rd_rest = wire @ bs, rd_err = e\<rparr>"
  shows "errs = replicate (length vs) None \<and> err = None \<and>
    (\<exists>t. (only_step E)\<^sup>*\<^sup>* s t \<and> k_receiver t = RTop \<and> k_r t = \<lparr>rd_rest = bs, rd_err = e\<rparr> \<and>
      fst (handler_recv_run G P (AnyMessage (Some target)) (Suc (length vs)) (k_heap t ! ref)) =
        map (\<lambda>v. Inr (AnyMessage (Some (norm_message v)))) vs @ [Inl IoEOF])"
proof -
  let ?sid = "st_id (c_heap c ! cs_s cs)" and ?sh = "k_heap s ! ref"
  have "may_send cs c" using assms(3-5) by (simp add: may_send_def)
  moreover have vs: "list_all2 (\<lambda>v p. Marshal P (Some v) = Inr p \<and> slice_len p \<le> messageLengthMax) vs ps"
    using assms(6) by (rule list_all2_mono) simp
  ultimately obtain w where w: "errs = replicate (length vs) None" "c1 = c\<lparr>c_w := w\<rparr>" "may_send cs c1"
    "client_sent c1 = client_sent c @ concat (map encode_message (map (data_message ?sid) ps))"
    using client_send_run_sent [of cs c P vs ps "txt"] assms(7) by auto
  from CloseSend_sent [OF w(3), of "txt"] assms(8) w(2) have close: "err = None"
    "client_sent c2 = client_sent c1 @ encode_message (close_message ?sid)" by auto
  with w(4) assms(9) have wire:
    "wire = concat (map encode_message (map (data_message ?sid) ps)) @ encode_message (close_message ?sid)" by simp
  have len: "length vs = length ps" "\<forall>p \<in> set ps. slice_len p \<le> messageLengthMax"
    using vs by (auto simp: list_all2_conv_all_nth in_set_conv_nth)
  obtain t where t: "(only_step E)\<^sup>*\<^sup>* s t" "k_receiver t = RTop" "k_r t = \<lparr>rd_rest = bs, rd_err = e\<rparr>"
    "k_heap t ! ref = close_recv (queued (map norm_bytes ps) ?sh)"
    using client_stream_received [of ?sid ref ps s bs e E] assms(10,12) len wire by auto
  have "list_all2 (\<lambda>v p. Marshal P (Some v) = Inr p \<and> same_type P v target) vs ps"
    using assms(6) by (rule list_all2_mono) simp
  moreover have "sh_queue (k_heap t ! ref) = map norm_bytes ps" "sh_shut (k_heap t ! ref)"
    "ctx_err (sh_ctx (k_heap t ! ref)) = None"
    using assms(10,11) unfolding t(4) by (simp_all add: stream_open_def Let_def close_recv_def queued_def handler_view)
  ultimately have "fst (handler_recv_run G P (AnyMessage (Some target)) (Suc (length vs)) (k_heap t ! ref)) =
      map (\<lambda>v. Inr (AnyMessage (Some (norm_message v)))) vs @ [Inl IoEOF]"
    by (rule handler_gets_messages [OF assms(1,2)])
  with t(1-3) w(1) close(1) show ?thesis by blast
qed

theorem client_stream_end_to_end_witness:
  "\<exists>wire t. client_sent (snd (snd (CloseSend (\<lambda>s. []) example_cs
        (snd (client_send_run (\<lambda>s. []) example_proto example_cs [MUser [7], MUser [8]]
          (healthy_client\<lparr>c_heap := [newStream 1 64]\<rparr>)))))) = wire \<and>
    (only_step example_env)\<^sup>*\<^sup>* ((fresh_conn wire)\<lparr>k_streams := [1 \<mapsto> Some 0],
        k_heap := [example_handler\<lparr>sh_recv := make_chan 64\<rparr>]\<rparr>) t \<and>
    fst (handler_recv_run example_grpc example_proto (AnyMessage (Some (MUser []))) 3 (k_heap t ! 0)) =
      [Inr (AnyMessage (Some (MUser [7]))), Inr (AnyMessage (Some (MUser [8]))), Inl IoEOF]"
proof -
  let ?c = "healthy_client\<lparr>c_heap := [newStream 1 64]\<rparr>"
  let ?sh = "example_handler\<lparr>sh_recv := make_chan 64\<rparr>"
  let ?s = "\<lambda>wire. (fresh_conn wire)\<lparr>k_streams := [1 \<mapsto> Some 0], k_heap := [?sh]\<rparr>"
  obtain errs c1 where run: "client_send_run (\<lambda>s. []) example_proto example_cs [MUser [7], MUser [8]] ?c = (errs, c1)"
    by fastforce
  obtain err cs' c2 where close: "CloseSend (\<lambda>s. []) example_cs c1 = (err, cs', c2)" by (metis prod_cases3)
  have client: "client_healthy ?c" "sd_StreamingClient (cs_desc example_cs)" "\<not> cs_localClosed example_cs"
    using healthy_client_simps(1) by (simp_all add: example_cs_def client_healthy_def)
  have vs: "list_all2 (\<lambda>v p. Marshal example_proto (Some v) = Inr p \<and> slice_len p \<le> messageLengthMax \<and>
      same_type example_proto v (MUser [])) [MUser [7], MUser [8]] [Some [7], Some [8]]"
    by (simp add: proto_parts messageLengthMax_def)
  have proto: "\<forall>t. Unmarshal example_proto (Some []) t = Unmarshal example_proto None t"
    using stub_env_ok(3) by simp
  have empty: "client_sent ?c = []" using healthy_client_simps(6) by (simp add: client_sent_def)
  have open': "stream_open (st_id (c_heap ?c ! cs_s example_cs)) 0 (length [MUser [7], MUser [8]]) (?s wire)"
    "sh_queue (k_heap (?s wire) ! 0) = []" for wire
    by (simp_all add: stream_open_def fresh_conn_def example_cs_def newStream_def example_handler_def background_def
        handler_view)
  have "client_sent c2 = client_sent ?c @ client_sent c2" "k_r (?s (client_sent c2)) =
      \<lparr>rd_rest = client_sent c2 @ [], rd_err = IoEOF\<rparr>"
    by (simp_all add: empty fresh_conn_def)
  from client_stream_end_to_end [OF example_proto_ok proto client vs run close this(1) open' this(2),
      of example_env example_grpc]
  obtain t where "(only_step example_env)\<^sup>*\<^sup>* (?s (client_sent c2)) t"
    "fst (handler_recv_run example_grpc example_proto (AnyMessage (Some (MUser []))) 3 (k_heap t ! 0)) =
      [Inr (AnyMessage (Some (MUser [7]))), Inr (AnyMessage (Some (MUser [8]))), Inl IoEOF]"
    by (auto simp: eval_nat_numeral)
  with run close show ?thesis by auto
qed

end
