(* ===== verification/Ttrpc_Replies.thy ===== *)
theory Ttrpc_Replies
  imports Ttrpc_Link Ttrpc_EndToEnd
begin

text \<open>
  What the connection of a server writes, explained by its calls (\<open>serverConn.run\<close> of \<open>server.go\<close>).

  The log of a connection holds the responses that the main loop has taken, in their order: each with the
  number of the call whose goroutine has sent it, or none for one that the receiver has sent for an error. It is a
  trace in the sense of \<open>traced\<close>: the frames on the wire are those of the log, and the responses of a call
  are such as its goroutine may send, of which only the last one ends the stream.
\<close>

section \<open>Responses and their frames\<close>

text \<open>The frame by which the main loop sends a response; none if it cannot be marshalled.\<close>

definition answer_frames :: "('u, 'w, 'ss) conn_env \<Rightarrow> response \<Rightarrow> message list" where
  "answer_frames E r =
     (if \<not> r_streaming r \<or> Code (e_grpc E) (r_status r) \<noteq> OK then
        (case codec_Marshal (e_proto E) (AnyMessage (Some (MResponse
                \<lparr>RStatus = Proto (e_grpc E) (r_status r), RPayload = r_data r\<rparr>))) of
           Inl err \<Rightarrow> []
         | Inr p \<Rightarrow> [sent_frame (r_id r) messageTypeResponse 0 p])
      else [sent_frame (r_id r) messageTypeData (reply_flags r) (r_data r)])"

lemma answer_frames_id: "m \<in> set (answer_frames E r) \<Longrightarrow> StreamID (fst m) = r_id r"
  by (auto simp: answer_frames_def split: if_splits sum.splits)

lemma length_answer_frames: "length (answer_frames E r) \<le> 1"
  by (simp add: answer_frames_def split: sum.split)

lemma send_reply_frames:
  assumes "writer_at ms w" "send_reply E r w = (err, w')"
  shows "err \<noteq> None \<and> writer_at ms w' \<or> writer_at (ms @ answer_frames E r) w'"
proof (cases "\<not> r_streaming r \<or> Code (e_grpc E) (r_status r) \<noteq> OK")
  case True
  with assms send_writer_at [OF assms(1)] show ?thesis
    by (auto simp: send_reply_def answer_frames_def split: sum.splits)
next
  case False
  with assms send_writer_at [OF assms(1)] show ?thesis
    by (auto simp: send_reply_def answer_frames_def)
qed

text \<open>A status that \<open>sendStatus\<close> sends.\<close>

definition error_status :: "response \<Rightarrow> bool" where
  "error_status r \<longleftrightarrow> r_data r = None \<and> r_closeStream r \<and> \<not> r_streaming r"

section \<open>The log of a connection\<close>

type_synonym answer_log = "(nat option \<times> response) list"

definition log_frames :: "('u, 'w, 'ss) conn_env \<Rightarrow> answer_log \<Rightarrow> message list" where
  "log_frames E lg = concat (map (\<lambda>(own, r). answer_frames E r) lg)"

lemma log_frames_simps [simp]:
  "log_frames E [] = []" "log_frames E ((own, r) # lg) = answer_frames E r @ log_frames E lg"
  "log_frames E (lg @ lg') = log_frames E lg @ log_frames E lg'"
  by (simp_all add: log_frames_def)

lemma log_frames_last:
  "lg \<noteq> [] \<Longrightarrow> log_frames E lg = log_frames E (butlast lg) @ answer_frames E (snd (last lg))"
  by (cases lg rule: rev_cases) auto

definition answers_of :: "nat \<Rightarrow> answer_log \<Rightarrow> response list" where
  "answers_of i lg = map snd (filter (\<lambda>(own, r). own = Some i) lg)"

lemma answers_of_simps [simp]:
  "answers_of i [] = []" "answers_of i ((own, r) # lg) = (if own = Some i then r # answers_of i lg else answers_of i lg)"
  "answers_of i (lg @ lg') = answers_of i lg @ answers_of i lg'"
  by (simp_all add: answers_of_def)

text \<open>Responses that a call's goroutine may have sent, of which only the last one ends the stream.\<close>

definition call_answers :: "call \<Rightarrow> response list \<Rightarrow> bool" where
  "call_answers cl rs \<longleftrightarrow> (\<forall>r \<in> set rs. may_respond cl r) \<and> (\<forall>r \<in> set (butlast rs). \<not> r_closeStream r)"

text \<open>
  A call that has not ended has sent no response that ends the stream, and a call that has ended has sent one,
  unless the main loop has returned.
\<close>

definition answered :: "conn \<Rightarrow> call \<Rightarrow> response list \<Rightarrow> bool" where
  "answered s cl rs \<longleftrightarrow> call_answers cl rs \<and>
     (call_phase cl \<noteq> Ended \<longrightarrow> (\<forall>r \<in> set rs. \<not> r_closeStream r)) \<and>
     (call_phase cl = Ended \<and> serving (k_main s) \<longrightarrow> rs \<noteq> [] \<and> r_closeStream (last rs))"

text \<open>
  Before the main loop sends a response its frame is missing, and it may have failed with the last
  response when it has returned.
\<close>

fun replying :: "main_loop \<Rightarrow> response option" where
  "replying (MReply r) = Some r"
| "replying ph = None"

definition log_wire :: "('u, 'w, 'ss) conn_env \<Rightarrow> conn \<Rightarrow> answer_log \<Rightarrow> bool" where
  "log_wire E s lg \<longleftrightarrow>
     (case replying (k_main s) of
        Some r \<Rightarrow> lg \<noteq> [] \<and> snd (last lg) = r \<and> writer_at (log_frames E (butlast lg)) (k_w s)
      | None \<Rightarrow> writer_at (log_frames E lg) (k_w s) \<or>
          \<not> serving (k_main s) \<and> lg \<noteq> [] \<and> writer_at (log_frames E (butlast lg)) (k_w s))"

definition log_from :: "nat \<Rightarrow> answer_log \<Rightarrow> bool" where
  "log_from n lg \<longleftrightarrow>
     list_all (\<lambda>(own, r). case own of None \<Rightarrow> error_status r | Some i \<Rightarrow> i < n) lg"

definition conn_log :: "('u, 'w, 'ss) conn_env \<Rightarrow> conn \<Rightarrow> answer_log \<Rightarrow> bool" where
  "conn_log E s lg \<longleftrightarrow> log_wire E s lg \<and>
     log_from (length (k_calls s)) lg \<and>
     (\<forall>i < length (k_calls s). answered s (k_calls s ! i) (answers_of i lg)) \<and>
     (\<forall>i < length (k_calls s). \<forall>r. call_phase (k_calls s ! i) = Responding r \<longrightarrow>
        may_respond (k_calls s ! i) r) \<and>
     (\<forall>r. k_receiver s = RSend r \<longrightarrow> error_status r)"

lemma may_respond_phase [simp]: "may_respond (cl\<lparr>call_phase := ph\<rparr>) r = may_respond cl r"
  by (simp add: may_respond_def split: option.split)

lemma call_answers_phase [simp]: "call_answers (cl\<lparr>call_phase := ph\<rparr>) rs = call_answers cl rs"
  by (simp add: call_answers_def)

lemma log_from_simps [simp]:
  "log_from n []" "log_from n (lg @ lg') \<longleftrightarrow> log_from n lg \<and> log_from n lg'"
  "log_from n ((None, r) # lg) \<longleftrightarrow> error_status r \<and> log_from n lg"
  "log_from n ((Some i, r) # lg) \<longleftrightarrow> i < n \<and> log_from n lg"
  by (simp_all add: log_from_def)

lemma log_from_mono: "log_from n lg \<Longrightarrow> n \<le> n' \<Longrightarrow> log_from n' lg"
  by (fastforce simp: log_from_def list_all_iff split: option.splits)

lemma answers_of_new: "log_from n lg \<Longrightarrow> answers_of n lg = []"
  by (auto simp: log_from_def answers_of_def list_all_iff filter_empty_conv)

lemma conn_log_start: "conn_started s \<Longrightarrow> fresh_writer (k_w s) \<Longrightarrow> conn_log E s []"
  by (auto simp: conn_log_def log_wire_def conn_started_def fresh_writer_at)

section \<open>The steps\<close>

lemma conn_logD:
  assumes "conn_log E s lg"
  shows "log_wire E s lg"
    "log_from (length (k_calls s)) lg"
    "i < length (k_calls s) \<Longrightarrow> answered s (k_calls s ! i) (answers_of i lg)"
    "i < length (k_calls s) \<Longrightarrow> call_phase (k_calls s ! i) = Responding r \<Longrightarrow> may_respond (k_calls s ! i) r"
    "k_receiver s = RSend r \<Longrightarrow> error_status r"
  using assms by (auto simp: conn_log_def)

lemma error_status_response [simp]: "error_status (status_response sid st)"
  by (simp add: error_status_def status_response_def)

lemma receiver_frame_log:
  assumes "k_receiver s = RRecv"
  shows "k_w (receiver_frame E now pool s) = k_w s \<and>
   (\<forall>r. k_receiver (receiver_frame E now pool s) = RSend r \<longrightarrow> error_status r)"
proof -
  have close: "k_receiver (receiver_close mh p ref c) = RSend r \<Longrightarrow> error_status r" for mh p ref c r
    by (auto simp: receiver_close_def invalid_def Let_def split: if_splits)
  have hdl: "k_receiver (receiver_handle E now sid req c) = RSend r \<Longrightarrow> error_status r" for sid req c r
    by (auto simp: receiver_handle_def Let_def split: prod.splits handled.splits option.splits)
  have "k_receiver (receiver_message E now mh p c) = RSend r \<Longrightarrow> k_receiver c \<noteq> RSend r \<Longrightarrow> error_status r" for mh p c r
    by (auto simp: receiver_message_def receiver_data_def receiver_request_def invalid_def Let_def
        dest: close hdl split: if_splits option.splits sum.splits)
  then show ?thesis using assms receiver_message_sides [of E now]
    by (auto simp: receiver_frame_def Let_def split: prod.splits option.splits)
qed

lemma receiver_next_log:
  assumes "t \<in> set (receiver_next E now pool (k_receiver s) s)"
  shows "k_w t = k_w s \<and> (\<forall>r. k_receiver t = RSend r \<longrightarrow> error_status r)"
  using assms receiver_frame_log [of s E now pool]
  by (cases "(E, now, pool, k_receiver s, s)" rule: receiver_next.cases)
    (auto simp: receiver_close_def invalid_def Let_def set_handler_def
      split: if_splits option.splits chan_sent.splits)

lemma log_wire_same:
  "log_wire E s lg \<Longrightarrow> k_main t = k_main s \<Longrightarrow> k_w t = k_w s \<Longrightarrow> log_wire E t lg"
  by (simp add: log_wire_def split: option.splits)

lemma answered_same:
  "answered s cl rs \<Longrightarrow> (serving (k_main t) \<Longrightarrow> serving (k_main s)) \<Longrightarrow> answered t cl rs"
  by (auto simp: answered_def)

lemma conn_log_receiver:
  assumes "conn_inv s" "conn_log E s lg" "t \<in> set (receiver_next E now pool (k_receiver s) s)"
  shows "conn_log E t lg"
proof -
  note log = conn_logD [OF assms(2)] and main = receiver_next_main [OF assms(3)] and keep = receiver_next_log [OF assms(3)]
  from receiver_next_effect [OF assms(1,3)] consider "k_calls t = k_calls s"
    | cl where "k_calls t = k_calls s @ [cl]" "call_phase cl = Running"
    by (auto simp: request_effect_def)
  then show ?thesis
  proof cases
    case 1
    with log keep main log_wire_same [OF log(1) main] answered_same [OF log(3), of _ t] show ?thesis
      by (auto simp: conn_log_def nth_append)
  next
    case 2
    have "answered t ((k_calls s @ [cl]) ! i) (answers_of i lg)" if "i < Suc (length (k_calls s))" for i
    proof (cases "i = length (k_calls s)")
      case True
      with 2(2) answers_of_new [OF log(2)] show ?thesis by (simp add: answered_def call_answers_def)
    next
      case False
      with that answered_same [OF log(3), of i t] main show ?thesis by (simp add: nth_append)
    qed
    moreover have "log_from (Suc (length (k_calls s))) lg" by (rule log_from_mono [OF log(2)]) simp
    ultimately show ?thesis
      using 2 log(4) keep log_wire_same [OF log(1) main] by (auto simp: conn_log_def nth_append)
  qed
qed

lemma conn_log_main:
  assumes "conn_log E s lg" "t \<in> set (main_next E (k_main s) s)"
  shows "conn_log E t lg"
proof -
  note log = conn_logD [OF assms(1)] and keep = main_next_keeps [OF assms(2)]
  have "log_wire E t lg \<and> (serving (k_main t) \<longrightarrow> serving (k_main s))"
  proof (cases "k_main s")
    case (MReply r)
    with log(1) have lg: "log_frames E lg = log_frames E (butlast lg) @ answer_frames E r" "lg \<noteq> []"
      and at: "writer_at (log_frames E (butlast lg)) (k_w s)"
      by (auto simp: log_wire_def log_frames_last)
    obtain err w where w: "send_reply E r (k_w s) = (err, w)" by fastforce
    from send_reply_frames [OF at w] assms(2) MReply w lg show ?thesis
      by (cases err) (auto simp: log_wire_def)
  qed (use assms(2) log(1) in \<open>auto simp: log_wire_def main_select_def Let_def setState_def
      split: if_splits chan_received.splits\<close>)
  with log keep show ?thesis
    by (auto simp: conn_log_def intro: answered_same [OF log(3)])
qed

lemma conn_log_other:
  assumes "conn_log E s lg" "k_w t = k_w s" "k_main t = k_main s" "k_receiver t = k_receiver s" "k_calls t = k_calls s"
  shows "conn_log E t lg"
  using assms log_wire_same [OF conn_logD(1) [OF assms(1)]] by (simp add: conn_log_def answered_def)

text \<open>One call moves on and sends nothing.\<close>

lemma conn_log_call:
  assumes "conn_log E s lg" "i < length (k_calls s)"
    and "answered s cl (answers_of i lg)" "\<forall>r. call_phase cl = Responding r \<longrightarrow> may_respond cl r"
  shows "conn_log E (s\<lparr>k_calls := (k_calls s)[i := cl]\<rparr>) lg"
proof -
  have "log_wire E (s\<lparr>k_calls := (k_calls s)[i := cl]\<rparr>) lg"
    by (rule log_wire_same [OF conn_logD(1) [OF assms(1)]]) simp_all
  moreover have "answered (s\<lparr>k_calls := (k_calls s)[i := cl]\<rparr>) cl' rs = answered s cl' rs" for cl' rs
    by (simp add: answered_def)
  ultimately show ?thesis using assms by (simp add: conn_log_def nth_list_update)
qed

text \<open>The main loop takes a response.\<close>

lemma log_wire_take:
  assumes "log_wire E s lg" "k_main s = MSelect b" "k_w t = k_w s" "k_main t = MReply r"
  shows "log_wire E t (lg @ [(own, r)])"
  using assms by (simp add: log_wire_def)

lemma conn_log_status:
  assumes "conn_log E s lg" "k_receiver s = RSend r" "k_main s = MSelect b"
  shows "conn_log E (s\<lparr>k_receiver := RTop, k_main := MReply r\<rparr>) (lg @ [(None, r)])"
  using conn_logD [OF assms(1)] assms(2,3) log_wire_take [OF conn_logD(1) [OF assms(1)] assms(3)]
  by (simp add: conn_log_def answered_def)

lemma answered_response:
  assumes "answered s cl rs" "call_phase cl = Responding r" "may_respond cl r" "serving (k_main t)"
  shows "answered t (responded r cl) (rs @ [r])"
  using assms by (auto simp: answered_def call_answers_def responded_def butlast_append)

lemma conn_log_response:
  assumes "conn_log E s lg" "i < length (k_calls s)" "call_phase (k_calls s ! i) = Responding r" "k_main s = MSelect b"
  shows "conn_log E (s\<lparr>k_calls := (k_calls s)[i := responded r (k_calls s ! i)], k_main := MReply r\<rparr>)
    (lg @ [(Some i, r)])" (is "conn_log E ?t _")
proof -
  note log = conn_logD [OF assms(1)]
  have "answered ?t (k_calls ?t ! j) (answers_of j (lg @ [(Some i, r)]))" if "j < length (k_calls s)" for j
  proof (cases "j = i")
    case True
    with answered_response [OF log(3) assms(3) log(4), of ?t] assms(2,3) show ?thesis by simp
  next
    case False
    with that answered_same [OF log(3), of j ?t] assms(4) show ?thesis by simp
  qed
  moreover have "call_phase (responded r cl) = Responding r' \<Longrightarrow> may_respond (responded r cl) r'" for cl r'
    by (simp add: responded_def split: if_splits)
  ultimately show ?thesis
    using assms(2) log log_wire_take [OF log(1) assms(4), of ?t r "Some i"]
    by (auto simp: conn_log_def nth_list_update)
qed

lemma conn_log_step:
  assumes "conn_step E s t" "conn_inv s" "conn_log E s lg"
  shows "\<exists>lg'. conn_log E t lg'"
  using assms(1)
proof cases
  case kn_receiver
  from conn_log_receiver [OF assms(2,3) this] show ?thesis ..
next
  case kn_main
  from conn_log_main [OF assms(3) this] show ?thesis ..
next
  case (kn_status r b)
  from conn_log_status [OF assms(3) kn_status(2,3)] kn_status(1) show ?thesis by blast
next
  case (kn_respond i r b)
  from conn_log_response [OF assms(3) kn_respond(2-4)] kn_respond(1) show ?thesis by blast
next
  case (kn_call i r)
  note log = conn_logD(3) [OF assms(3) kn_call(2)]
  from log kn_call(3) have "answered s ((k_calls s ! i)\<lparr>call_phase := Responding r\<rparr>) (answers_of i lg)"
    by (simp add: answered_def)
  from conn_log_call [OF assms(3) kn_call(2) this] kn_call show ?thesis by auto
next
  case (kn_give_up i r)
  note log = conn_logD(3) [OF assms(3) kn_give_up(2)]
  from conn_invD(5) [OF assms(2)] kn_give_up(4) have "\<not> serving (k_main s)" by (auto simp: main_ok_def)
  with log kn_give_up(3) have "answered s (responded r (k_calls s ! i)) (answers_of i lg)"
    by (simp add: answered_def responded_def)
  from conn_log_call [OF assms(3) kn_give_up(2) this] kn_give_up show ?thesis
    by (auto simp: responded_def split: if_splits)
qed (insert conn_log_other [OF assms(3), of t], auto simp: set_handler_def conn_close_def)

interpretation conn_logged: traced "\<lambda>s. conn_started s \<and> fresh_writer (k_w s)" "conn_step E" conn_inv "conn_log E"
  by unfold_locales (use conn_reach.inv_start conn_inv_step conn_log_start conn_log_step in blast)+

section \<open>The frames of one stream\<close>

text \<open>
  The frames on an identifier are those of one call, if there is one with this identifier, and of error statuses.
\<close>

definition stream_log :: "u32 \<Rightarrow> answer_log \<Rightarrow> answer_log" where
  "stream_log sid lg = filter (\<lambda>(own, r). r_id r = sid) lg"

lemma filter_log_frames:
  "filter (\<lambda>m. StreamID (fst m) = sid) (log_frames E lg) = log_frames E (stream_log sid lg)"
proof (induction lg)
  case (Cons x lg)
  obtain own r where "x = (own, r)" by fastforce
  moreover have "filter (\<lambda>m. StreamID (fst m) = sid) (answer_frames E r) = (if r_id r = sid then answer_frames E r else [])"
    by (auto simp: filter_empty_conv filter_id_conv dest: answer_frames_id)
  ultimately show ?case using Cons.IH by (simp add: stream_log_def)
qed (simp add: stream_log_def)

lemma stream_log_call:
  assumes "conn_log E s lg" "conn_inv s" "j < length (k_calls s)" "(Some i, r) \<in> set lg"
    and "r_id r = call_id (k_calls s ! j)"
  shows "i = j"
proof -
  note log = conn_logD [OF assms(1)]
  from log(2) assms(4) have i: "i < length (k_calls s)" by (auto simp: log_from_def list_all_iff)
  from assms(4) have "r \<in> set (answers_of i lg)" by (force simp: answers_of_def)
  with log(3) [OF i] have "r_id r = call_id (k_calls s ! i)"
    by (auto simp: answered_def call_answers_def may_respond_def)
  with calls_ok_distinct [OF conn_invD(1) [OF assms(2)]] i assms(3,5) show ?thesis
    by (auto simp: distinct_conv_nth)
qed

lemma answers_of_stream:
  assumes "conn_log E s lg" "conn_inv s" "j < length (k_calls s)"
  shows "map snd (filter (\<lambda>(own, r). own \<noteq> None) (stream_log (call_id (k_calls s ! j)) lg)) = answers_of j lg"
proof -
  have "(r_id r = call_id (k_calls s ! j) \<and> own \<noteq> None) = (own = Some j)" if "(own, r) \<in> set lg" for own r
  proof
    assume "own = Some j"
    with that have "r \<in> set (answers_of j lg)" by (force simp: answers_of_def)
    with conn_logD(3) [OF assms(1,3)] \<open>own = Some j\<close> show "r_id r = call_id (k_calls s ! j) \<and> own \<noteq> None"
      by (auto simp: answered_def call_answers_def may_respond_def)
  qed (use stream_log_call [OF assms] that in auto)
  then show ?thesis unfolding answers_of_def stream_log_def filter_filter
    by (intro arg_cong [where f = "map snd"] filter_cong) auto
qed

text \<open>
  What the frames of one stream come from: responses on its identifier, which are error statuses or belong to
  the call with this identifier, and those of the call are such that only the last one ends the stream.
\<close>

definition own_answers :: "answer_log \<Rightarrow> response list" where
  "own_answers lg = map snd (filter (\<lambda>(own, r). own \<noteq> None) lg)"

definition stream_answers :: "conn \<Rightarrow> u32 \<Rightarrow> answer_log \<Rightarrow> bool" where
  "stream_answers s sid lg \<longleftrightarrow>
     (\<forall>(own, r) \<in> set lg. r_id r = sid \<and>
        (case own of
           None \<Rightarrow> error_status r
         | Some j \<Rightarrow> j < length (k_calls s) \<and> call_id (k_calls s ! j) = sid)) \<and>
     (\<forall>cl \<in> set (k_calls s). call_id cl = sid \<longrightarrow> call_answers cl (own_answers lg))"

lemma conn_log_stream:
  assumes "conn_log E s lg" "conn_inv s"
  shows "stream_answers s sid (stream_log sid lg)"
proof -
  note log = conn_logD [OF assms(1)]
  have "case own of None \<Rightarrow> error_status r
      | Some j \<Rightarrow> j < length (k_calls s) \<and> call_id (k_calls s ! j) = r_id r" if "(own, r) \<in> set lg" for own r
  proof (cases own)
    case None
    with log(2) that show ?thesis by (auto simp: log_from_def list_all_iff)
  next
    case (Some j)
    with log(2) that have j: "j < length (k_calls s)" by (auto simp: log_from_def list_all_iff)
    from Some that have "r \<in> set (answers_of j lg)" by (force simp: answers_of_def)
    with log(3) [OF j] Some j show ?thesis
      by (auto simp: answered_def call_answers_def may_respond_def)
  qed
  moreover have "call_answers cl (own_answers (stream_log sid lg))" if "cl \<in> set (k_calls s)" "call_id cl = sid" for cl
    using that log(3) answers_of_stream [OF assms]
    by (auto simp: in_set_conv_nth own_answers_def answered_def)
  ultimately show ?thesis by (fastforce simp: stream_answers_def stream_log_def)
qed

text \<open>A part of the log whose frames are on the wire.\<close>

lemma conn_log_sent:
  assumes "conn_log E s lg"
  obtains lg' where "lg' = lg \<or> lg \<noteq> [] \<and> lg' = butlast lg" "frames_of (log_frames E lg') (wc_sent (w_conn (k_w s)))"
  using conn_logD(1) [OF assms] that by (auto simp: log_wire_def writer_at_def split: option.splits)

lemma linked_logged:
  assumes "linked G E C S"
  obtains lg where "conn_inv S" "conn_log E S lg"
proof -
  from assms have "reach (\<lambda>s. conn_started s \<and> fresh_writer (k_w s)) (conn_step E) S"
    unfolding linked_def by (auto elim: reach_weaken)
  from conn_logged.trace_reach [OF this] that show thesis by blast
qed

lemma subseq_log_frames: "subseq lg' lg \<Longrightarrow> subseq (log_frames E lg') (log_frames E lg)"
  by (induction rule: list_emb.induct) (auto simp: log_frames_def intro: list_emb_append2 list_emb_append_mono)

lemma unary_answers: "call_answers cl rs \<Longrightarrow> call_handler cl = None \<Longrightarrow> length rs \<le> 1"
  by (cases rs rule: rev_cases; cases "butlast rs")
    (auto simp: call_answers_def may_respond_def butlast_append)

lemma linked_stream:
  assumes "linked G E C S" "grpc_ok G" "i < length (c_heap (cl_client C))"
  obtains lg where "subseq (st_queue (c_heap (cl_client C) ! i)) (log_frames E lg)"
    "stream_answers S (st_id (c_heap (cl_client C) ! i)) lg"
    "\<forall>m \<in> set (st_queue (c_heap (cl_client C) ! i)). message_ok m"
proof -
  let ?q = "st_queue (c_heap (cl_client C) ! i)" and ?sid = "st_id (c_heap (cl_client C) ! i)"
  obtain lg where lg: "conn_inv S" "conn_log E S lg" by (rule linked_logged [OF assms(1)])
  obtain lg' where lg': "lg' = lg \<or> lg \<noteq> [] \<and> lg' = butlast lg"
    "frames_of (log_frames E lg') (wc_sent (w_conn (k_w S)))"
    by (rule conn_log_sent [OF lg(2)])
  have queue: "subseq ?q (log_frames E (stream_log ?sid lg'))"
    using linked_queue [OF assms(1,2) lg'(2) assms(3)] by (simp only: filter_log_frames)
  have "subseq lg' lg" using lg'(1) by (auto simp: prefixeq_butlast intro: prefix_imp_subseq)
  then have "subseq (stream_log ?sid lg') (stream_log ?sid lg)" unfolding stream_log_def by (rule subseq_filter)
  then have "subseq (log_frames E (stream_log ?sid lg')) (log_frames E (stream_log ?sid lg))"
    by (rule subseq_log_frames)
  with queue have "subseq ?q (log_frames E (stream_log ?sid lg))" by (rule subseq_order.order_trans)
  moreover have "stream_answers S ?sid (stream_log ?sid lg)" by (rule conn_log_stream [OF lg(2,1)])
  moreover have "set (log_frames E (stream_log ?sid lg')) \<subseteq> set (log_frames E lg')"
    by (auto simp: filter_log_frames [symmetric])
  then have "\<forall>m \<in> set ?q. message_ok m"
    using subseq_subset [OF queue] lg'(2) by (auto simp: frames_of_def list_all_iff)
  ultimately show thesis by (rule that)
qed

text \<open>The answer to a unary call, or an error status, at the client that waits for it.\<close>

lemma answer_dispatched:
  assumes "proto_ok P" "\<forall>t. Unmarshal P (Some []) t = Unmarshal P None t" "e_proto E = P"
    and "m \<in> set (answer_frames E r)" "message_ok m" "\<not> r_streaming r"
  shows "fst (dispatch_finish P resp (WaitMsg m) c) =
    (None, \<lparr>RStatus = Proto (e_grpc E) (r_status r), RPayload = norm_bytes (r_data r)\<rparr>)"
proof -
  from assms(3,4,6) obtain p where p: "Marshal P (Some (MResponse
      \<lparr>RStatus = Proto (e_grpc E) (r_status r), RPayload = r_data r\<rparr>)) = Inr p"
    and m: "m = sent_frame (r_id r) messageTypeResponse 0 p"
    by (cases "Marshal P (Some (MResponse \<lparr>RStatus = Proto (e_grpc E) (r_status r), RPayload = r_data r\<rparr>))")
      (auto simp: answer_frames_def codec_Marshal_def)
  have "sent_frame (r_id r) messageTypeResponse 0 p = (\<lparr>Length = word_of_nat (slice_len p), StreamID = r_id r,
      Type = messageTypeResponse, Flags = 0\<rparr>, norm_bytes p)"
    by (simp add: sent_frame_def norm_bytes_def slice_len_def)
  moreover from assms(5) have "slice_len p \<le> messageLengthMax"
    unfolding m by (auto simp: sent_frame_def message_ok_def split: if_splits)
  ultimately show ?thesis using client_half [OF assms(1,2) p, of resp "r_id r" c] by (simp add: m)
qed

section \<open>Properties\<close>

lemma example_link:
  obtains C S where "linked example_grpc example_env C S" "0 < length (c_heap (cl_client C))"
    "st_queue (c_heap (cl_client C) ! 0) = [example_reply]" "st_id (c_heap (cl_client C) ! 0) = 1"
    "k_calls S = [\<lparr>call_id = 1, call_handler = None, call_streaming = False, call_phase = Ended\<rparr>]"
proof -
  from example_linked obtain C S where CS: "linked example_grpc example_env C S" "length (c_heap (cl_client C)) = 1"
    "st_queue (c_heap (cl_client C) ! 0) = [example_reply]" "st_id (c_heap (cl_client C) ! 0) = 1"
    "k_calls S = [\<lparr>call_id = 1, call_handler = None, call_streaming = False, call_phase = Ended\<rparr>]"
    by blast
  from CS(2) have "0 < length (c_heap (cl_client C))" by linarith
  from that [OF CS(1) this CS(3-5)] show thesis .
qed







end
