(* ===== verification/Ttrpc_Requests.thy ===== *)
theory Ttrpc_Requests
  imports Ttrpc_Link
begin

text \<open>
  Where the calls of a server's connection come from (\<open>serverConn.run\<close> of \<open>server.go\<close>, \<open>handle\<close> of \<open>services.go\<close>): each
  was started for a request frame that the client has written, of the method that this request names.
\<close>

section \<open>A call and its request\<close>

definition decoded :: "('u, 'w, 'ss) conn_env \<Rightarrow> gobytes \<Rightarrow> Request option" where
  "decoded E p =
     (case codec_Unmarshal (e_proto E) p (AnyMessage (Some (MRequest empty_request))) of
        Inl err \<Rightarrow> None
      | Inr v \<Rightarrow> Some (case v of AnyMessage (Some (MRequest req)) \<Rightarrow> req | _ \<Rightarrow> empty_request))"

definition names_method :: "('u, 'w, 'ss) serviceSet \<Rightarrow> Request \<Rightarrow> call \<Rightarrow> bool" where
  "names_method S req cl \<longleftrightarrow>
     (case services S (Service req) of
        None \<Rightarrow> False
      | Some srv \<Rightarrow>
          (case Methods srv (Method req) of
             Some m \<Rightarrow> call_handler cl = None
           | None \<Rightarrow>
               (case Streams srv (Method req) of
                  Some st \<Rightarrow> call_handler cl \<noteq> None \<and> call_streaming cl = StreamingServer st
                | None \<Rightarrow> False)))"

definition request_call :: "('u, 'w, 'ss) conn_env \<Rightarrow> message \<Rightarrow> call \<Rightarrow> bool" where
  "request_call E m cl \<longleftrightarrow> Type (fst m) = messageTypeRequest \<and> StreamID (fst m) = call_id cl \<and>
     (\<exists>req. decoded E (snd m) = Some req \<and> names_method (e_services E) req cl)"

lemma handle_names_method:
  "case fst (handle grow now S ctx req h) of
     HandleError err \<Rightarrow> True
   | HandleUnary g \<Rightarrow> names_method S req \<lparr>call_id = sid, call_handler = None, call_streaming = False, call_phase = ph\<rparr>
   | HandleStream sh g first \<Rightarrow> names_method S req
       \<lparr>call_id = sid, call_handler = Some ref, call_streaming = ss_StreamingServer (sh_info sh), call_phase = ph\<rparr>"
  by (simp add: handle_def names_method_def Let_def split: option.split prod.split)

text \<open>A request starts one call at most, of the method it names.\<close>

lemma receiver_handle_starts:
  "k_calls (receiver_handle E now sid req c) = k_calls c \<or>
   (\<exists>cl. k_calls (receiver_handle E now sid req c) = k_calls c @ [cl] \<and> call_id cl = sid \<and>
      names_method (e_services E) req cl)"
  using handle_names_method [where grow = "e_grow E" and now = now and S = "e_services E" and ctx = "k_ctx c" and req = req
      and h = "k_store c" and sid = sid and ph = Running and ref = "length (k_heap c)"]
  by (auto simp: receiver_handle_def start_call_def Let_def split: prod.splits handled.splits option.splits)

lemma receiver_request_starts:
  assumes "Type mh = messageTypeRequest"
  shows "k_calls (receiver_request E now mh p c) = k_calls c \<or>
    (\<exists>cl. k_calls (receiver_request E now mh p c) = k_calls c @ [cl] \<and> request_call E (mh, p) cl)"
proof (cases "codec_Unmarshal (e_proto E) p (AnyMessage (Some (MRequest empty_request)))")
  case (Inr v)
  let ?req = "case v of AnyMessage (Some (MRequest req)) \<Rightarrow> req | _ \<Rightarrow> empty_request"
  let ?c = "conn_put_buffer p (c\<lparr>k_lastStreamID := StreamID mh\<rparr>)"
  have calls: "k_calls ?c = k_calls c" by (simp add: conn_put_buffer_def)
  from Inr have "decoded E p = Some ?req" by (simp add: decoded_def)
  moreover from Inr have "receiver_request E now mh p c = receiver_handle E now (StreamID mh) ?req ?c \<or>
      k_calls (receiver_request E now mh p c) = k_calls c"
    by (simp add: receiver_request_def Let_def)
  ultimately show ?thesis
    using receiver_handle_starts [of E now "StreamID mh" ?req ?c] assms unfolding calls request_call_def by auto
qed (simp add: receiver_request_def Let_def conn_put_buffer_def)

lemma receiver_next_calls:
  assumes "t \<in> set (receiver_next E now pool (k_receiver s) s)" "k_receiver s \<noteq> RRecv"
  shows "k_calls t = k_calls s"
  using assms by (cases "(E, now, pool, k_receiver s, s)" rule: receiver_next.cases)
    (auto simp: receiver_close_def Let_def set_handler_def split: if_splits option.splits chan_sent.splits)

section \<open>The trace\<close>

definition calls_from :: "('u, 'w, 'ss) conn_env \<Rightarrow> message list \<Rightarrow> call list \<Rightarrow> bool" where
  "calls_from E A cls \<longleftrightarrow> (\<forall>cl \<in> set cls. \<exists>m \<in> set A. request_call E m cl)"

lemma request_call_phase [simp]: "request_call E m (cl\<lparr>call_phase := ph\<rparr>) = request_call E m cl"
  by (simp add: request_call_def names_method_def split: option.split)

lemma calls_from_phase:
  assumes "calls_from E A cls" "i < length cls"
  shows "calls_from E A (cls[i := (cls ! i)\<lparr>call_phase := ph\<rparr>])"
proof -
  have "\<exists>m \<in> set A. request_call E m ((cls ! i)\<lparr>call_phase := ph\<rparr>)"
    using assms by (simp add: calls_from_def)
  moreover have "set (cls[i := (cls ! i)\<lparr>call_phase := ph\<rparr>]) \<subseteq> insert ((cls ! i)\<lparr>call_phase := ph\<rparr>) (set cls)"
    by (rule set_update_subset_insert)
  ultimately show ?thesis using assms(1) unfolding calls_from_def by blast
qed

lemma calls_from_frame:
  assumes "grpc_ok (e_grpc E)" "client_traffic A" "conn_reads A s ms" "calls_from E A (k_calls s)"
  shows "calls_from E A (k_calls (receiver_frame E now pool s))"
proof -
  obtain mh p err r where rc: "recv pool (k_r s) = ((mh, p, err), r)" by (metis surj_pair)
  note got = frame_accepted [OF assms(1-3) rc, of now]
  show ?thesis
  proof (cases ms)
    case Nil
    with got assms(4) show ?thesis by auto
  next
    case (Cons m ms')
    with got assms(3) have m: "(mh, p) \<in> set A" by (auto simp: conn_reads_def dest: set_mono_suffix)
    show ?thesis
    proof (cases "Type mh = messageTypeRequest")
      case True
      with got Cons have t: "receiver_frame E now pool s = receiver_request E now mh p (s\<lparr>k_r := r\<rparr>)" by auto
      from receiver_request_starts [OF True, of E now p "s\<lparr>k_r := r\<rparr>"] assms(4) m show ?thesis
        unfolding t calls_from_def by auto
    next
      case False
      with got Cons assms(4) show ?thesis by (simp add: receiver_data_same)
    qed
  qed
qed

lemma calls_from_step:
  assumes "conn_step E s t" "grpc_ok (e_grpc E)" "client_traffic A" "conn_trace A s x" "calls_from E A (k_calls s)"
  shows "calls_from E A (k_calls t)"
  using assms(1)
proof cases
  case (kn_receiver now pool)
  show ?thesis
  proof (cases "k_receiver s = RRecv")
    case True
    with kn_receiver calls_from_frame [OF assms(2,3) _ assms(5), of "fst x" now pool] assms(4) show ?thesis
      by (simp add: conn_trace_def)
  next
    case False
    with receiver_next_calls [OF kn_receiver] assms(5) show ?thesis by simp
  qed
next
  case kn_main
  from main_next_keeps [OF this] assms(5) show ?thesis by simp
qed (use assms(5) in \<open>simp_all add: calls_from_phase responded_def set_handler_def conn_close_def\<close>)

interpretation conn_requests: traced "\<lambda>s. (grpc_ok (e_grpc E) \<and> client_traffic A) \<and> conn_fed A s" "conn_step E"
  "\<lambda>s. (grpc_ok (e_grpc E) \<and> client_traffic A) \<and> conn_inv s"
  "\<lambda>s x. conn_trace A s x \<and> calls_from E A (k_calls s)"
proof unfold_locales
  show "\<exists>x. conn_trace A s x \<and> calls_from E A (k_calls s)"
    if "(grpc_ok (e_grpc E) \<and> client_traffic A) \<and> conn_fed A s" for s
    using that conn_trace_start [of A s] by (auto simp: calls_from_def conn_fed_def conn_started_def)
qed (use conn_link.inv_start conn_link.inv_step conn_trace_step calls_from_step in blast)+

section \<open>Property\<close>



end
