(* ===== verification/Ttrpc_UnixCreds.thy ===== *)
theory Ttrpc_UnixCreds
  imports Ttrpc_Errors
begin

text \<open>
  The handshakes: the no-op one (\<open>handshake.go\<close>) and the check of the peer's credentials on a Unix
  socket (\<open>unixcreds_linux.go\<close>).

  A connection is a Unix connection with what the system will answer about it, or a connection of
  another type. \<open>unix.GetsockoptUcred\<close> is a library call: its answer is the field \<open>us_peercred\<close>.
  \<open>int\<close> is 64 bits wide; \<open>uint32(uid)\<close> is \<open>word_of_int uid\<close>.
\<close>

record ucred =
  Pid :: int
  Uid :: u32
  Gid :: u32

record unix_socket =
  us_syscallconn :: "error option"
  us_control :: "error option"
  us_peercred :: "error + ucred"

datatype net_conn = UnixConn nat unix_socket | OtherConn nat

type_synonym UnixCredentialsFunc = "ucred \<Rightarrow> error option"

definition requireUnixSocket :: "net_conn \<Rightarrow> error + net_conn" where
  "requireUnixSocket conn =
     (case conn of
        UnixConn n s \<Rightarrow> Inr (UnixConn n s)
      | OtherConn n \<Rightarrow> Inl (ErrorString ''a unix socket connection is required''))"

definition requireUidGid :: "ucred \<Rightarrow> int \<Rightarrow> int \<Rightarrow> error option" where
  "requireUidGid ucred uid gid =
     (if (uid \<noteq> -1 \<and> word_of_int uid \<noteq> Uid ucred) \<or> (gid \<noteq> -1 \<and> word_of_int gid \<noteq> Gid ucred)
      then Some (ErrorString (''ttrpc: invalid credentials: '' @ errno_text EPERM))
      else None)"

definition UnixSocketRequireUidGid :: "int \<Rightarrow> int \<Rightarrow> UnixCredentialsFunc" where
  "UnixSocketRequireUidGid uid gid = (\<lambda>ucred. requireUidGid ucred uid gid)"

definition UnixSocketRequireRoot :: UnixCredentialsFunc where
  "UnixSocketRequireRoot = UnixSocketRequireUidGid 0 0"

text \<open>\<open>euid\<close> and \<open>egid\<close> are what \<open>os.Geteuid\<close> and \<open>os.Getegid\<close> return.\<close>

definition UnixSocketRequireSameUser :: "int \<Rightarrow> int \<Rightarrow> UnixCredentialsFunc" where
  "UnixSocketRequireSameUser euid egid = UnixSocketRequireUidGid euid egid"

definition creds_error :: "string \<Rightarrow> error \<Rightarrow> error" where
  "creds_error what err = Wrapf (''ttrpc.UnixCredentialsFunc: '' @ what @ '': '') err ''''"

definition unix_Handshake :: "UnixCredentialsFunc \<Rightarrow> net_conn \<Rightarrow> error + net_conn \<times> ucred option" where
  "unix_Handshake fn conn =
     (case requireUnixSocket conn of
        Inl err \<Rightarrow> Inl (creds_error ''require unix socket'' err)
      | Inr uc \<Rightarrow>
          (case uc of
             OtherConn n \<Rightarrow> Inl (creds_error ''require unix socket'' OsErrInvalid)
           | UnixConn n s \<Rightarrow>
               (case us_syscallconn s of
                  Some err \<Rightarrow> Inl (creds_error ''(net.UnixConn).SyscallConn failed'' err)
                | None \<Rightarrow>
                    (case us_control s of
                       Some err \<Rightarrow> Inl (creds_error ''(*syscall.RawConn).Control failed'' err)
                     | None \<Rightarrow>
                         (case us_peercred s of
                            Inl err \<Rightarrow>
                              Inl (creds_error ''failed to retrieve socket peer credentials'' err)
                          | Inr ucred \<Rightarrow>
                              (case fn ucred of
                                 Some err \<Rightarrow> Inl (creds_error ''credential check failed'' err)
                               | None \<Rightarrow> Inr (uc, Some ucred)))))))"

definition noopHandshake :: "net_conn \<Rightarrow> error + net_conn \<times> ucred option" where
  "noopHandshake conn = Inr (conn, None)"


section \<open>Who is let in\<close>

lemma requireUidGid_None:
  "requireUidGid u uid gid = None \<longleftrightarrow>
     (uid = -1 \<or> word_of_int uid = Uid u) \<and> (gid = -1 \<or> word_of_int gid = Gid u)"
  by (auto simp: requireUidGid_def)

lemma unix_Handshake_Inr:
  "unix_Handshake fn conn = Inr r \<longleftrightarrow>
     (\<exists>n s u. conn = UnixConn n s \<and> us_syscallconn s = None \<and> us_control s = None \<and>
        us_peercred s = Inr u \<and> fn u = None \<and> r = (conn, Some u))"
  by (auto simp: unix_Handshake_def requireUnixSocket_def
      split: net_conn.splits option.splits sum.splits)

text \<open>
  A handshake that requires a user and a group accepts a connection exactly when it is a
  Unix socket whose peer's credentials can be read and match, where -1 matches anything; it then
  keeps the connection and returns the credentials. Required numbers are compared modulo 2^32.
\<close>

lemma unix_credentials_accepted:
  "unix_Handshake (UnixSocketRequireUidGid uid gid) conn = Inr r \<longleftrightarrow>
     (\<exists>n s u. conn = UnixConn n s \<and> us_syscallconn s = None \<and> us_control s = None \<and>
        us_peercred s = Inr u \<and> (uid = -1 \<or> word_of_int uid = Uid u) \<and>
        (gid = -1 \<or> word_of_int gid = Gid u) \<and> r = (conn, Some u))"
  by (simp add: unix_Handshake_Inr UnixSocketRequireUidGid_def requireUidGid_None)

end
