(* ===== verification/Ttrpc_Server.thy ===== *)
theory Ttrpc_Server
  imports Ttrpc_ConnCalls Ttrpc_Interceptor Ttrpc_UnixCreds
begin

text \<open>
  The server (\<open>Server\<close> of \<open>server.go\<close>): its listeners and connections, \<open>Serve\<close>, \<open>Shutdown\<close> and \<open>Close\<close>.

  What the mutex \<open>mu\<close> protects is \<open>server\<close>; each critical section is one step. \<open>Serve\<close> and \<open>Shutdown\<close>
  are programs with phases (\<open>serve_next\<close>, \<open>shutdown_next\<close>), and a phase ends where another goroutine
  may come in between. What a listener answers to \<open>Accept\<close> and to \<open>Close\<close> is given by the environment.
  Sleeping and the ticker only let time pass: other goroutines may make any steps meanwhile.
\<close>

section \<open>State\<close>

record serverConn =
  sc_conn :: net_conn
  sc_handshake :: "ucred option"
  sc_run :: conn

text \<open>
  \<open>sv_listeners\<close> has the keys of the map of listeners. \<open>sv_conns\<close> has every connection made so far;
  those with the flag \<open>k_registered\<close> are the keys of the map \<open>connections\<close>.
\<close>

record server =
  sv_listeners :: "nat list"
  sv_conns :: "serverConn list"
  sv_done :: bool

type_synonym Handshake = "net_conn \<Rightarrow> error + net_conn \<times> ucred option"

record ('u, 'w, 'ss) Server =
  sv_config :: "(Handshake, (gocontext, 'u Unmarshaler, ('u, 'w) action) server_interceptor) serverConfig"
  sv_services :: "('u, 'w, 'ss) serviceSet"
  sv_state :: server

definition new_server :: server where
  "new_server = \<lparr>sv_listeners = [], sv_conns = [], sv_done = False\<rparr>"

definition NewServer ::
    "((Handshake, (gocontext, 'u Unmarshaler, ('u, 'w) action) server_interceptor) serverConfig \<Rightarrow>
        error + (Handshake, (gocontext, 'u Unmarshaler, ('u, 'w) action) server_interceptor) serverConfig) list \<Rightarrow>
     error + ('u, 'w, 'ss) Server" where
  "NewServer opts =
     (case new_config opts of
        Inl err \<Rightarrow> Inl err
      | Inr config \<Rightarrow> Inr
          \<lparr>sv_config = config,
           sv_services = newServiceSet (case interceptor config of
             Some i \<Rightarrow> i | None \<Rightarrow> defaultServerInterceptor),
           sv_state = new_server\<rparr>)"

text \<open>\<open>None\<close>: the panic of a name that is registered twice.\<close>

definition RegisterService ::
    "string \<Rightarrow> ('u, 'w, 'ss) ServiceDesc \<Rightarrow> ('u, 'w, 'ss) Server \<Rightarrow> ('u, 'w, 'ss) Server option" where
  "RegisterService name desc s = map_option (\<lambda>ss. s\<lparr>sv_services := ss\<rparr>) (register name desc (sv_services s))"

definition Register ::
    "string \<Rightarrow> (string \<rightharpoonup> ('u, 'w) Method) \<Rightarrow> ('u, 'w, 'ss) Server \<Rightarrow> ('u, 'w, 'ss) Server option" where
  "Register name methods s = RegisterService name \<lparr>Methods = methods, Streams = Map.empty\<rparr> s"

section \<open>Listeners\<close>

definition addListenerLocked :: "nat \<Rightarrow> server \<Rightarrow> server" where
  "addListenerLocked l s =
     s\<lparr>sv_listeners := (if l \<in> set (sv_listeners s) then sv_listeners s else sv_listeners s @ [l])\<rparr>"

text \<open>\<open>answer l\<close> is what \<open>l.Close()\<close> returns.\<close>

definition closeListenerLocked :: "(nat \<Rightarrow> error option) \<Rightarrow> nat \<Rightarrow> server \<Rightarrow> error option \<times> server" where
  "closeListenerLocked answer l s = (answer l, s\<lparr>sv_listeners := removeAll l (sv_listeners s)\<rparr>)"

definition closeListener :: "(nat \<Rightarrow> error option) \<Rightarrow> nat \<Rightarrow> server \<Rightarrow> error option \<times> server" where
  "closeListener answer l s = closeListenerLocked answer l s"

text \<open>The loop over the map: \<open>order\<close> has the keys of the map, in the order of the iteration.\<close>

fun close_all :: "(nat \<Rightarrow> error option) \<Rightarrow> nat list \<Rightarrow> error option \<Rightarrow> server \<Rightarrow> error option \<times> server" where
  "close_all answer [] err s = (err, s)"
| "close_all answer (l # ls) err s =
     (case closeListenerLocked answer l s of
        (cerr, s1) \<Rightarrow> close_all answer ls (if cerr \<noteq> None \<and> err = None then cerr else err) s1)"

definition closeListeners :: "(nat \<Rightarrow> error option) \<Rightarrow> nat list \<Rightarrow> server \<Rightarrow> error option \<times> server" where
  "closeListeners answer order s = close_all answer order None s"

section \<open>Connections\<close>

definition registered :: "serverConn \<Rightarrow> bool" where
  "registered c = k_registered (sc_run c)"

definition upd_run :: "(conn \<Rightarrow> conn) \<Rightarrow> serverConn \<Rightarrow> serverConn" where
  "upd_run f c = c\<lparr>sc_run := f (sc_run c)\<rparr>"

text \<open>The connection as \<open>newConn\<close> and the first lines of \<open>run\<close> set it up.\<close>

definition new_run :: "gocontext \<Rightarrow> channel \<Rightarrow> store \<Rightarrow> bool \<Rightarrow> conn" where
  "new_run ctx ch h known =
     setState connStateIdle
       \<lparr>k_ctx = ctx, k_r = ch_r ch, k_w = ch_w ch, k_buffers = [], k_store = h, k_shutdown = False,
        k_state = None, k_local = connStateIdle, k_recvErr = make_chan 1, k_recvErrNil = False,
        k_done = False, k_streams = Map.empty, k_heap = [], k_active = 0, k_lastStreamID = 0,
        k_calls = [], k_receiver = RTop, k_main = MTop, k_registered = known, k_closed = False\<rparr>"

definition addConnection :: "serverConn \<Rightarrow> server \<Rightarrow> error option \<times> server" where
  "addConnection c s =
     (if sv_done s then (Some ErrServerClosed, s)
      else (None, s\<lparr>sv_conns := sv_conns s @ [upd_run (\<lambda>r. r\<lparr>k_registered := True\<rparr>) c]\<rparr>))"

text \<open>\<open>io\<close> is what the network connection does when it is read and written.\<close>

definition newConn ::
    "(net_conn \<Rightarrow> wconn \<times> reader) \<Rightarrow> gocontext \<Rightarrow> store \<Rightarrow> net_conn \<Rightarrow> ucred option \<Rightarrow> server \<Rightarrow>
     (error + serverConn) \<times> server" where
  "newConn io ctx h conn handshake s =
     (let c = \<lparr>sc_conn = conn, sc_handshake = handshake,
               sc_run = new_run ctx (newChannel (fst (io conn)) (snd (io conn))) h False\<rparr>
      in case addConnection c s of
           (Some err, s') \<Rightarrow> (Inl err, s')
         | (None, s') \<Rightarrow> (Inr c, s'))"

definition delConnection :: "nat \<Rightarrow> server \<Rightarrow> server" where
  "delConnection i s =
     s\<lparr>sv_conns := (sv_conns s)[i := upd_run (\<lambda>r. r\<lparr>k_registered := False\<rparr>) (sv_conns s ! i)]\<rparr>"

definition countConnection :: "server \<Rightarrow> nat" where
  "countConnection s = length (filter registered (sv_conns s))"

definition drop_conn :: "serverConn \<Rightarrow> serverConn" where
  "drop_conn c = upd_run (\<lambda>r. (conn_close r)\<lparr>k_registered := False\<rparr>) c"

definition closeIdleConns :: "server \<Rightarrow> server" where
  "closeIdleConns s =
     s\<lparr>sv_conns := map (\<lambda>c.
         if registered c then
           (case getState (sc_run c) of
              Some st \<Rightarrow> if st = connStateActive then c else drop_conn c
            | None \<Rightarrow> c)
         else c) (sv_conns s)\<rparr>"

section \<open>Serve\<close>

definition time_Millisecond :: int where
  "time_Millisecond = 1000000"

definition time_Second :: int where
  "time_Second = 1000 * time_Millisecond"

definition next_backoff :: "int \<Rightarrow> int" where
  "next_backoff backoff =
     (let backoff = (if backoff = 0 then time_Millisecond else backoff * 2) in min time_Second backoff)"

definition server_handshaker :: "(Handshake, 'i) serverConfig \<Rightarrow> Handshake" where
  "server_handshaker config = (case handshaker config of None \<Rightarrow> noopHandshake | Some h \<Rightarrow> h)"

datatype accepted = AcceptConn net_conn | AcceptError error

text \<open>
  Phases of \<open>Serve\<close>: before its first critical section, in \<open>Accept\<close> (with the current backoff), after
  it, sleeping, before \<open>newConn\<close>, before the deferred \<open>closeListener\<close>, returned.
\<close>

datatype serve_phase =
    SvEnter
  | SvAccept int
  | SvAccepted int accepted
  | SvSleep int
  | SvNew net_conn "ucred option"
  | SvReturn "error option"
  | SvEnd "error option"

record serve_env =
  se_io :: "net_conn \<Rightarrow> wconn \<times> reader"
  se_close :: "nat \<Rightarrow> error option"
  se_temporary :: "error \<Rightarrow> bool"
  se_handshake :: Handshake

fun serve_next ::
    "serve_env \<Rightarrow> accepted \<Rightarrow> store \<Rightarrow> gocontext \<Rightarrow> nat \<Rightarrow> serve_phase \<Rightarrow> server \<Rightarrow> (serve_phase \<times> server) list" where
  "serve_next V a h ctx l SvEnter s =
     [if sv_done (addListenerLocked l s)
      then (SvReturn (Some ErrServerClosed), addListenerLocked l s)
      else (SvAccept 0, addListenerLocked l s)]"
| "serve_next V a h ctx l (SvAccept backoff) s = [(SvAccepted backoff a, s)]"
| "serve_next V a h ctx l (SvAccepted backoff (AcceptError err)) s =
     [if sv_done s then (SvReturn (Some ErrServerClosed), s)
      else if se_temporary V err then (SvSleep (next_backoff backoff), s)
      else (SvReturn (Some err), s)]"
| "serve_next V a h ctx l (SvAccepted backoff (AcceptConn conn)) s =
     [case se_handshake V conn of
        Inl err \<Rightarrow> (SvAccept 0, s)
      | Inr (approved, handshake) \<Rightarrow> (SvNew approved handshake, s)]"
| "serve_next V a h ctx l (SvSleep backoff) s = [(SvAccept backoff, s)]"
| "serve_next V a h ctx l (SvNew conn handshake) s =
     [(SvAccept 0, snd (newConn (se_io V) ctx h conn handshake s))]"
| "serve_next V a h ctx l (SvReturn err) s = [(SvEnd err, snd (closeListener (se_close V) l s))]"
| "serve_next V a h ctx l (SvEnd err) s = []"

section \<open>Shutdown and Close\<close>

text \<open>
  Phases of \<open>Shutdown\<close>: before its critical section, before \<open>closeIdleConns\<close>, before
  \<open>countConnection\<close>, waiting for the ticker, returned. \<open>ShReturn drained err\<close> says whether the loop
  ended because no connection was left. \<open>ctxerr\<close> is \<open>ctx.Err()\<close>.
\<close>

datatype shutdown_phase =
    ShEnter
  | ShIdle "error option"
  | ShCount "error option"
  | ShWait "error option"
  | ShReturn bool "error option"

fun shutdown_next ::
    "serve_env \<Rightarrow> nat list \<Rightarrow> error option \<Rightarrow> shutdown_phase \<Rightarrow> server \<Rightarrow> (shutdown_phase \<times> server) list" where
  "shutdown_next V order ctxerr ShEnter s =
     (case closeListeners (se_close V) order (s\<lparr>sv_done := True\<rparr>) of (lnerr, s1) \<Rightarrow> [(ShIdle lnerr, s1)])"
| "shutdown_next V order ctxerr (ShIdle lnerr) s = [(ShCount lnerr, closeIdleConns s)]"
| "shutdown_next V order ctxerr (ShCount lnerr) s =
     [if countConnection s = 0 then (ShReturn True lnerr, s) else (ShWait lnerr, s)]"
| "shutdown_next V order ctxerr (ShWait lnerr) s =
     (ShIdle lnerr, s) # (case ctxerr of Some e \<Rightarrow> [(ShReturn False (Some e), s)] | None \<Rightarrow> [])"
| "shutdown_next V order ctxerr (ShReturn drained err) s = []"

definition server_Close :: "serve_env \<Rightarrow> nat list \<Rightarrow> server \<Rightarrow> error option \<times> server" where
  "server_Close V order s =
     (case closeListeners (se_close V) order (s\<lparr>sv_done := True\<rparr>) of
        (err, s1) \<Rightarrow>
          (err, s1\<lparr>sv_conns := map (\<lambda>c. if registered c then drop_conn c else c) (sv_conns s1)\<rparr>))"

section \<open>A server with its goroutines\<close>

record serve_call =
  sp_listener :: nat
  sp_ctx :: gocontext
  sp_phase :: serve_phase

record server_sys =
  sy_server :: server
  sy_serves :: "serve_call list"
  sy_shutdowns :: "shutdown_phase list"

definition server_start :: "server_sys \<Rightarrow> bool" where
  "server_start s \<longleftrightarrow> s = \<lparr>sy_server = new_server, sy_serves = [], sy_shutdowns = []\<rparr>"

text \<open>
  Steps: a call of \<open>Serve\<close>, \<open>Shutdown\<close> or \<open>Close\<close>, a step of a running call, and a step of a goroutine
  of a connection. Only the server closes a connection's channel \<open>shutdown\<close>.
\<close>

inductive server_step :: "('u, 'w, 'ss) conn_env \<Rightarrow> serve_env \<Rightarrow> server_sys \<Rightarrow> server_sys \<Rightarrow> bool"
  for E :: "('u, 'w, 'ss) conn_env" and V :: serve_env where
  sv_serve_call: "server_step E V s (s\<lparr>sy_serves := sy_serves s @
     [\<lparr>sp_listener = l, sp_ctx = ctx, sp_phase = SvEnter\<rparr>]\<rparr>)"
| sv_serve: "i < length (sy_serves s) \<Longrightarrow> p = sy_serves s ! i \<Longrightarrow>
     (ph, sv) \<in> set (serve_next V a h (sp_ctx p) (sp_listener p) (sp_phase p) (sy_server s)) \<Longrightarrow>
     server_step E V s (s\<lparr>sy_server := sv, sy_serves := (sy_serves s)[i := p\<lparr>sp_phase := ph\<rparr>]\<rparr>)"
| sv_shutdown_call: "server_step E V s (s\<lparr>sy_shutdowns := sy_shutdowns s @ [ShEnter]\<rparr>)"
| sv_shutdown: "i < length (sy_shutdowns s) \<Longrightarrow> distinct order \<Longrightarrow> set order = set (sv_listeners (sy_server s)) \<Longrightarrow>
     (ph, sv) \<in> set (shutdown_next V order ctxerr (sy_shutdowns s ! i) (sy_server s)) \<Longrightarrow>
     server_step E V s (s\<lparr>sy_server := sv, sy_shutdowns := (sy_shutdowns s)[i := ph]\<rparr>)"
| sv_close: "distinct order \<Longrightarrow> set order = set (sv_listeners (sy_server s)) \<Longrightarrow>
     server_step E V s (s\<lparr>sy_server := snd (server_Close V order (sy_server s))\<rparr>)"
| sv_conn: "i < length (sv_conns (sy_server s)) \<Longrightarrow> c = sv_conns (sy_server s) ! i \<Longrightarrow>
     conn_step E (sc_run c) r \<Longrightarrow> k_shutdown r = k_shutdown (sc_run c) \<Longrightarrow>
     server_step E V s (s\<lparr>sy_server := (sy_server s)\<lparr>sv_conns :=
       (sv_conns (sy_server s))[i := c\<lparr>sc_run := r\<rparr>]\<rparr>\<rparr>)"

section \<open>The invariant of a server\<close>

text \<open>
  Every connection is one of the executions of \<open>Ttrpc_Conn\<close>, came through the handshake, and is known
  to the server until it ends or is told to shut down.
\<close>

definition dropped :: "conn \<Rightarrow> bool" where
  "dropped r \<longleftrightarrow> k_shutdown r \<or> k_main r \<in> {MDone, MCancel, MClose, MEnd}"

definition server_conn_ok :: "('u, 'w, 'ss) conn_env \<Rightarrow> Handshake \<Rightarrow> serverConn \<Rightarrow> bool" where
  "server_conn_ok E hs c \<longleftrightarrow> reach conn_started (conn_step E) (sc_run c) \<and>
     (\<exists>conn. hs conn = Inr (sc_conn c, sc_handshake c)) \<and>
     (registered c \<longrightarrow> \<not> k_shutdown (sc_run c)) \<and> (\<not> registered c \<longrightarrow> dropped (sc_run c))"

text \<open>\<open>pre\<close>: a phase of \<open>Serve\<close> in which a new connection has passed the handshake.\<close>

definition serve_ok :: "serve_env \<Rightarrow> serve_phase \<Rightarrow> bool" where
  "serve_ok V ph \<longleftrightarrow>
     (case ph of
        SvNew conn handshake \<Rightarrow> \<exists>c. se_handshake V c = Inr (conn, handshake)
      | SvSleep b \<Rightarrow> time_Millisecond \<le> b \<and> b \<le> time_Second
      | SvAccept b \<Rightarrow> b = 0 \<or> time_Millisecond \<le> b \<and> b \<le> time_Second
      | SvAccepted b a \<Rightarrow> b = 0 \<or> time_Millisecond \<le> b \<and> b \<le> time_Second
      | _ \<Rightarrow> True)"

text \<open>Once the server is done, a listener in the map belongs to a \<open>Serve\<close> that is about to close it.\<close>

definition closing :: "nat \<Rightarrow> serve_call \<Rightarrow> bool" where
  "closing l p \<longleftrightarrow> sp_listener p = l \<and> (\<exists>err. sp_phase p = SvReturn err)"

definition drained :: "server \<Rightarrow> bool" where
  "drained s \<longleftrightarrow> sv_done s \<and> (\<forall>c \<in> set (sv_conns s). \<not> registered c)"

definition conns_ok :: "('u, 'w, 'ss) conn_env \<Rightarrow> serve_env \<Rightarrow> server \<Rightarrow> bool" where
  "conns_ok E V sv \<longleftrightarrow> (\<forall>c \<in> set (sv_conns sv). server_conn_ok E (se_handshake V) c)"

definition serves_ok :: "serve_env \<Rightarrow> serve_call list \<Rightarrow> bool" where
  "serves_ok V ps \<longleftrightarrow> (\<forall>p \<in> set ps. serve_ok V (sp_phase p))"

definition listeners_ok :: "server \<Rightarrow> serve_call list \<Rightarrow> bool" where
  "listeners_ok sv ps \<longleftrightarrow> (sv_done sv \<longrightarrow> (\<forall>l \<in> set (sv_listeners sv). \<exists>p \<in> set ps. closing l p))"

definition shutdowns_ok :: "server \<Rightarrow> shutdown_phase list \<Rightarrow> bool" where
  "shutdowns_ok sv phs \<longleftrightarrow> (\<forall>ph \<in> set phs. (ph \<noteq> ShEnter \<longrightarrow> sv_done sv) \<and>
     (\<forall>err. ph = ShReturn True err \<longrightarrow> drained sv))"

definition server_inv :: "('u, 'w, 'ss) conn_env \<Rightarrow> serve_env \<Rightarrow> server_sys \<Rightarrow> bool" where
  "server_inv E V s \<longleftrightarrow> conns_ok E V (sy_server s) \<and> serves_ok V (sy_serves s) \<and>
     listeners_ok (sy_server s) (sy_serves s) \<and> shutdowns_ok (sy_server s) (sy_shutdowns s)"

text \<open>What closing the listeners leaves.\<close>

lemma close_all_state:
  "snd (close_all answer ls err s) = s\<lparr>sv_listeners := filter (\<lambda>l. l \<notin> set ls) (sv_listeners s)\<rparr>"
proof (induction ls arbitrary: err s)
  case (Cons l ls)
  have "filter (\<lambda>x. x \<notin> set ls) (removeAll l xs) = filter (\<lambda>x. x \<notin> set (l # ls)) xs" for xs
    by (induction xs) auto
  then show ?case by (simp add: closeListenerLocked_def Cons.IH)
qed simp

lemma closeListeners_state:
  "set order = set (sv_listeners s) \<Longrightarrow> snd (closeListeners answer order s) = s\<lparr>sv_listeners := []\<rparr>"
  by (simp add: closeListeners_def close_all_state)

lemma countConnection_zero: "countConnection s = 0 \<longleftrightarrow> (\<forall>c \<in> set (sv_conns s). \<not> registered c)"
  by (auto simp: countConnection_def filter_empty_conv)

text \<open>What the steps of a connection do to the flags that the server looks at.\<close>

lemma receiver_frame_flags:
  "k_registered (receiver_frame E now pool s) = k_registered s"
proof -
  have close: "k_registered (receiver_close mh p ref c) = k_registered c" for mh p ref c
    by (simp add: receiver_close_def Let_def)
  have hdl: "k_registered (receiver_handle E now sid req c) = k_registered c" for sid req c
    by (auto simp: receiver_handle_def start_call_def Let_def split: prod.split handled.split option.split)
  have "k_registered (receiver_message E now mh p c) = k_registered c" for mh p c
    by (auto simp: receiver_message_def receiver_data_def receiver_request_def Let_def close hdl
        conn_put_buffer_def split: option.split sum.split)
  then show ?thesis
    by (auto simp: receiver_frame_def Let_def split: prod.split option.split)
qed

lemma receiver_next_flags:
  assumes "t \<in> set (receiver_next E now pool (k_receiver s) s)"
  shows "k_registered t = k_registered s"
  using assms receiver_frame_flags [of E now pool s]
  by (cases "(E, now, pool, k_receiver s, s)" rule: receiver_next.cases)
    (auto simp: receiver_close_def Let_def set_handler_def split: if_splits option.splits chan_sent.splits)

lemma main_next_flags:
  assumes "t \<in> set (main_next E (k_main s) s)"
  shows "k_registered t = (k_registered s \<and> k_main t \<noteq> MDone) \<and>
    (k_main s \<in> {MDone, MCancel, MClose, MEnd} \<longrightarrow> k_main t \<in> {MCancel, MClose, MEnd}) \<or>
    k_main t = MDone \<and> \<not> k_registered t"
proof (cases "k_main s")
  case MTop
  with assms show ?thesis by (simp add: Let_def setState_def)
next
  case (MSelect idle)
  with assms show ?thesis by (auto simp: main_select_def split: if_splits chan_received.splits)
next
  case (MReply r)
  obtain err w where "send_reply E r (k_w s) = (err, w)" by fastforce
  with MReply assms show ?thesis by (cases err) auto
qed (use assms in simp_all)

lemma conn_step_dropped:
  assumes step: "conn_step E s t" and same: "k_shutdown t = k_shutdown s"
    and ok: "k_registered s \<Longrightarrow> \<not> k_shutdown s" "\<not> k_registered s \<Longrightarrow> dropped s"
  shows "(k_registered t \<longrightarrow> k_registered s) \<and> (\<not> k_registered t \<longrightarrow> dropped t)"
  using step
proof cases
  case (kn_receiver now pool)
  with receiver_next_flags receiver_next_main ok same show ?thesis by (metis dropped_def)
next
  case kn_main
  from main_next_flags [OF this] ok same show ?thesis by (cases "k_registered s") (auto simp: dropped_def)
qed (use ok in \<open>auto simp: dropped_def conn_close_def set_handler_def split: if_splits\<close>)

lemma server_conn_ok_step:
  assumes "server_conn_ok E hs c" "conn_step E (sc_run c) r" "k_shutdown r = k_shutdown (sc_run c)"
  shows "server_conn_ok E hs (c\<lparr>sc_run := r\<rparr>)"
  using assms reach_step [where start = conn_started and step = "conn_step E", OF _ assms(2)] conn_step_dropped [OF assms(2,3)]
  by (auto simp: server_conn_ok_def registered_def)

lemma server_conn_ok_drop:
  assumes "server_conn_ok E hs c" "registered c"
  shows "server_conn_ok E hs (drop_conn c)"
proof -
  have "conn_step E (sc_run c) ((conn_close (sc_run c))\<lparr>k_registered := False\<rparr>)"
    by (rule kn_close) (use assms(2) in \<open>simp add: registered_def\<close>)
  from reach_step [where start = conn_started and step = "conn_step E", OF _ this] assms show ?thesis
    by (auto simp: server_conn_ok_def drop_conn_def upd_run_def registered_def dropped_def conn_close_def)
qed

lemma new_run_started: "conn_started ((new_run ctx ch h b)\<lparr>k_registered := True\<rparr>)"
  by (auto simp: conn_started_def new_run_def setState_def)

lemma newConn_server:
  "snd (newConn io ctx h conn handshake s) =
    (if sv_done s then s
     else s\<lparr>sv_conns := sv_conns s @ [\<lparr>sc_conn = conn, sc_handshake = handshake,
       sc_run = (new_run ctx (newChannel (fst (io conn)) (snd (io conn))) h False)\<lparr>k_registered := True\<rparr>\<rparr>]\<rparr>)"
  by (simp add: newConn_def addConnection_def Let_def upd_run_def)

lemma server_conn_ok_new:
  assumes "hs c = Inr (conn, handshake)"
  shows "server_conn_ok E hs \<lparr>sc_conn = conn, sc_handshake = handshake,
    sc_run = (new_run ctx ch h b)\<lparr>k_registered := True\<rparr>\<rparr>"
  using assms reach_start [where start = conn_started, OF new_run_started]
  by (auto simp: server_conn_ok_def registered_def new_run_def setState_def)

text \<open>The connections change one by one; once the server is done, none is registered any more.\<close>

definition fewer :: "server \<Rightarrow> server \<Rightarrow> bool" where
  "fewer sv sv' \<longleftrightarrow> length (sv_conns sv') = length (sv_conns sv) \<and>
     (\<forall>i < length (sv_conns sv). registered (sv_conns sv' ! i) \<longrightarrow> registered (sv_conns sv ! i))"

lemma fewer_refl [simp]: "sv_conns sv' = sv_conns sv \<Longrightarrow> fewer sv sv'"
  by (simp add: fewer_def)

lemma fewer_drained: "drained sv \<Longrightarrow> sv_done sv' \<Longrightarrow> fewer sv sv' \<Longrightarrow> drained sv'"
  by (fastforce simp: drained_def fewer_def set_conv_nth)

lemma shutdowns_ok_fewer:
  "shutdowns_ok sv phs \<Longrightarrow> (sv_done sv \<Longrightarrow> sv_done sv' \<and> fewer sv sv') \<Longrightarrow> shutdowns_ok sv' phs"
  using fewer_drained by (fastforce simp: shutdowns_ok_def drained_def)

lemma next_backoff_bounds:
  assumes "b = 0 \<or> time_Millisecond \<le> b"
  shows "time_Millisecond \<le> next_backoff b" "next_backoff b \<le> time_Second"
  using assms by (auto simp: next_backoff_def Let_def time_Second_def time_Millisecond_def)

lemma serve_next_ok:
  assumes "(ph', sv') \<in> set (serve_next V a h ctx l ph sv)" "serve_ok V ph"
  shows "serve_ok V ph'"
proof (cases ph)
  case (SvAccepted b x)
  then show ?thesis using assms next_backoff_bounds [of b]
    by (cases x) (auto simp: serve_ok_def split: if_splits sum.splits prod.splits)
qed (use assms in \<open>auto simp: serve_ok_def split: if_splits\<close>)

lemma serve_next_server:
  assumes "(ph', sv') \<in> set (serve_next V a h ctx l ph sv)" "serve_ok V ph"
  shows "sv_done sv' = sv_done sv" "sv_done sv \<Longrightarrow> sv_conns sv' = sv_conns sv"
    "conns_ok E V sv \<Longrightarrow> conns_ok E V sv'"
proof -
  have "sv_done sv' = sv_done sv \<and> (sv_done sv \<longrightarrow> sv_conns sv' = sv_conns sv) \<and>
    (conns_ok E V sv \<longrightarrow> conns_ok E V sv')"
  proof (cases ph)
    case (SvAccepted b x)
    then show ?thesis using assms by (cases x) (auto split: if_splits sum.splits prod.splits)
  next
    case (SvNew conn handshake)
    with assms(2) obtain c where "se_handshake V c = Inr (conn, handshake)" by (auto simp: serve_ok_def)
    with SvNew assms(1) server_conn_ok_new [where hs = "se_handshake V", OF this] show ?thesis
      by (auto simp: newConn_server conns_ok_def split: if_splits)
  qed (use assms in \<open>auto simp: addListenerLocked_def closeListener_def closeListenerLocked_def conns_ok_def
      split: if_splits\<close>)
  then show "sv_done sv' = sv_done sv" "sv_done sv \<Longrightarrow> sv_conns sv' = sv_conns sv"
    "conns_ok E V sv \<Longrightarrow> conns_ok E V sv'" by blast+
qed

lemma serve_next_listeners:
  assumes "(ph', sv') \<in> set (serve_next V a h ctx l ph sv)"
  shows "set (sv_listeners sv') \<subseteq> set (sv_listeners sv) \<and>
      (l \<in> set (sv_listeners sv') \<longrightarrow> (\<forall>err. ph \<noteq> SvReturn err)) \<or>
    ph = SvEnter \<and> set (sv_listeners sv') \<subseteq> insert l (set (sv_listeners sv)) \<and>
      (sv_done sv \<longrightarrow> (\<exists>err. ph' = SvReturn err))"
proof (cases ph)
  case (SvAccepted b x)
  then show ?thesis using assms by (cases x) (auto split: if_splits sum.splits prod.splits)
qed (use assms in \<open>auto simp: newConn_server addListenerLocked_def closeListener_def closeListenerLocked_def
    split: if_splits\<close>)

lemma set_update_keeps:
  assumes "p \<in> set ps" "i < length ps" "ps ! i \<noteq> p"
  shows "p \<in> set (ps[i := q])"
  using assms by (metis in_set_conv_nth length_list_update nth_list_update_neq)

lemma listeners_ok_serve:
  assumes ok: "listeners_ok sv ps" and i: "i < length ps"
    and nxt: "(ph', sv') \<in> set (serve_next V a h ctx (sp_listener (ps ! i)) (sp_phase (ps ! i)) sv)"
    and same: "sv_done sv' = sv_done sv"
  shows "listeners_ok sv' (ps[i := (ps ! i)\<lparr>sp_phase := ph'\<rparr>])"
  unfolding listeners_ok_def
proof (intro impI ballI)
  fix l assume "sv_done sv'" and l: "l \<in> set (sv_listeners sv')"
  let ?p = "ps ! i" and ?q = "(ps ! i)\<lparr>sp_phase := ph'\<rparr>"
  have q: "?q \<in> set (ps[i := ?q])" using i by (simp add: set_update_memI)
  have old: "\<exists>p \<in> set ps. closing l p" if "l \<in> set (sv_listeners sv)"
    using ok that \<open>sv_done sv'\<close> same by (simp add: listeners_ok_def)
  show "\<exists>p \<in> set (ps[i := ?q]). closing l p"
  proof (cases "l = sp_listener ?p \<and> sp_phase ?p = SvEnter \<and> (\<exists>err. ph' = SvReturn err)")
    case True
    then show ?thesis using q by (intro bexI [of _ ?q]) (auto simp: closing_def)
  next
    case False
    with serve_next_listeners [OF nxt] l \<open>sv_done sv'\<close> same have
      "l \<in> set (sv_listeners sv)" "\<not> closing l ?p" by (auto simp: closing_def)
    with old obtain p where "p \<in> set ps" "closing l p" "ps ! i \<noteq> p" by auto
    with set_update_keeps [OF _ i] show ?thesis by blast
  qed
qed

lemma conns_ok_drop:
  assumes "conns_ok E V sv" "\<And>c. f c = c \<or> registered c \<and> f c = drop_conn c"
  shows "conns_ok E V (sv\<lparr>sv_conns := map f (sv_conns sv)\<rparr>)"
proof -
  have "server_conn_ok E hs (f c)" if "server_conn_ok E hs c" for hs c
    using assms(2) [of c] that server_conn_ok_drop [OF that] by auto
  with assms(1) show ?thesis by (simp add: conns_ok_def)
qed

lemma registered_drop [simp]: "\<not> registered (drop_conn c)"
  by (simp add: registered_def drop_conn_def upd_run_def)

lemma fewer_drop:
  assumes "\<And>c. f c = c \<or> registered c \<and> f c = drop_conn c"
  shows "fewer sv (sv\<lparr>sv_conns := map f (sv_conns sv)\<rparr>)"
  unfolding fewer_def using assms by (auto simp: length_map) (metis registered_drop)

lemma closeIdleConns_drop:
  obtains f where "closeIdleConns sv = sv\<lparr>sv_conns := map f (sv_conns sv)\<rparr>"
    "\<And>c. f c = c \<or> registered c \<and> f c = drop_conn c"
proof (rule that [OF closeIdleConns_def])
  show "(if registered c then case getState (sc_run c) of
      Some st \<Rightarrow> if st = connStateActive then c else drop_conn c | None \<Rightarrow> c else c) = c \<or>
    registered c \<and> (if registered c then case getState (sc_run c) of
      Some st \<Rightarrow> if st = connStateActive then c else drop_conn c | None \<Rightarrow> c else c) = drop_conn c" for c
    by (simp split: option.split)
qed

lemma server_Close_drop:
  assumes "set order = set (sv_listeners sv)"
  obtains f where
    "snd (server_Close V order sv) = (sv\<lparr>sv_done := True, sv_listeners := []\<rparr>)\<lparr>sv_conns := map f (sv_conns sv)\<rparr>"
    "\<And>c. f c = c \<or> registered c \<and> f c = drop_conn c" "\<And>c. \<not> registered (f c)"
proof -
  have "snd (closeListeners (se_close V) order (sv\<lparr>sv_done := True\<rparr>)) = sv\<lparr>sv_done := True, sv_listeners := []\<rparr>"
    by (subst closeListeners_state) (simp_all add: assms)
  then show thesis
    by (intro that [of "\<lambda>c. if registered c then drop_conn c else c"])
      (auto simp: server_Close_def split: prod.split)
qed

lemma shutdown_next_server:
  assumes "(ph', sv') \<in> set (shutdown_next V order ctxerr ph sv)" "set order = set (sv_listeners sv)"
    "conns_ok E V sv"
  shows "(sv_done sv \<longrightarrow> sv_done sv') \<and> (ph = ShEnter \<longrightarrow> sv_done sv') \<and> ph' \<noteq> ShEnter \<and> fewer sv sv' \<and>
    conns_ok E V sv' \<and> set (sv_listeners sv') \<subseteq> set (sv_listeners sv) \<and>
    (sv_done sv' \<and> \<not> sv_done sv \<longrightarrow> sv_listeners sv' = []) \<and>
    (\<forall>err. ph' = ShReturn True err \<longrightarrow> (\<forall>c \<in> set (sv_conns sv'). \<not> registered c))"
proof (cases ph)
  case ShEnter
  obtain err s1 where s1: "closeListeners (se_close V) order (sv\<lparr>sv_done := True\<rparr>) = (err, s1)" by fastforce
  with closeListeners_state [of order "sv\<lparr>sv_done := True\<rparr>" "se_close V"] assms(2)
  have "s1 = sv\<lparr>sv_done := True, sv_listeners := []\<rparr>" by simp
  with s1 ShEnter assms show ?thesis by (simp add: conns_ok_def)
next
  case (ShIdle lnerr)
  obtain f where f: "closeIdleConns sv = sv\<lparr>sv_conns := map f (sv_conns sv)\<rparr>"
    "\<And>c. f c = c \<or> registered c \<and> f c = drop_conn c" using closeIdleConns_drop by blast
  with ShIdle assms(1) fewer_drop [of f sv] conns_ok_drop [OF assms(3), of f] show ?thesis by auto
next
  case (ShCount lnerr)
  with assms show ?thesis by (auto simp: countConnection_zero split: if_splits)
next
  case (ShWait lnerr)
  with assms show ?thesis by (auto split: option.splits)
qed (use assms in auto)

lemma conns_update:
  assumes "conns_ok E V sv" "server_conn_ok E (se_handshake V) c" "i < length (sv_conns sv)"
  shows "conns_ok E V (sv\<lparr>sv_conns := (sv_conns sv)[i := c]\<rparr>)"
  using assms by (auto simp: conns_ok_def dest!: set_update_subset_insert [THEN subsetD])

lemma conn_step_fewer:
  assumes "server_conn_ok E hs (sv_conns sv ! i)" "i < length (sv_conns sv)"
    "conn_step E (sc_run (sv_conns sv ! i)) r" "k_shutdown r = k_shutdown (sc_run (sv_conns sv ! i))"
  shows "fewer sv (sv\<lparr>sv_conns := (sv_conns sv)[i := (sv_conns sv ! i)\<lparr>sc_run := r\<rparr>]\<rparr>)"
  using conn_step_dropped [OF assms(3,4)] assms(1)
  by (auto simp: fewer_def nth_update_if registered_def server_conn_ok_def)

lemma server_invD:
  assumes "server_inv E V s"
  shows "conns_ok E V (sy_server s)" "serves_ok V (sy_serves s)"
    "listeners_ok (sy_server s) (sy_serves s)" "shutdowns_ok (sy_server s) (sy_shutdowns s)"
  using assms by (simp_all add: server_inv_def)

lemma server_inv_serve:
  assumes "server_inv E V s" "i < length (sy_serves s)" "p = sy_serves s ! i"
    "(ph, sv) \<in> set (serve_next V a h (sp_ctx p) (sp_listener p) (sp_phase p) (sy_server s))"
  shows "server_inv E V (s\<lparr>sy_server := sv, sy_serves := (sy_serves s)[i := p\<lparr>sp_phase := ph\<rparr>]\<rparr>)"
proof -
  note inv = server_invD [OF assms(1)]
  have ph: "serve_ok V (sp_phase p)" using assms(2,3) inv(2) by (simp add: serves_ok_def)
  note server = serve_next_server [OF assms(4) ph]
  have "listeners_ok sv ((sy_serves s)[i := p\<lparr>sp_phase := ph\<rparr>])"
    using listeners_ok_serve [OF inv(3) assms(2), of ph sv V a h] assms(3,4) server(1) by simp
  moreover have "serves_ok V ((sy_serves s)[i := p\<lparr>sp_phase := ph\<rparr>])"
    using inv(2) serve_next_ok [OF assms(4) ph]
    by (auto simp: serves_ok_def dest!: set_update_subset_insert [THEN subsetD])
  moreover have "shutdowns_ok sv (sy_shutdowns s)"
    using inv(4) server(1,2) by (auto intro: shutdowns_ok_fewer)
  ultimately show ?thesis using server(3) [OF inv(1)] by (simp add: server_inv_def)
qed

lemma server_inv_shutdown:
  assumes "server_inv E V s" "i < length (sy_shutdowns s)" "set order = set (sv_listeners (sy_server s))"
    "(ph, sv) \<in> set (shutdown_next V order ctxerr (sy_shutdowns s ! i) (sy_server s))"
  shows "server_inv E V (s\<lparr>sy_server := sv, sy_shutdowns := (sy_shutdowns s)[i := ph]\<rparr>)"
proof -
  note inv = server_invD [OF assms(1)]
  from shutdown_next_server [OF assms(4,3) inv(1)] have nxt:
    "sv_done (sy_server s) \<longrightarrow> sv_done sv" "sy_shutdowns s ! i = ShEnter \<longrightarrow> sv_done sv" "ph \<noteq> ShEnter"
    "fewer (sy_server s) sv" "conns_ok E V sv" "set (sv_listeners sv) \<subseteq> set (sv_listeners (sy_server s))"
    "sv_done sv \<and> \<not> sv_done (sy_server s) \<longrightarrow> sv_listeners sv = []"
    "\<forall>err. ph = ShReturn True err \<longrightarrow> (\<forall>c \<in> set (sv_conns sv). \<not> registered c)" by blast+
  have dn: "sv_done sv" using nxt(1,2) inv(4) assms(2) by (auto simp: shutdowns_ok_def)
  have "shutdowns_ok sv ((sy_shutdowns s)[i := ph])"
    using shutdowns_ok_fewer [OF inv(4), of sv] nxt(1,4,8) dn
    by (auto simp: shutdowns_ok_def drained_def dest!: set_update_subset_insert [THEN subsetD])
  moreover have "listeners_ok sv (sy_serves s)" using inv(3) nxt(6,7) dn by (auto simp: listeners_ok_def)
  ultimately show ?thesis using inv(2) nxt(5) by (simp add: server_inv_def)
qed

lemma server_inv_close:
  assumes "server_inv E V s" "set order = set (sv_listeners (sy_server s))"
  shows "server_inv E V (s\<lparr>sy_server := snd (server_Close V order (sy_server s))\<rparr>)"
proof -
  note inv = server_invD [OF assms(1)]
  let ?sv = "(sy_server s)\<lparr>sv_done := True, sv_listeners := []\<rparr>"
  obtain f where f: "snd (server_Close V order (sy_server s)) = ?sv\<lparr>sv_conns := map f (sv_conns (sy_server s))\<rparr>"
    "\<And>c. f c = c \<or> registered c \<and> f c = drop_conn c" "\<And>c. \<not> registered (f c)"
    using server_Close_drop [OF assms(2)] by blast
  have "conns_ok E V (?sv\<lparr>sv_conns := map f (sv_conns (sy_server s))\<rparr>)"
    using conns_ok_drop [of E V ?sv f] inv(1) f(2) by (simp add: conns_ok_def)
  with f inv show ?thesis
    by (auto simp: server_inv_def listeners_ok_def shutdowns_ok_def drained_def)
qed

lemma server_inv_conn:
  assumes "server_inv E V s" "i < length (sv_conns (sy_server s))" "c = sv_conns (sy_server s) ! i"
    "conn_step E (sc_run c) r" "k_shutdown r = k_shutdown (sc_run c)"
  shows "server_inv E V (s\<lparr>sy_server := (sy_server s)\<lparr>sv_conns := (sv_conns (sy_server s))[i := c\<lparr>sc_run := r\<rparr>]\<rparr>\<rparr>)"
proof -
  note inv = server_invD [OF assms(1)]
  let ?sv = "(sy_server s)\<lparr>sv_conns := (sv_conns (sy_server s))[i := c\<lparr>sc_run := r\<rparr>]\<rparr>"
  have ok: "server_conn_ok E (se_handshake V) c" using inv(1) assms(2,3) by (simp add: conns_ok_def)
  have "conns_ok E V ?sv" using conns_update [OF inv(1) server_conn_ok_step [OF ok assms(4,5)] assms(2)] .
  moreover have "fewer (sy_server s) ?sv" using conn_step_fewer [of E _ "sy_server s" i r] ok assms by auto
  then have "shutdowns_ok ?sv (sy_shutdowns s)" by (intro shutdowns_ok_fewer [OF inv(4)]) simp
  ultimately show ?thesis using inv by (simp add: server_inv_def listeners_ok_def)
qed

lemma server_inv_step:
  assumes "server_step E V s t" "server_inv E V s"
  shows "server_inv E V t"
  using assms(1)
proof cases
  case (sv_serve_call l ctx)
  with assms(2) show ?thesis by (auto simp: server_inv_def serves_ok_def serve_ok_def listeners_ok_def)
next
  case sv_shutdown_call
  with assms(2) show ?thesis by (auto simp: server_inv_def shutdowns_ok_def)
next
  case (sv_serve i p ph sv a h)
  then show ?thesis using server_inv_serve [OF assms(2) sv_serve(2-4)] by simp
next
  case (sv_shutdown i order ph sv ctxerr)
  then show ?thesis using server_inv_shutdown [OF assms(2) sv_shutdown(2,4,5)] by simp
next
  case (sv_close order)
  then show ?thesis using server_inv_close [OF assms(2) sv_close(3)] by simp
next
  case (sv_conn i c r)
  then show ?thesis using server_inv_conn [OF assms(2) sv_conn(2-5)] by simp
qed

interpretation server_reach: step_invariant server_start "server_step E V" "server_inv E V"
proof unfold_locales
  show "server_start s \<Longrightarrow> server_inv E V s" for s
    by (simp add: server_start_def server_inv_def new_server_def conns_ok_def serves_ok_def
        listeners_ok_def shutdowns_ok_def)
qed (rule server_inv_step)

section \<open>A closed execution\<close>

text \<open>A client that connects and sends one unary request; no handshaker is configured.\<close>

definition example_serve :: serve_env where
  "example_serve = \<lparr>se_io = (\<lambda>c. (example_conn, \<lparr>rd_rest = encode_message unary_frame, rd_err = IoEOF\<rparr>)),
     se_close = (\<lambda>l. None), se_temporary = (\<lambda>e. False), se_handshake = server_handshaker (empty_config :: (Handshake, unit) serverConfig)\<rparr>"

abbreviation sys_reach :: "server_sys \<Rightarrow> bool" where
  "sys_reach \<equiv> reach server_start (server_step example_env example_serve)"

definition quiet_step :: "conn \<Rightarrow> conn \<Rightarrow> bool" where
  "quiet_step r r' \<longleftrightarrow> conn_step example_env r r' \<and> k_shutdown r' = k_shutdown r"

lemma weaker_quiet: "weaker quiet_step"
  by (simp add: weaker_def quiet_step_def polite_step_def)

definition one_conn :: "conn \<Rightarrow> server_sys" where
  "one_conn r = \<lparr>sy_server = \<lparr>sv_listeners = [0],
       sv_conns = [\<lparr>sc_conn = OtherConn 5, sc_handshake = None, sc_run = r\<rparr>], sv_done = False\<rparr>,
     sy_serves = [\<lparr>sp_listener = 0, sp_ctx = background, sp_phase = SvAccept 0\<rparr>], sy_shutdowns = []\<rparr>"

lemma one_serve_step:
  assumes "reach server_start (server_step E V)
      \<lparr>sy_server = sv, sy_serves = [\<lparr>sp_listener = l, sp_ctx = ctx, sp_phase = ph\<rparr>], sy_shutdowns = []\<rparr>"
    and "(ph', sv') \<in> set (serve_next V a h ctx l ph sv)"
  shows "reach server_start (server_step E V)
      \<lparr>sy_server = sv', sy_serves = [\<lparr>sp_listener = l, sp_ctx = ctx, sp_phase = ph'\<rparr>], sy_shutdowns = []\<rparr>"
  using reach_step [OF assms(1) sv_serve [where i = 0 and ph = ph' and sv = sv' and a = a and h = h]] assms(2)
  by simp

lemma accept_reach:
  assumes "se_handshake V conn = Inr (conn', hs)"
  shows "reach server_start (server_step E V)
    \<lparr>sy_server = \<lparr>sv_listeners = [l], sv_conns = [\<lparr>sc_conn = conn', sc_handshake = hs, sc_run =
         (new_run ctx (newChannel (fst (se_io V conn')) (snd (se_io V conn'))) h False)\<lparr>k_registered := True\<rparr>\<rparr>],
       sv_done = False\<rparr>,
     sy_serves = [\<lparr>sp_listener = l, sp_ctx = ctx, sp_phase = SvAccept 0\<rparr>], sy_shutdowns = []\<rparr>"
proof -
  let ?reach = "\<lambda>sv ph. reach server_start (server_step E V) \<lparr>sy_server = sv,
    sy_serves = [\<lparr>sp_listener = l, sp_ctx = ctx, sp_phase = ph\<rparr>], sy_shutdowns = []\<rparr>"
  let ?sv = "new_server\<lparr>sv_listeners := [l]\<rparr>"
  have "reach server_start (server_step E V) \<lparr>sy_server = new_server, sy_serves = [], sy_shutdowns = []\<rparr>"
    by (rule reach_start) (simp add: server_start_def)
  from reach_step [OF this sv_serve_call [where l = l and ctx = ctx]] have "?reach new_server SvEnter" by simp
  then have "?reach ?sv (SvAccept 0)"
    by (rule one_serve_step) (simp add: new_server_def addListenerLocked_def)
  then have "?reach ?sv (SvAccepted 0 (AcceptConn conn))" by (rule one_serve_step) simp
  then have "?reach ?sv (SvNew conn' hs)" by (rule one_serve_step) (simp add: assms)
  then have "?reach (snd (newConn (se_io V) ctx h conn' hs ?sv)) (SvAccept 0)" by (rule one_serve_step) simp
  then show ?thesis by (simp add: newConn_server new_server_def)
qed

lemma ex_accept: "sys_reach (one_conn (fresh_conn (encode_message unary_frame)))"
proof -
  have "se_handshake example_serve (OtherConn 5) = Inr (OtherConn 5, None)"
    by (simp add: example_serve_def server_handshaker_def empty_config_def noopHandshake_def)
  from accept_reach [OF this, of example_env 0 background example_store] show ?thesis
    by (simp add: example_serve_def one_conn_def fresh_conn_def new_run_def setState_def newChannel_def)
qed

lemma one_conn_runs:
  assumes "reach (\<lambda>r. sys_reach (one_conn r)) quiet_step r"
  shows "sys_reach (one_conn r)"
  using assms
proof (induction rule: reach.induct)
  case (reach_step r r')
  then have "server_step example_env example_serve (one_conn r) (one_conn r')"
    using sv_conn [of 0 "one_conn r" _ example_env r' example_serve] by (simp add: one_conn_def quiet_step_def)
  with reach_step.IH show ?case by (rule reach.reach_step)
qed simp

text \<open>\<open>Shutdown\<close> is called while the call of an idle connection runs.\<close>

lemma one_shutdown_step:
  assumes "sys_reach \<lparr>sy_server = sv, sy_serves = ps, sy_shutdowns = [ph]\<rparr>"
    and "(ph', sv') \<in> set (shutdown_next example_serve (sv_listeners sv) None ph sv)" "distinct (sv_listeners sv)"
  shows "sys_reach \<lparr>sy_server = sv', sy_serves = ps, sy_shutdowns = [ph']\<rparr>"
  using reach_step [OF assms(1) sv_shutdown [where i = 0 and order = "sv_listeners sv" and ph = ph' and sv = sv'
      and ctxerr = None]] assms(2,3) by simp

lemma ex_shutdown:
  assumes "sys_reach (one_conn r)" "k_state r = Some connStateIdle" "k_registered r"
  shows "sys_reach \<lparr>sy_server = \<lparr>sv_listeners = [], sv_conns = [\<lparr>sc_conn = OtherConn 5, sc_handshake = None,
        sc_run = (conn_close r)\<lparr>k_registered := False\<rparr>\<rparr>], sv_done = True\<rparr>,
      sy_serves = sy_serves (one_conn r), sy_shutdowns = [ShReturn True None]\<rparr>"
proof -
  let ?c = "\<lparr>sc_conn = OtherConn 5, sc_handshake = None, sc_run = r\<rparr>"
  let ?d = "\<lparr>sc_conn = OtherConn 5, sc_handshake = None, sc_run = (conn_close r)\<lparr>k_registered := False\<rparr>\<rparr>"
  let ?ps = "sy_serves (one_conn r)"
  have "sys_reach \<lparr>sy_server = sy_server (one_conn r), sy_serves = ?ps, sy_shutdowns = [ShEnter]\<rparr>"
    using reach_step [OF assms(1) sv_shutdown_call] by (simp add: one_conn_def)
  then have "sys_reach \<lparr>sy_server = \<lparr>sv_listeners = [], sv_conns = [?c], sv_done = True\<rparr>, sy_serves = ?ps,
      sy_shutdowns = [ShIdle None]\<rparr>"
    by (rule one_shutdown_step)
      (simp_all add: one_conn_def closeListeners_def closeListenerLocked_def example_serve_def)
  moreover have "closeIdleConns \<lparr>sv_listeners = [], sv_conns = [?c], sv_done = True\<rparr> =
      \<lparr>sv_listeners = [], sv_conns = [?d], sv_done = True\<rparr>"
    using assms(2,3) by (simp add: closeIdleConns_def registered_def getState_def drop_conn_def upd_run_def)
  ultimately have "sys_reach \<lparr>sy_server = \<lparr>sv_listeners = [], sv_conns = [?d], sv_done = True\<rparr>, sy_serves = ?ps,
      sy_shutdowns = [ShCount None]\<rparr>"
    by (elim one_shutdown_step) simp_all
  then show ?thesis
    by (rule one_shutdown_step) (simp_all add: countConnection_def registered_def)
qed

lemma ex_shut_down_call:
  obtains r where "called [] r" "sint (k_active r) = 1" "outstanding r = 1"
    "sys_reach \<lparr>sy_server = \<lparr>sv_listeners = [], sv_conns = [\<lparr>sc_conn = OtherConn 5, sc_handshake = None,
        sc_run = (conn_close r)\<lparr>k_registered := False\<rparr>\<rparr>], sv_done = True\<rparr>,
      sy_serves = sy_serves (one_conn r), sy_shutdowns = [ShReturn True None]\<rparr>"
proof -
  from ex_running_idle [of quiet_step "\<lambda>r. sys_reach (one_conn r)", OF weaker_quiet ex_accept]
  obtain r where r: "reach (\<lambda>r. sys_reach (one_conn r)) quiet_step r" "called [] r" "k_active r = 1"
    "k_state r = Some connStateIdle" "k_registered r" by blast
  from that [OF r(2)] ex_shutdown [OF one_conn_runs [OF r(1)] r(4,5)] r(2,3) show thesis
    by (simp add: called_def outstanding_def ended_def)
qed

section \<open>Properties\<close>

lemma ended_server_step:
  assumes "server_step E V s t" "server_inv E V s" "sv_done (sy_server s)"
  shows "sv_done (sy_server t) \<and> fewer (sy_server s) (sy_server t)"
  using assms(1)
proof cases
  case (sv_serve i p ph sv a h)
  have "serve_ok V (sp_phase p)" using sv_serve(2,3) assms(2) by (simp add: server_inv_def serves_ok_def)
  from serve_next_server [OF sv_serve(4) this] assms(3) show ?thesis by (simp add: sv_serve(1))
next
  case (sv_shutdown i order ph sv ctxerr)
  have "conns_ok E V (sy_server s)" using assms(2) by (simp add: server_inv_def)
  from shutdown_next_server [OF sv_shutdown(5,4) this] assms(3) show ?thesis by (simp add: sv_shutdown(1))
next
  case (sv_close order)
  obtain f where f: "snd (server_Close V order (sy_server s)) =
      ((sy_server s)\<lparr>sv_done := True, sv_listeners := []\<rparr>)\<lparr>sv_conns := map f (sv_conns (sy_server s))\<rparr>"
    "\<And>c. f c = c \<or> registered c \<and> f c = drop_conn c" "\<And>c. \<not> registered (f c)"
    using server_Close_drop [OF sv_close(3)] by blast
  then show ?thesis by (simp add: sv_close(1) fewer_def)
next
  case (sv_conn i c r)
  have "server_conn_ok E (se_handshake V) (sv_conns (sy_server s) ! i)"
    using assms(2) sv_conn(2) by (simp add: server_inv_def conns_ok_def)
  from conn_step_fewer [OF this sv_conn(2), of r] sv_conn assms(3) show ?thesis by simp
qed (use assms(3) in simp_all)

text \<open>
  Claim C13. When \<open>Shutdown\<close> returns because no connection is left, none is left for good: the server
  accepts no new connection from then on, and each connection it ever had has run its deferred calls or was
  told to shut down.
\<close>

theorem shutdown_leaves_no_connection:
  assumes "reach server_start (server_step E V) s" and "ShReturn True err \<in> set (sy_shutdowns s)"
    and "(server_step E V)\<^sup>*\<^sup>* s t"
  shows "sv_done (sy_server t) \<and> countConnection (sy_server t) = 0 \<and>
    length (sv_conns (sy_server t)) = length (sv_conns (sy_server s)) \<and>
    (\<forall>c \<in> set (sv_conns (sy_server t)). dropped (sc_run c))"
  using assms(3)
proof (induction rule: rtranclp_induct)
  case base
  have inv: "server_inv E V s" using server_reach.inv_reach [OF assms(1)] .
  then have "drained (sy_server s)" using assms(2) by (auto simp: server_inv_def shutdowns_ok_def)
  with inv show ?case
    by (auto simp: drained_def countConnection_zero server_inv_def conns_ok_def server_conn_ok_def)
next
  case (step t u)
  have inv: "server_inv E V t" "server_inv E V u"
    using server_reach.inv_reach reach_star assms(1) step.hyps rtranclp.rtrancl_into_rtrancl by metis+
  have "drained (sy_server t)" using step.IH by (simp add: drained_def countConnection_zero)
  with ended_server_step [OF step.hyps(2) inv(1)] fewer_drained have
    "sv_done (sy_server u)" "fewer (sy_server t) (sy_server u)" "drained (sy_server u)"
    by (auto simp: drained_def)
  with step.IH inv(2) show ?case
    by (auto simp: fewer_def drained_def countConnection_zero server_inv_def conns_ok_def server_conn_ok_def)
qed

theorem shutdown_leaves_no_connection_witness:
  "\<exists>s :: server_sys. ShReturn True None \<in> set (sy_shutdowns s) \<and> length (sv_conns (sy_server s)) = 1 \<and>
     countConnection (sy_server s) = 0 \<and> dropped (sc_run (hd (sv_conns (sy_server s))))"
proof -
  obtain r where "sys_reach \<lparr>sy_server = \<lparr>sv_listeners = [], sv_conns = [\<lparr>sc_conn = OtherConn 5,
      sc_handshake = None, sc_run = (conn_close r)\<lparr>k_registered := False\<rparr>\<rparr>], sv_done = True\<rparr>,
    sy_serves = sy_serves (one_conn r), sy_shutdowns = [ShReturn True None]\<rparr>" (is "sys_reach ?s")
    using ex_shut_down_call by metis
  from shutdown_leaves_no_connection [OF this, of None ?s] show ?thesis by (intro exI [of _ ?s]) simp
qed

text \<open>
  Once the server is done, it keeps no listener: when every running \<open>Serve\<close> has gone on to its
  deferred \<open>closeListener\<close> and made it, the map of listeners is empty, also for a \<open>Serve\<close> that came late
  and added its listener to a server that was already done.
\<close>

lemma done_server_keeps_no_listener:
  assumes "reach server_start (server_step E V) s" and "sv_done (sy_server s)"
    and "\<forall>p \<in> set (sy_serves s). \<forall>err. sp_phase p \<noteq> SvReturn err"
  shows "sv_listeners (sy_server s) = []"
proof -
  have "listeners_ok (sy_server s) (sy_serves s)"
    using server_reach.inv_reach [OF assms(1)] by (simp add: server_inv_def)
  with assms(2,3) show ?thesis by (cases "sv_listeners (sy_server s)") (auto simp: listeners_ok_def closing_def)
qed

lemma done_server_keeps_no_listener_witness:
  "\<exists>s :: server_sys. sv_done (sy_server s) \<and> sy_serves s = [\<lparr>sp_listener = 0, sp_ctx = background, sp_phase = SvAccept 0\<rparr>] \<and>
     sv_listeners (sy_server s) = []"
proof -
  obtain r where "sys_reach \<lparr>sy_server = \<lparr>sv_listeners = [], sv_conns = [\<lparr>sc_conn = OtherConn 5,
      sc_handshake = None, sc_run = (conn_close r)\<lparr>k_registered := False\<rparr>\<rparr>], sv_done = True\<rparr>,
    sy_serves = sy_serves (one_conn r), sy_shutdowns = [ShReturn True None]\<rparr>" (is "sys_reach ?s")
    using ex_shut_down_call by metis
  from done_server_keeps_no_listener [OF this] show ?thesis
    by (intro exI [of _ ?s]) (simp add: one_conn_def)
qed

text \<open>
  Claim C36. Every connection of a server keeps the contract of a connection, and came through the
  handshake of the server.
\<close>

theorem server_connections_keep_contract:
  assumes "reach server_start (server_step E V) s" and "c \<in> set (sv_conns (sy_server s))"
  shows "reach protocol_start protocol_step (protocol_view (sc_run c)) \<and>
    (\<exists>conn. se_handshake V conn = Inr (sc_conn c, sc_handshake c))"
proof -
  have "server_conn_ok E (se_handshake V) c"
    using server_reach.inv_reach [OF assms(1)] assms(2) by (simp add: server_inv_def conns_ok_def)
  with protocol.sim_reach show ?thesis by (auto simp: server_conn_ok_def)
qed

theorem server_connections_keep_contract_witness:
  "\<exists>r. called [] r \<and> reach protocol_start protocol_step (protocol_view ((conn_close r)\<lparr>k_registered := False\<rparr>))"
proof -
  obtain r where r: "called [] r" "sys_reach \<lparr>sy_server = \<lparr>sv_listeners = [], sv_conns = [\<lparr>sc_conn = OtherConn 5,
      sc_handshake = None, sc_run = (conn_close r)\<lparr>k_registered := False\<rparr>\<rparr>], sv_done = True\<rparr>,
    sy_serves = sy_serves (one_conn r), sy_shutdowns = [ShReturn True None]\<rparr>"
    using ex_shut_down_call by metis
  from server_connections_keep_contract [OF r(2)] r(1) show ?thesis by (intro exI [of _ r]) simp
qed

text \<open>
  The backoff after \<open>n + 1\<close> temporary errors in a row is \<open>2 ^ n\<close> milliseconds, but never
  more than a second.
\<close>

lemma backoff_after_errors:
  "(next_backoff ^^ Suc n) 0 = min (2 ^ n * time_Millisecond) time_Second"
proof (induction n)
  case 0
  then show ?case by (simp add: next_backoff_def time_Second_def time_Millisecond_def)
next
  case (Suc n)
  have "0 < min (2 ^ n * time_Millisecond) time_Second" by (simp add: time_Second_def time_Millisecond_def)
  with Suc.IH show ?case by (auto simp: next_backoff_def Let_def min_def time_Second_def time_Millisecond_def)
qed


text \<open>
  \<open>Serve\<close> returns only when the server is done, with \<open>ErrServerClosed\<close>, or with an error of
  \<open>Accept\<close> that is not temporary; a refused handshake and a temporary error never end it. On its way out
  it removes its listener.
\<close>

lemma serve_returns:
  assumes "(SvReturn err, sv') \<in> set (serve_next V a h ctx l ph sv)"
  shows "(sv_done sv \<and> err = Some ErrServerClosed \<or>
      \<not> sv_done sv \<and> (\<exists>b e. ph = SvAccepted b (AcceptError e) \<and> \<not> se_temporary V e \<and> err = Some e)) \<and>
    set (serve_next V a' h' ctx l (SvReturn err) sv') =
      {(SvEnd err, sv'\<lparr>sv_listeners := removeAll l (sv_listeners sv')\<rparr>)}"
proof (rule conjI)
  show "sv_done sv \<and> err = Some ErrServerClosed \<or>
      \<not> sv_done sv \<and> (\<exists>b e. ph = SvAccepted b (AcceptError e) \<and> \<not> se_temporary V e \<and> err = Some e)"
  proof (cases ph)
    case (SvAccepted b x)
    with assms show ?thesis by (cases x) (auto split: if_splits sum.splits prod.splits)
  qed (use assms in \<open>auto simp: addListenerLocked_def split: if_splits\<close>)
  show "set (serve_next V a' h' ctx l (SvReturn err) sv') =
      {(SvEnd err, sv'\<lparr>sv_listeners := removeAll l (sv_listeners sv')\<rparr>)}"
    by (simp add: closeListener_def closeListenerLocked_def)
qed

lemma serve_returns_witness:
  "\<exists>err. (SvReturn err, new_server\<lparr>sv_done := True\<rparr>) \<in> set (serve_next example_serve (AcceptError IoEOF)
     example_store background 0 (SvAccepted 0 (AcceptError IoEOF)) (new_server\<lparr>sv_done := True\<rparr>)) \<and>
     err = Some ErrServerClosed"
proof -
  have 1: "(SvReturn (Some ErrServerClosed), new_server\<lparr>sv_done := True\<rparr>) \<in> set (serve_next example_serve
      (AcceptError IoEOF) example_store background 0 (SvAccepted 0 (AcceptError IoEOF)) (new_server\<lparr>sv_done := True\<rparr>))"
    by simp
  from serve_returns [OF 1] 1 show ?thesis by blast
qed

lemma close_all_error:
  "fst (close_all answer ls err s) =
     (if err \<noteq> None then err else (case filter (\<lambda>e. e \<noteq> None) (map answer ls) of [] \<Rightarrow> None | e # es \<Rightarrow> e))"
  by (induction ls arbitrary: err s) (auto simp: closeListenerLocked_def)

text \<open>
  Closing the listeners closes each of them, whatever errors occur, and returns the first
  error in the order of the loop. \<open>Close\<close> does this, tells every registered connection to shut down,
  and forgets it; the other connections are left as they are.
\<close>

lemma close_drops_everything:
  assumes "set order = set (sv_listeners sv)"
  shows "server_Close V order sv =
    ((case filter (\<lambda>e. e \<noteq> None) (map (se_close V) order) of [] \<Rightarrow> None | e # es \<Rightarrow> e),
     \<lparr>sv_listeners = [], sv_conns = map (\<lambda>c. if registered c
        then c\<lparr>sc_run := (sc_run c)\<lparr>k_shutdown := True, k_registered := False\<rparr>\<rparr> else c) (sv_conns sv),
      sv_done = True\<rparr>)"
proof -
  obtain err s1 where s1: "closeListeners (se_close V) order (sv\<lparr>sv_done := True\<rparr>) = (err, s1)" by fastforce
  with closeListeners_state [of order "sv\<lparr>sv_done := True\<rparr>" "se_close V"] assms
  have "s1 = sv\<lparr>sv_done := True, sv_listeners := []\<rparr>" by simp
  moreover have "err = (case filter (\<lambda>e. e \<noteq> None) (map (se_close V) order) of [] \<Rightarrow> None | e # es \<Rightarrow> e)"
    using close_all_error [of "se_close V" order None "sv\<lparr>sv_done := True\<rparr>"] s1 by (simp add: closeListeners_def)
  moreover have "drop_conn c = c\<lparr>sc_run := (sc_run c)\<lparr>k_shutdown := True, k_registered := False\<rparr>\<rparr>" for c
    by (simp add: drop_conn_def upd_run_def conn_close_def)
  ultimately show ?thesis using s1 by (simp add: server_Close_def)
qed

lemma close_drops_everything_witness:
  "\<exists>sv. server_Close example_serve [1, 0] (new_server\<lparr>sv_listeners := [0, 1]\<rparr>) = (None, sv) \<and> sv_listeners sv = []"
proof -
  have "set [1, 0] = set (sv_listeners (new_server\<lparr>sv_listeners := [0, 1]\<rparr>))" by auto
  from close_drops_everything [OF this, of example_serve] show ?thesis by (simp add: example_serve_def)
qed

text \<open>
  \<open>closeIdleConns\<close> leaves every connection alone whose main loop has marked it active, and
  shuts the other registered ones down.
\<close>

lemma idle_connections_closed:
  assumes "i < length (sv_conns sv)" and "registered (sv_conns sv ! i)"
    and "getState (sc_run (sv_conns sv ! i)) = Some st"
  shows "sv_conns (closeIdleConns sv) ! i =
    (if st = connStateActive then sv_conns sv ! i
     else (sv_conns sv ! i)\<lparr>sc_run := (sc_run (sv_conns sv ! i))\<lparr>k_shutdown := True, k_registered := False\<rparr>\<rparr>)"
  using assms by (auto simp: closeIdleConns_def drop_conn_def upd_run_def conn_close_def)

lemma idle_connections_closed_witness:
  "k_shutdown (sc_run (sv_conns (closeIdleConns (sy_server (one_conn (fresh_conn [])))) ! 0))"
proof -
  let ?sv = "sy_server (one_conn (fresh_conn []))"
  have "0 < length (sv_conns ?sv)" "registered (sv_conns ?sv ! 0)"
    "getState (sc_run (sv_conns ?sv ! 0)) = Some connStateIdle"
    by (simp_all add: one_conn_def registered_def fresh_conn_def getState_def)
  from idle_connections_closed [OF this] show ?thesis by simp
qed

text \<open>
  Claim C37. A server whose handshaker requires a user and a group serves only Unix sockets whose peer has
  these credentials.
\<close>

theorem served_peers_have_credentials:
  assumes "reach server_start (server_step E V) s" and "c \<in> set (sv_conns (sy_server s))"
    and "se_handshake V = server_handshaker config"
    and "handshaker config = Some (unix_Handshake (UnixSocketRequireUidGid uid gid))"
  shows "\<exists>n sock u. sc_conn c = UnixConn n sock \<and> us_peercred sock = Inr u \<and>
    (uid = -1 \<or> word_of_int uid = Uid u) \<and> (gid = -1 \<or> word_of_int gid = Gid u)"
proof -
  have "server_conn_ok E (se_handshake V) c"
    using server_reach.inv_reach [OF assms(1)] assms(2) by (simp add: server_inv_def conns_ok_def)
  then obtain conn where "unix_Handshake (UnixSocketRequireUidGid uid gid) conn = Inr (sc_conn c, sc_handshake c)"
    using assms(3,4) by (auto simp: server_conn_ok_def server_handshaker_def)
  then show ?thesis
    by (auto simp: unix_Handshake_Inr UnixSocketRequireUidGid_def requireUidGid_None)
qed

theorem served_peers_have_credentials_witness:
  "\<exists>(s :: server_sys) c. c \<in> set (sv_conns (sy_server s)) \<and>
     (\<exists>n sock u. sc_conn c = UnixConn n sock \<and> us_peercred sock = Inr u \<and> word_of_int 0 = Uid u)"
proof -
  let ?config = "(empty_config :: (Handshake, unit) serverConfig)
    \<lparr>handshaker := Some (unix_Handshake (UnixSocketRequireUidGid 0 0))\<rparr>"
  let ?V = "example_serve\<lparr>se_handshake := server_handshaker ?config\<rparr>"
  let ?root = "\<lparr>Pid = 7, Uid = 0, Gid = 0\<rparr>"
  let ?conn = "UnixConn 5 \<lparr>us_syscallconn = None, us_control = None, us_peercred = Inr ?root\<rparr>"
  have hs: "se_handshake ?V ?conn = Inr (?conn, Some ?root)"
    by (simp add: server_handshaker_def unix_Handshake_Inr UnixSocketRequireUidGid_def requireUidGid_None)
  let ?c = "\<lparr>sc_conn = ?conn, sc_handshake = Some ?root, sc_run = (new_run background
    (newChannel (fst (se_io ?V ?conn)) (snd (se_io ?V ?conn))) example_store False)\<lparr>k_registered := True\<rparr>\<rparr>"
  let ?s = "\<lparr>sy_server = \<lparr>sv_listeners = [0], sv_conns = [?c], sv_done = False\<rparr>,
    sy_serves = [\<lparr>sp_listener = 0, sp_ctx = background, sp_phase = SvAccept 0\<rparr>], sy_shutdowns = []\<rparr>"
  have "?c \<in> set (sv_conns (sy_server ?s))" by simp
  from served_peers_have_credentials [OF accept_reach [OF hs, of example_env] this, of ?config 0 0]
  have "\<exists>n sock u. sc_conn ?c = UnixConn n sock \<and> us_peercred sock = Inr u \<and> word_of_int 0 = Uid u"
    by simp
  with \<open>?c \<in> set (sv_conns (sy_server ?s))\<close> show ?thesis by blast
qed

end
