(* ===== verification/Ttrpc_Example.thy ===== *)
theory Ttrpc_Example
  imports Ttrpc_EndToEnd Ttrpc_Server
begin

text \<open>
  The example program (\<open>example/cmd/main.go\<close>, \<open>example/cmd/handshaker_linux.go\<close>) over the generated code of its
  service (\<open>example/example_ttrpc.pb.go\<close>): a server and a client with interceptors that print the metadata.

  A process has what it has logged and printed, and a panic that ended it; after a panic what the model returns
  has no meaning. \<open>json\<close> is what \<open>json.Encoder\<close> writes for a value, or its error. \<open>Serve\<close> blocks and is
  modelled in \<open>Ttrpc_Server\<close>: here it is an argument of the command, as are the answers of \<open>net.Listen\<close>, \<open>net.Dial\<close>
  and \<open>os.Geteuid\<close>.
\<close>

section \<open>Processes\<close>

datatype panic_value = PanicText string | PanicError error | PanicIndex

record process =
  pr_log :: "string list"
  pr_out :: "string list"
  pr_panic :: "panic_value option"

definition log_Println :: "string \<Rightarrow> process \<Rightarrow> process" where
  "log_Println line w = w\<lparr>pr_log := pr_log w @ [line]\<rparr>"

definition stdout :: "string \<Rightarrow> process \<Rightarrow> process" where
  "stdout line w = w\<lparr>pr_out := pr_out w @ [line]\<rparr>"

definition panic :: "panic_value \<Rightarrow> process \<Rightarrow> process" where
  "panic v w = w\<lparr>pr_panic := Some v\<rparr>"

section \<open>The messages and the service\<close>

datatype example_message = Method1Request string string | Method1Response string string | emptypb_Empty

type_synonym example_any = "example_message any"
type_synonym example_action = "(example_message, process) action"

text \<open>The Go type of a message.\<close>

fun same_kind :: "example_message \<Rightarrow> example_message \<Rightarrow> bool" where
  "same_kind (Method1Request _ _) (Method1Request _ _) = True"
| "same_kind (Method1Response _ _) (Method1Response _ _) = True"
| "same_kind emptypb_Empty emptypb_Empty = True"
| "same_kind _ _ = False"

definition example_codec_ok :: "example_message proto \<Rightarrow> bool" where
  "example_codec_ok P \<longleftrightarrow> proto_ok P \<and> same_user P = same_kind \<and>
     (\<forall>t. Unmarshal P (Some []) t = Unmarshal P None t)"

text \<open>\<open>r.Foo\<close> and \<open>r.Bar\<close>: the type of \<open>r\<close> is that of the first message.\<close>

fun Foo_Bar :: "example_any \<Rightarrow> string \<times> string" where
  "Foo_Bar (AnyMessage (Some (MUser (Method1Request foo bar)))) = (foo, bar)"
| "Foo_Bar _ = ('''', '''')"

definition exampleServer_Method1 :: "gocontext \<Rightarrow> example_any \<Rightarrow> example_action" where
  "exampleServer_Method1 ctx r w =
     (case Foo_Bar r of (foo, bar) \<Rightarrow> ((AnyMessage (Some (MUser (Method1Response foo bar))), None), w))"

definition exampleServer_Method2 :: "gocontext \<Rightarrow> example_any \<Rightarrow> example_action" where
  "exampleServer_Method2 ctx r w = ((AnyMessage (Some (MUser emptypb_Empty)), None), w)"

definition example_service_name :: string where
  "example_service_name = ''ttrpc.example.v1.Example''"

definition example_desc ::
    "(gocontext \<Rightarrow> example_any \<Rightarrow> example_action) \<Rightarrow> (gocontext \<Rightarrow> example_any \<Rightarrow> example_action) \<Rightarrow>
     (example_message, process, 'ss) ServiceDesc" where
  "example_desc svc_Method1 svc_Method2 =
     \<lparr>Methods = [''Method1'' \<mapsto> stub_method (MUser (Method1Request '''' '''')) svc_Method1,
                 ''Method2'' \<mapsto> stub_method (MUser (Method1Request '''' '''')) svc_Method2],
      Streams = Map.empty\<rparr>"

definition RegisterExampleService ::
    "(gocontext \<Rightarrow> example_any \<Rightarrow> example_action) \<Rightarrow> (gocontext \<Rightarrow> example_any \<Rightarrow> example_action) \<Rightarrow>
     (example_message, process, 'ss) Server \<Rightarrow> (example_message, process, 'ss) Server option" where
  "RegisterExampleService svc_Method1 svc_Method2 srv =
     RegisterService example_service_name (example_desc svc_Method1 svc_Method2) srv"

text \<open>
  A method of the generated client, over \<open>call\<close>, its client's \<open>Call\<close>: the response, or the error.
\<close>

type_synonym 's client_call =
  "gocontext \<Rightarrow> string \<Rightarrow> string \<Rightarrow> example_any \<Rightarrow> example_any \<Rightarrow> 's \<Rightarrow>
   ((error option \<times> example_any) \<times> 's) option"

definition exampleClient_call ::
    "'s client_call \<Rightarrow> string \<Rightarrow> example_message \<Rightarrow> gocontext \<Rightarrow> example_any \<Rightarrow> 's \<Rightarrow>
     ((error + example_any) \<times> 's) option" where
  "exampleClient_call call method resp ctx req s =
     (case call ctx example_service_name method req (AnyMessage (Some (MUser resp))) s of
        None \<Rightarrow> None
      | Some ((Some err, r), s') \<Rightarrow> Some (Inl err, s')
      | Some ((None, r), s') \<Rightarrow> Some (Inr r, s'))"

definition exampleClient_Method1 ::
    "'s client_call \<Rightarrow> gocontext \<Rightarrow> example_any \<Rightarrow> 's \<Rightarrow> ((error + example_any) \<times> 's) option" where
  "exampleClient_Method1 call = exampleClient_call call ''Method1'' (Method1Response '''' '''')"

definition exampleClient_Method2 ::
    "'s client_call \<Rightarrow> gocontext \<Rightarrow> example_any \<Rightarrow> 's \<Rightarrow> ((error + example_any) \<times> 's) option" where
  "exampleClient_Method2 call = exampleClient_call call ''Method2'' emptypb_Empty"

section \<open>The interceptors\<close>

definition dumpMetadata :: "(MD \<Rightarrow> error + string) \<Rightarrow> gocontext \<Rightarrow> process \<Rightarrow> process" where
  "dumpMetadata json ctx w =
     (case GetMetadata ctx of
        (md, ok) \<Rightarrow>
          if \<not> ok then panic (PanicText ''no metadata'') w
          else (case json md of
                  Inl err \<Rightarrow> panic (PanicError err) w
                | Inr line \<Rightarrow> stdout line w))"

definition serverIntercept ::
    "(MD \<Rightarrow> error + string) \<Rightarrow> (gocontext, 'u Unmarshaler, ('u, process) action) server_interceptor" where
  "serverIntercept json ctx um i m w =
     (let w = dumpMetadata json ctx (log_Println ''server interceptor'' w)
      in if pr_panic w \<noteq> None then ((AnyNil, None), w) else m ctx um w)"

definition clientIntercept ::
    "(MD \<Rightarrow> error + string) \<Rightarrow> (gocontext, Request, Response, (client \<times> process) call_result) client_interceptor" where
  "clientIntercept json ctx req resp i invoker s =
     (let w = dumpMetadata json ctx (log_Println ''client interceptor'' (snd s))
      in if pr_panic w \<noteq> None then Some ((None, resp), (fst s, w)) else invoker ctx req resp (fst s, w))"

section \<open>The commands\<close>

definition defaultHandshaker :: "int \<Rightarrow> int \<Rightarrow> Handshake" where
  "defaultHandshaker euid egid = unix_Handshake (UnixSocketRequireSameUser euid egid)"

text \<open>
  The server before it listens. \<open>None\<close>: registering the service panics.
\<close>

definition example_server ::
    "(MD \<Rightarrow> error + string) \<Rightarrow> int \<Rightarrow> int \<Rightarrow> (error + (example_message, process, 'ss) Server) option" where
  "example_server json euid egid =
     (case NewServer [WithServerHandshaker (Some (defaultHandshaker euid egid)),
                      WithUnaryServerInterceptor (Some (serverIntercept json))] of
        Inl err \<Rightarrow> Some (Inl err)
      | Inr s \<Rightarrow> map_option Inr (RegisterExampleService exampleServer_Method1 exampleServer_Method2 s))"

text \<open>The deferred calls, in the order they run.\<close>

datatype deferred = ServerClose | ListenerClose | RemoveSocket

definition server_command ::
    "(MD \<Rightarrow> error + string) \<Rightarrow> int \<Rightarrow> int \<Rightarrow> error option \<Rightarrow>
     ((example_message, process, 'ss) Server \<Rightarrow> error option) \<Rightarrow> (error option \<times> deferred list) option" where
  "server_command json euid egid listen serve =
     (case example_server json euid egid of
        None \<Rightarrow> None
      | Some (Inl err) \<Rightarrow> Some (Some err, [])
      | Some (Inr s) \<Rightarrow>
          (case listen of
             Some err \<Rightarrow> Some (Some err, [ServerClose])
           | None \<Rightarrow> Some (serve s, [ListenerClose, RemoveSocket, ServerClose])))"

text \<open>
  The context of the client's call: \<open>md.Set(''name'', ''koye'')\<close> puts the values into a new array.
\<close>

definition client_context :: "store \<Rightarrow> gocontext \<times> store" where
  "client_context h =
     (case str_alloc [''koye''] h of
        (a, h1) \<Rightarrow>
          (WithMetadata background
             (case Set (Some Map.empty) ''name'' (Some \<lparr>s_arr = a, s_off = 0, s_len = 1, s_cap = 1\<rparr>) of
                Some md \<Rightarrow> md | None \<Rightarrow> None),
           h1))"

text \<open>
  \<open>invoke\<close> is the new client's \<open>dispatch\<close>. The process ends when this returns, so that the deferred \<open>conn.Close\<close> has no
  effect on the result. \<open>None\<close>: the call never returns.
\<close>

definition client_command ::
    "grpc \<Rightarrow> example_message proto \<Rightarrow> (MD \<Rightarrow> error + string) \<Rightarrow> (example_any \<Rightarrow> error + string) \<Rightarrow>
     (gocontext, Request, Response, client call_result) invoker \<Rightarrow> store \<Rightarrow> int \<Rightarrow>
     error + wconn \<times> reader \<Rightarrow> string list \<Rightarrow> process \<Rightarrow> (error option \<times> process) option" where
  "client_command G P json json_resp invoke h now dial args w =
     (case dial of
        Inl err \<Rightarrow> Some (Some err, w)
      | Inr (wc, rd) \<Rightarrow>
          if length args \<le> 3 then Some (None, panic PanicIndex w)
          else
            (let tc = NewClient wc rd;
                 intercept = client_interceptor_of [WithUnaryClientInterceptor (clientIntercept json)
                   :: (unit, _) clientConfig \<Rightarrow> _];
                 lifted = (\<lambda>ctx req resp s.
                   (case invoke ctx req resp (fst s) of
                      None \<Rightarrow> None | Some (res, c) \<Rightarrow> Some (res, (c, snd s))));
                 r = Method1Request (args ! 2) (args ! 3)
             in case client_context h of
                  (ctx, h1) \<Rightarrow>
                    (case exampleClient_Method1
                            (\<lambda>ctx service method. Call G P intercept lifted h1 [''name''] now ctx service method)
                            ctx (AnyMessage (Some (MUser r))) (tc, w) of
                       None \<Rightarrow> None
                     | Some (res, (c, w1)) \<Rightarrow>
                         if pr_panic w1 \<noteq> None then Some (None, w1)
                         else
                           (case res of
                              Inl err \<Rightarrow> Some (Some err, w1)
                            | Inr resp \<Rightarrow>
                                (case json_resp resp of
                                   Inl err \<Rightarrow> Some (Some err, w1)
                                 | Inr line \<Rightarrow> Some (None, stdout line w1))))))"

text \<open>
  \<open>handle\<close> and \<open>main\<close>: \<open>server\<close> and \<open>client\<close> are the two commands, and \<open>text\<close> is the text of an error. The exit
  status is that of \<open>log.Fatal\<close> after an error, and 2 after a panic.
\<close>

definition example_handle ::
    "(process \<Rightarrow> (error option \<times> process) option) \<Rightarrow> (process \<Rightarrow> (error option \<times> process) option) \<Rightarrow>
     string list \<Rightarrow> process \<Rightarrow> (error option \<times> process) option" where
  "example_handle server client args w =
     (if length args \<le> 1 then Some (None, panic PanicIndex w)
      else if args ! 1 = ''server'' then server w
      else if args ! 1 = ''client'' then client w
      else Some (Some (ErrorString ''invalid command''), w))"

definition example_main ::
    "(status \<Rightarrow> string) \<Rightarrow> (process \<Rightarrow> (error option \<times> process) option) \<Rightarrow>
     (process \<Rightarrow> (error option \<times> process) option) \<Rightarrow> string list \<Rightarrow> process \<Rightarrow> (nat \<times> process) option" where
  "example_main txt server client args w =
     (case example_handle server client args w of
        None \<Rightarrow> None
      | Some (err, w1) \<Rightarrow>
          if pr_panic w1 \<noteq> None then Some (2, w1)
          else (case err of
                  Some e \<Rightarrow> Some (1, log_Println (error_text txt e) w1)
                | None \<Rightarrow> Some (0, w1)))"

section \<open>What the server is made of\<close>

lemmas example_server_simps = example_server_def NewServer_def new_config_def empty_config_def
  WithServerHandshaker_def WithUnaryServerInterceptor_def RegisterExampleService_def RegisterService_def
  register_def newServiceSet_def server_handshaker_def

lemma example_server_made: "\<exists>s. example_server json euid egid = Some (Inr s)"
  by (simp add: example_server_simps)

lemma example_server_parts:
  assumes "example_server json euid egid = Some (Inr s)"
  shows "unaryInterceptor (sv_services s) = serverIntercept json"
    "services (sv_services s) =
      [example_service_name \<mapsto> example_desc exampleServer_Method1 exampleServer_Method2]"
    "server_handshaker (sv_config s) = defaultHandshaker euid egid"
  using assms by (auto simp: example_server_simps)

lemma serverIntercept_prints:
  assumes "GetMetadata ctx = (md, True)" "json md = Inr line" "pr_panic w = None"
  shows "serverIntercept json ctx um i m w =
    m ctx um (stdout line (log_Println ''server interceptor'' w))"
  using assms by (simp add: serverIntercept_def dumpMetadata_def Let_def stdout_def log_Println_def)

lemma serverIntercept_panics:
  assumes "GetMetadata ctx = (md, False)"
  shows "serverIntercept json ctx um i m w =
    ((AnyNil, None), panic (PanicText ''no metadata'') (log_Println ''server interceptor'' w))"
  using assms by (simp add: serverIntercept_def dumpMetadata_def Let_def panic_def)

text \<open>
  Any client can bring the example server down: a request for one of its methods without
  metadata starts a goroutine that panics in the interceptor, before the method runs, and nothing recovers it.
\<close>

lemma example_server_dies_without_metadata:
  assumes "example_server json euid egid = Some (Inr s)"
    and "Service r = example_service_name" and "Method r \<in> {''Method1'', ''Method2''}"
    and "Metadata r = []" and "ctx_md sctx = None"
  shows "\<exists>g. handle grow now (sv_services s) sctx r h = (HandleUnary g, h) \<and>
    (\<forall>w. snd (run_goroutine G P grow now' (sv_services s) sctx ss h' g w) =
       panic (PanicText ''no metadata'') (log_Println ''server interceptor'' w))"
proof -
  obtain ctx1 h1 where ctx1: "getRequestContext grow now' sctx r h' = (ctx1, h1)" by fastforce
  then have "GetMetadata ctx1 = (None, False)"
    using assms(4,5) by (auto simp: getRequestContext_def GetMetadata_def context_WithTimeout_def Let_def
        split: if_splits option.splits)
  then have "unaryInterceptor (sv_services s) ctx1 um i m w =
      ((AnyNil, None), panic (PanicText ''no metadata'') (log_Println ''server interceptor'' w))" for um i m w
    using example_server_parts(1) [OF assms(1)] by (simp add: serverIntercept_panics)
  with example_server_parts(2) [OF assms(1)] assms(2,3) ctx1 show ?thesis
    by (auto simp: handle_def unaryCall_def example_desc_def split: prod.split)
qed

text \<open>The exit status: an error is logged, a panic is not handled, and a command that is missing panics.\<close>

lemma example_main_exit:
  "length args \<le> 1 \<Longrightarrow> example_main txt server client args w = Some (2, panic PanicIndex w)"
  "length args > 1 \<Longrightarrow> args ! 1 = ''client'' \<Longrightarrow> client w = Some (None, w1) \<Longrightarrow> pr_panic w1 = None \<Longrightarrow>
    example_main txt server client args w = Some (0, w1)"
  "length args > 1 \<Longrightarrow> args ! 1 \<noteq> ''client'' \<Longrightarrow> args ! 1 \<noteq> ''server'' \<Longrightarrow> pr_panic w = None \<Longrightarrow>
    example_main txt server client args w = Some (1, log_Println ''invalid command'' w)"
  by (simp_all add: example_main_def example_handle_def panic_def)

section \<open>What the client sends\<close>

definition koye_request :: "gobytes \<Rightarrow> Request" where
  "koye_request payload = \<lparr>Service = example_service_name, Method = ''Method1'', Payload = payload,
     TimeoutNano = 0, Metadata = [\<lparr>Key = ''name'', Value = ''koye''\<rparr>]\<rparr>"

lemma client_context_parts:
  assumes "client_context h = (ctx, h1)"
  shows "\<exists>f. GetMetadata ctx = (Some f, True) \<and> view h1 f = [''name'' \<mapsto> [''koye'']]"
    "client_request h1 [''name''] now ctx example_service_name ''Method1'' payload = koye_request payload"
proof -
  let ?sv = "Some \<lparr>s_arr = next_array h, s_off = 0, s_len = 1, s_cap = 1\<rparr> :: strings"
  have "strings_ToLower ''name'' = ''name''" by (simp add: strings_ToLower_def lower_char_def)
  then have ctx: "ctx = WithMetadata background (Some [''name'' \<mapsto> ?sv])" "h1 = snd (str_alloc [''koye''] h)"
    using assms by (auto simp: client_context_def str_alloc_def Set_def str_len_def)
  have read: "str_read h1 ?sv = [''koye'']"
    by (simp add: ctx(2) str_alloc_def str_read_def)
  have md: "GetMetadata ctx = (Some [''name'' \<mapsto> ?sv], True)"
    by (simp add: ctx(1) GetMetadata_def WithMetadata_def)
  have "view h1 [''name'' \<mapsto> ?sv] = [''name'' \<mapsto> [''koye'']]"
    using read by (auto simp: view_def fun_eq_iff)
  with md show "\<exists>f. GetMetadata ctx = (Some f, True) \<and> view h1 f = [''name'' \<mapsto> [''koye'']]"
    by blast
  have "ctx_deadline ctx = None"
    by (simp add: ctx(1) WithMetadata_def background_def)
  with md read show "client_request h1 [''name''] now ctx example_service_name ''Method1'' payload = koye_request payload"
    by (simp add: client_request_def setRequest_def koye_request_def)
qed

lemma koye_metadata:
  assumes "grow_ok grow" "getRequestContext grow now sctx (koye_request payload) h = (ctx1, h1)"
  shows "\<exists>f. GetMetadata ctx1 = (Some f, True) \<and> view h1 f = [''name'' \<mapsto> [''koye'']]"
proof -
  obtain f h2 where f: "fromRequest grow Map.empty [\<lparr>Key = ''name'', Value = ''koye''\<rparr>] h = (f, h2)"
    by fastforce
  from fromRequest_values [OF assms(1) f]
  have "view h2 f k = (if k = ''name'' then Some [''koye''] else None)" for k
    by (simp add: values_of_def)
  then have "view h2 f = [''name'' \<mapsto> [''koye'']]" by (simp add: fun_eq_iff)
  with assms(2) f show ?thesis
    by (auto simp: getRequestContext_def koye_request_def WithMetadata_def GetMetadata_def)
qed

lemma clientIntercept_passes:
  assumes "GetMetadata ctx = (md, True)" "json md = Inr line" "pr_panic w = None"
  shows "clientIntercept json ctx req resp i invoker (c, w) =
    invoker ctx req resp (c, stdout line (log_Println ''client interceptor'' w))"
  using assms by (simp add: clientIntercept_def dumpMetadata_def Let_def stdout_def log_Println_def)

lemma process_panic [simp]:
  "pr_panic (stdout line w) = pr_panic w" "pr_panic (log_Println line w) = pr_panic w"
  by (simp_all add: stdout_def log_Println_def)

text \<open>The server's half: what the server prints and what it answers.\<close>

lemma example_server_answers:
  assumes env: "example_codec_ok (e_proto E)" "grow_ok (e_grow E)"
    and server: "example_server (\<lambda>md. Inr (line md)) euid egid = Some (Inr s)" "e_services E = sv_services s"
    and request: "Marshal (e_proto E) (Some (MUser (Method1Request foo bar))) = Inr payload"
      "Marshal (e_proto E) (Some (MRequest (koye_request payload))) = Inr p"
      "Marshal (e_proto E) (Some (MUser (Method1Response foo bar))) = Inr q"
    and world: "pr_panic w = None"
    and reads: "getRequestContext (e_grow E) now sctx (koye_request (norm_bytes payload)) h = (ctx1, h1)"
  shows "\<exists>f. view h1 f = [''name'' \<mapsto> [''koye'']] \<and>
    server_reply E sctx now h ss sid (norm_bytes p) w =
      Some (\<lparr>r_id = sid, r_status = call_status (e_grpc E) None, r_data = q, r_closeStream = True,
        r_streaming = False\<rparr>, stdout (line (Some f)) (log_Println ''server interceptor'' w))"
proof -
  let ?r = "koye_request payload" and ?rsp = "AnyMessage (Some (MUser (Method1Response foo bar)))"
  from koye_metadata [OF env(2) reads] obtain f where
    f: "GetMetadata ctx1 = (Some f, True)" "view h1 f = [''name'' \<mapsto> [''koye'']]" by blast
  have r: "Service ?r = example_service_name" "Method ?r = ''Method1''" "Payload ?r = payload"
    "?r\<lparr>Payload := norm_bytes payload\<rparr> = koye_request (norm_bytes payload)"
    by (simp_all add: koye_request_def)
  have codec: "proto_ok (e_proto E)" "same_user (e_proto E) = same_kind"
    "\<forall>t. Unmarshal (e_proto E) (Some []) t = Unmarshal (e_proto E) None t"
    using env(1) by (auto simp: example_codec_ok_def)
  note parts = example_server_parts [OF server(1), folded server(2)]
  have "server_reply E sctx now h ss sid (norm_bytes p) w =
      Some (\<lparr>r_id = sid, r_status = call_status (e_grpc E) None, r_data = q, r_closeStream = True,
        r_streaming = False\<rparr>, stdout (line (Some f)) (log_Println ''server interceptor'' w))"
  proof (rule server_half_with [where r = ?r and rsp = ?rsp and err = None and req = "MUser (Method1Request foo bar)"
        and meth = "stub_method (MUser (Method1Request '''' '''')) exampleServer_Method1"
        and ?t0.0 = "MUser (Method1Request '''' '''')", OF codec(1,3)])
    show "unaryInterceptor (e_services E) ctx1 um info
        (stub_method (MUser (Method1Request '''' '''')) exampleServer_Method1) w =
      ((?rsp, None), stdout (line (Some f)) (log_Println ''server interceptor'' w))"
      if "um (AnyMessage (Some (MUser (Method1Request '''' '''')))) =
        Inr (AnyMessage (Some (norm_message (MUser (Method1Request foo bar)))))" for um info
      using that f(1) world
      by (simp add: parts(1) serverIntercept_prints stub_method_def exampleServer_Method1_def)
    show "Methods (example_desc exampleServer_Method1 exampleServer_Method2) (Method ?r) =
      Some (stub_method (MUser (Method1Request '''' '''')) exampleServer_Method1)"
      by (simp add: r example_desc_def)
  qed (use parts(2) request reads in \<open>simp_all add: r codec(2) codec_Marshal_def method_outcome_def
      isNil_def protoMarshal_def\<close>)
  with f(2) show ?thesis by blast
qed

text \<open>The client's half: the command, when the wait of its call ends with the message \<open>m\<close>.\<close>

lemma example_client_prints:
  assumes env: "grpc_ok G" "example_codec_ok P"
    and args: "length args > 3" "args ! 2 = foo" "args ! 3 = bar"
    and request: "Marshal P (Some (MUser (Method1Request foo bar))) = Inr payload"
      "Marshal P (Some (MRequest (koye_request payload))) = Inr p"
    and ctx: "client_context h = (ctx, hC)" "pr_panic w = None"
    and sent: "createStream txt 0 p 1 (NewClient wc rd) = (Inr st, c1)" "others ctx c1 = (ctx', c2)"
    and reply: "Marshal P (Some (MUser (Method1Response foo bar))) = Inr q"
      "Marshal P (Some (MResponse \<lparr>RStatus = call_status G None, RPayload = q\<rparr>)) = Inr b"
      "m = (\<lparr>Length = word_of_nat (slice_len b), StreamID = sid, Type = messageTypeResponse, Flags = 0\<rparr>, norm_bytes b)"
      "slice_len b \<le> messageLengthMax"
      "choice < length (dispatch_ready ctx' st c2)" "dispatch_ready ctx' st c2 ! choice = (WaitMsg m, c3)"
  shows "client_command G P (\<lambda>md. Inr (enc (map_option (view hC) md))) (\<lambda>r. Inr (show_resp r))
        (\<lambda>ctx req reply. dispatch txt P others choice ctx req reply) h now (Inr (wc, rd)) args w =
      Some (None, stdout (show_resp (AnyMessage (Some (MUser (Method1Response foo bar)))))
        (stdout (enc (Some [''name'' \<mapsto> [''koye'']])) (log_Println ''client interceptor'' w)))"
proof -
  let ?md = "[''name'' \<mapsto> [''koye'']]"
  have codec: "proto_ok P" "same_user P = same_kind" "\<forall>t. Unmarshal P (Some []) t = Unmarshal P None t"
    using env(2) by (auto simp: example_codec_ok_def)
  have target: "Unmarshal P q (Some (MUser (Method1Response '''' ''''))) = Inr (Some (MUser (Method1Response foo bar)))"
    using codec(1,2) reply(1) by (auto simp: proto_ok_def)
  have ok: "Code G (call_status G None) = OK" using call_status_code [OF env(1), of None] by simp
  obtain f where f: "GetMetadata ctx = (Some f, True)" "view hC f = ?md"
    using client_context_parts(1) [OF ctx(1)] by blast
  let ?w1 = "stdout (enc (Some ?md)) (log_Println ''client interceptor'' w)"
  let ?json = "\<lambda>md. Inr (enc (map_option (view hC) md))"
  let ?invoke = "\<lambda>ctx req reply (s :: client \<times> process).
    case dispatch txt P others choice ctx req reply (fst s) of None \<Rightarrow> None | Some (res, c) \<Rightarrow> Some (res, (c, snd s))"
  have marshal: "codec_Marshal P (AnyMessage (Some (MUser (Method1Request foo bar)))) = Inr payload"
    "koye_request payload = client_request hC [''name''] now ctx example_service_name ''Method1'' payload"
    "codec_Marshal P (AnyMessage (Some (MRequest (koye_request payload)))) = Inr p"
    using request client_context_parts(2) [OF ctx(1)] by (simp_all add: codec_Marshal_def)
  have passes: "clientIntercept ?json ctx (koye_request payload) empty_response info ?invoke (NewClient wc rd, w) =
      (case dispatch txt P others choice ctx (koye_request payload) empty_response (NewClient wc rd) of
         None \<Rightarrow> None | Some (res, c') \<Rightarrow> Some (res, (c', ?w1)))" for info
    using f ctx(2) by (simp add: clientIntercept_passes split: option.split prod.split)
  have "Call G P (clientIntercept ?json) ?invoke hC [''name''] now ctx example_service_name ''Method1''
      (AnyMessage (Some (MUser (Method1Request foo bar)))) (AnyMessage (Some (MUser (Method1Response '''' ''''))))
      (NewClient wc rd, w) =
    Some ((None, AnyMessage (Some (MUser (Method1Response foo bar)))), (deleteStream st (put_buffer (snd m) c3), ?w1))"
    using client_call_with [where others = others and ctx = ctx and after = "\<lambda>c. (c, ?w1)" and
          intercept = "clientIntercept ?json" and invoke = ?invoke and ?st0.0 = "(NewClient wc rd, w)",
        OF env(1) codec(1,3) marshal sent reply(2-6) target passes] ok by simp
  then show ?thesis
    using args ctx by (simp add: client_command_def exampleClient_Method1_def exampleClient_call_def Let_def
        client_interceptor_of_def client_config_def WithUnaryClientInterceptor_def)
qed

text \<open>
  Claim C26. The example end to end: the client command with two words sends them with the metadata it sets,
  the server's interceptor prints this metadata and its method answers with the two words, and when this answer
  reaches the client, the command, which has printed its metadata, prints the answer and returns no error. \<open>enc\<close> is
  the text of metadata, which each side reads in its own memory.
\<close>

theorem example_echo:
  assumes "grpc_ok (e_grpc E)" and "example_codec_ok (e_proto E)" and "grow_ok (e_grow E)"
    and "example_server (\<lambda>md. Inr (enc (map_option (view hS) md))) euid egid = Some (Inr s)"
    and "e_services E = sv_services s"
    and "length args > 3" and "args ! 2 = foo" and "args ! 3 = bar"
    and "Marshal (e_proto E) (Some (MUser (Method1Request foo bar))) = Inr payload"
    and "Marshal (e_proto E) (Some (MRequest (koye_request payload))) = Inr p"
    and "Marshal (e_proto E) (Some (MUser (Method1Response foo bar))) = Inr q"
    and "getRequestContext (e_grow E) nows sctx (koye_request (norm_bytes payload)) hs = (ctx1, hS)"
    and "server_reply E sctx nows hs ss 1 (norm_bytes p) ws = Some (resp, ws')" and "pr_panic ws = None"
    and "reply_message E resp = Some m" and "slice_len (snd m) \<le> messageLengthMax"
    and "client_context h = (ctx, hC)" and "pr_panic w = None"
    and "createStream txt 0 p 1 (NewClient wc rd) = (Inr st, c1)" and "others ctx c1 = (ctx', c2)"
    and "choice < length (dispatch_ready ctx' st c2)" and "dispatch_ready ctx' st c2 ! choice = (WaitMsg m, c3)"
  shows "ws' = stdout (enc (Some [''name'' \<mapsto> [''koye'']])) (log_Println ''server interceptor'' ws) \<and>
    (\<forall>wr. send_reply E resp wr = send_message m wr) \<and>
    client_command (e_grpc E) (e_proto E) (\<lambda>md. Inr (enc (map_option (view hC) md))) (\<lambda>r. Inr (show_resp r))
        (\<lambda>ctx req reply. dispatch txt (e_proto E) others choice ctx req reply) h now (Inr (wc, rd)) args w =
      Some (None, stdout (show_resp (AnyMessage (Some (MUser (Method1Response foo bar)))))
        (stdout (enc (Some [''name'' \<mapsto> [''koye'']])) (log_Println ''client interceptor'' w)))"
proof -
  let ?P = "e_proto E" and ?G = "e_grpc E" and ?md = "[''name'' \<mapsto> [''koye'']]"
  from example_server_answers [OF assms(2,3,4,5,9-11,14,12), of ss 1] assms(13)
  have server: "ws' = stdout (enc (Some ?md)) (log_Println ''server interceptor'' ws)"
    "resp = \<lparr>r_id = 1, r_status = call_status ?G None, r_data = q, r_closeStream = True, r_streaming = False\<rparr>"
    by auto
  obtain b where b: "Marshal ?P (Some (MResponse \<lparr>RStatus = call_status ?G None, RPayload = q\<rparr>)) = Inr b"
    "m = (\<lparr>Length = word_of_nat (slice_len b), StreamID = 1, Type = messageTypeResponse, Flags = 0\<rparr>, norm_bytes b)"
    using reply_message_Some [OF assms(1,15)] server(2) by auto
  have len: "slice_len b \<le> messageLengthMax" using assms(16) b(2) by simp
  have "client_command ?G ?P (\<lambda>md. Inr (enc (map_option (view hC) md))) (\<lambda>r. Inr (show_resp r))
        (\<lambda>ctx req reply. dispatch txt ?P others choice ctx req reply) h now (Inr (wc, rd)) args w =
      Some (None, stdout (show_resp (AnyMessage (Some (MUser (Method1Response foo bar)))))
        (stdout (enc (Some ?md)) (log_Println ''client interceptor'' w)))"
    by (rule example_client_prints [where others = others and ctx = ctx, OF assms(1,2,6-10,17-20,11) b len assms(21,22)])
  moreover have "send_reply E resp wr = send_message m wr" for wr
    by (rule send_reply_message [OF _ assms(15)]) (simp add: server(2))
  ultimately show ?thesis using server(1) by blast
qed

section \<open>Closed examples\<close>

text \<open>A process that has just started, a codec for the messages of one call, and the server's environment.\<close>

definition fresh :: process where
  "fresh = \<lparr>pr_log = [], pr_out = [], pr_panic = None\<rparr>"

definition echo_table :: "(example_message message_value \<times> bytes) list" where
  "echo_table =
     [(MUser (Method1Request ''hello'' ''world''), [1]), (MUser (Method1Response ''hello'' ''world''), [1]),
      (MRequest (koye_request (Some [1])), [2]), (MResponse \<lparr>RStatus = None, RPayload = Some [1]\<rparr>, [3])]"

definition echo_kinds :: "example_message proto" where
  "echo_kinds = \<lparr>Marshal = \<lambda>_. Inr None, Unmarshal = \<lambda>_ _. Inr None, same_user = same_kind\<rparr>"

definition echo_proto :: "example_message proto" where
  "echo_proto = echo_kinds
     \<lparr>Marshal := \<lambda>m. (case m of
        None \<Rightarrow> Inr None
      | Some v \<Rightarrow> (case map_of echo_table v of
                   None \<Rightarrow> Inl (ErrorString ''unknown message'') | Some b \<Rightarrow> Inr (Some b))),
      Unmarshal := \<lambda>p target. (case target of
        None \<Rightarrow> Inr None
      | Some t \<Rightarrow> (case find (\<lambda>(m, b). b = Ttrpc_Prelude.slice p \<and> same_type echo_kinds m t) echo_table of
                   None \<Rightarrow> Inl (ErrorString ''proto: cannot parse'')
                 | Some (m, b) \<Rightarrow> Inr (Some (norm_message m))))\<rparr>"

lemma echo_marshal:
  "Marshal echo_proto (Some (MUser (Method1Request ''hello'' ''world''))) = Inr (Some [1])"
  "Marshal echo_proto (Some (MUser (Method1Response ''hello'' ''world''))) = Inr (Some [1])"
  "Marshal echo_proto (Some (MRequest (koye_request (Some [1])))) = Inr (Some [2])"
  "Marshal echo_proto (Some (MResponse \<lparr>RStatus = None, RPayload = Some [1]\<rparr>)) = Inr (Some [3])"
  by (simp_all add: echo_proto_def echo_table_def)

lemma echo_codec_ok: "example_codec_ok echo_proto"
proof -
  have kinds: "same_user echo_proto = same_kind" "same_user echo_kinds = same_kind"
    by (simp_all add: echo_proto_def echo_kinds_def)
  have "Unmarshal echo_proto b (Some target) = Inr (Some (norm_message m))"
    if m: "Marshal echo_proto (Some m) = Inr b" and type: "same_type echo_proto m target" for m b target
  proof -
    have "same_type echo_kinds m target"
      using type by (cases m; cases target) (simp_all add: kinds)
    with m show ?thesis
      by (cases target; (cases "case target of MUser u \<Rightarrow> u" rule: example_message.exhaust)?)
        (auto simp: echo_proto_def echo_table_def kinds split: if_splits)
  qed
  then show ?thesis
    unfolding example_codec_ok_def proto_ok_def by (auto simp: kinds) (simp add: echo_proto_def)
qed

lemma example_server_dies_without_metadata_witness:
  "\<exists>(s :: (example_message, process, unit) Server) g.
    example_server (\<lambda>md. Inr '''') 0 0 = Some (Inr s) \<and>
    handle (\<lambda>c n. n) 0 (sv_services s) background ((koye_request None)\<lparr>Metadata := []\<rparr>) example_store =
      (HandleUnary g, example_store) \<and>
    snd (run_goroutine example_grpc echo_proto (\<lambda>c n. n) 0 (sv_services s) background () example_store g fresh) =
      \<lparr>pr_log = [''server interceptor''], pr_out = [], pr_panic = Some (PanicText ''no metadata'')\<rparr>"
proof -
  obtain s :: "(example_message, process, unit) Server" where
    s: "example_server (\<lambda>md. Inr '''') 0 0 = Some (Inr s)" using example_server_made by blast
  have r: "Service ((koye_request None)\<lparr>Metadata := []\<rparr>) = example_service_name"
    "Method ((koye_request None)\<lparr>Metadata := []\<rparr>) \<in> {''Method1'', ''Method2''}"
    "Metadata ((koye_request None)\<lparr>Metadata := []\<rparr>) = []" "ctx_md background = None"
    by (simp_all add: koye_request_def background_def)
  from example_server_dies_without_metadata [OF s r, where grow = "\<lambda>c n. n" and now = 0 and h = example_store and
      G = example_grpc and P = echo_proto and ss = "()" and now' = 0 and h' = example_store] s
  show ?thesis by (auto simp: panic_def log_Println_def fresh_def)
qed

theorem example_echo_witness:
  "\<exists>others. client_command example_grpc echo_proto (\<lambda>md. Inr ''md'') (\<lambda>r. Inr ''resp'')
      (\<lambda>ctx req reply. dispatch (\<lambda>s. []) echo_proto others 0 ctx req reply) example_store 0
      (Inr (example_conn, \<lparr>rd_rest = [], rd_err = IoEOF\<rparr>)) [''example'', ''client'', ''hello'', ''world''] fresh =
    Some (None, \<lparr>pr_log = [''client interceptor''], pr_out = [''md'', ''resp''], pr_panic = None\<rparr>)"
proof -
  let ?grow = "\<lambda>c n :: nat. n" and ?enc = "\<lambda>md :: (string \<Rightarrow> string list option) option. ''md''"
  let ?m = "(\<lparr>Length = 1, StreamID = 1, Type = messageTypeResponse, Flags = 0\<rparr>, Some [3]) :: message"
  obtain ctx1 hS where reads: "getRequestContext ?grow 0 background (koye_request (norm_bytes (Some [1]))) example_store =
    (ctx1, hS)" by fastforce
  obtain s :: "(example_message, process, unit) Server" where
    s: "example_server (\<lambda>md. Inr (?enc (map_option (view hS) md))) 0 0 = Some (Inr s)"
    using example_server_made by blast
  define E where "E = \<lparr>e_grpc = example_grpc, e_proto = echo_proto, e_services = sv_services s, e_grow = ?grow\<rparr>"
  have E: "e_grpc E = example_grpc" "e_proto E = echo_proto" "e_services E = sv_services s" "e_grow E = ?grow"
    by (simp_all add: E_def)
  have env: "grpc_ok (e_grpc E)" "example_codec_ok (e_proto E)" "grow_ok (e_grow E)"
    by (simp_all add: E example_grpc_ok echo_codec_ok grow_ok_def)
  have marshal: "Marshal (e_proto E) (Some (MUser (Method1Request ''hello'' ''world''))) = Inr (Some [1])"
    "Marshal (e_proto E) (Some (MRequest (koye_request (Some [1])))) = Inr (Some [2])"
    "Marshal (e_proto E) (Some (MUser (Method1Response ''hello'' ''world''))) = Inr (Some [1])"
    by (simp_all add: E echo_marshal)
  let ?ws' = "stdout ''md'' (log_Println ''server interceptor'' fresh)"
  let ?resp = "\<lparr>r_id = 1, r_status = call_status example_grpc None, r_data = Some [1], r_closeStream = True,
    r_streaming = False\<rparr>"
  have fresh: "pr_panic fresh = None" by (simp add: fresh_def)
  have reply: "server_reply E background 0 example_store () 1 (norm_bytes (Some [2])) fresh = Some (?resp, ?ws')"
    using example_server_answers [OF env(2,3) s E(3) marshal fresh, of 0 background example_store ctx1 hS "()" 1] reads
    by (simp add: E)
  have m: "reply_message E ?resp = Some ?m" "slice_len (snd ?m) \<le> messageLengthMax"
    by (simp_all add: reply_message_def codec_Marshal_def E echo_marshal example_grpc_def call_status_def
        norm_bytes_def messageLengthMax_def)
  obtain ctx hC where ctx: "client_context example_store = (ctx, hC)" by fastforce
  then have "ctx_err ctx = None"
    by (auto simp: client_context_def WithMetadata_def background_def split: prod.splits)
  moreover have "slice_len (Some [2]) \<le> messageLengthMax" by (simp add: messageLengthMax_def)
  ultimately obtain c1 c2 c3 where sent: "createStream (\<lambda>s. []) 0 (Some [2]) 1 healthy_client = (Inr 0, c1)"
    "deliver ?m ctx c1 = (ctx, c2)" "0 < length (dispatch_ready ctx 0 c2)"
    "dispatch_ready ctx 0 c2 ! 0 = (WaitMsg ?m, c3)"
    using healthy_request_sent [of "Some [2]" ctx ?m] by blast
  let ?args = "[''example'', ''client'', ''hello'', ''world'']"
  have args: "length ?args > 3" "?args ! 2 = ''hello''" "?args ! 3 = ''world''"
    by simp_all
  have reads': "getRequestContext (e_grow E) 0 background (koye_request (norm_bytes (Some [1]))) example_store =
    (ctx1, hS)" using reads by (simp add: E)
  note result = example_echo [where enc = ?enc and others = "deliver ?m", OF env s E(3) args marshal reads' reply fresh m ctx fresh
      sent(1) [unfolded healthy_client_def] sent(2-4)]
  show ?thesis
    by (rule exI [of _ "deliver ?m"])
      (use result [where show_resp = "\<lambda>r. ''resp''" and now = 0] in
        \<open>simp add: E fresh_def stdout_def log_Println_def\<close>)
qed

end
