(* ===== verification/Ttrpc_Generator.thy ===== *)
theory Ttrpc_Generator
  imports Ttrpc_Services
begin

text \<open>
  The code generator, \<open>cmd/protoc-gen-go-ttrpc\<close>: what it prints for a service.

  The output file is the list of the calls of \<open>P\<close>, one per printed line, each with its arguments: a
  string, or a Go identifier, which \<open>P\<close> qualifies. \<open>QualifiedGoIdent\<close> and \<open>P\<close> are protogen's: the
  first is the parameter \<open>q\<close> of the model, the second the parameter \<open>pr\<close> of the properties about
  the printed text, with the hypothesis \<open>prints\<close>, its documented behaviour. The import statements
  that protogen adds, its reformatting of the file and the feature bit that \<open>main\<close> sets are not
  modelled.

  The properties read the printed calls back: the methods and streams that the registration function
  hands to the server, and the ones the client calls (\<open>registered_methods\<close>, \<open>registered_streams\<close>,
  \<open>client_calls\<close>, \<open>client_opens\<close>), the names declared at the top level (\<open>declares\<close>) and the
  brackets of the text (\<open>brackets\<close>).
\<close>

section \<open>The input\<close>

record GoIdent =
  GoImportPath :: string
  gi_GoName :: string

record pgMethod =
  m_GoName :: string
  m_Name :: string
  IsStreamingClient :: bool
  IsStreamingServer :: bool
  Input :: GoIdent
  Output :: GoIdent

record pgService =
  sv_GoName :: string
  FullName :: string
  sv_Methods :: "pgMethod list"

record pgFile =
  Generate :: bool
  GeneratedFilenamePrefix :: string
  GoPackageName :: string
  f_Path :: string
  f_Services :: "pgService list"

section \<open>The output\<close>

datatype arg = Text string | Ident GoIdent

type_synonym line = "arg list"

text \<open>
  A generated file: its name and its lines. The plugin keeps them in the order they were made.
\<close>

record GeneratedFile =
  g_name :: string
  g_lines :: "line list"

section \<open>The generator\<close>

record generator =
  i_context :: string
  i_server :: string
  i_client :: string
  i_method :: string
  i_stream :: string
  i_serviceDesc :: string
  i_streamDesc :: string
  i_streamServerIdent :: GoIdent
  i_streamClientIdent :: GoIdent
  i_streamServer :: string
  i_streamClient :: string

definition ttrpc_ident :: "string \<Rightarrow> GoIdent" where
  "ttrpc_ident name = \<lparr>GoImportPath = ''github.com/containerd/ttrpc'', gi_GoName = name\<rparr>"

definition newGenerator :: "(GoIdent \<Rightarrow> string) \<Rightarrow> generator" where
  "newGenerator q =
     \<lparr>i_context = q \<lparr>GoImportPath = ''context'', gi_GoName = ''Context''\<rparr>,
      i_server = q (ttrpc_ident ''Server''),
      i_client = q (ttrpc_ident ''Client''),
      i_method = q (ttrpc_ident ''Method''),
      i_stream = q (ttrpc_ident ''Stream''),
      i_serviceDesc = q (ttrpc_ident ''ServiceDesc''),
      i_streamDesc = q (ttrpc_ident ''StreamDesc''),
      i_streamServerIdent = ttrpc_ident ''StreamServer'',
      i_streamClientIdent = ttrpc_ident ''ClientStream'',
      i_streamServer = q (ttrpc_ident ''StreamServer''),
      i_streamClient = q (ttrpc_ident ''ClientStream'')\<rparr>"

text \<open>
  The interface of the service. The loop over the methods prints one line each and splits them
  into the slices \<open>methods\<close> and \<open>streams\<close>.
\<close>

definition interface_line :: "(GoIdent \<Rightarrow> string) \<Rightarrow> generator \<Rightarrow> pgService \<Rightarrow> pgMethod \<Rightarrow> line" where
  "interface_line q gen service method =
     (let (sendArgs, retArgs) =
        (if IsStreamingClient method \<or> IsStreamingServer method then
           let sendArgs = sv_GoName service @ ''_'' @ m_GoName method @ ''Server'';
               sendArgs =
                 (if \<not> IsStreamingClient method
                  then ''*'' @ q (Input method) @ '', '' @ sendArgs else sendArgs);
               retArgs =
                 (if IsStreamingServer method then ''error''
                  else ''(*'' @ q (Output method) @ '', error)'')
           in (sendArgs, retArgs)
         else (''*'' @ q (Input method), ''(*'' @ q (Output method) @ '', error)''))
      in [Text (m_GoName method), Text ''('', Text (i_context gen), Text '', '',
          Text sendArgs, Text '') '', Text retArgs])"

fun interface_loop ::
    "(GoIdent \<Rightarrow> string) \<Rightarrow> generator \<Rightarrow> pgService \<Rightarrow> pgMethod list \<Rightarrow>
     line list \<times> pgMethod list \<times> pgMethod list \<Rightarrow> line list \<times> pgMethod list \<times> pgMethod list" where
  "interface_loop q gen service [] out = out"
| "interface_loop q gen service (method # rest) (p, methods, streams) =
     (let (methods, streams) =
        (if IsStreamingClient method \<or> IsStreamingServer method
         then (methods, streams @ [method]) else (methods @ [method], streams))
      in interface_loop q gen service rest
        (p @ [interface_line q gen service method], methods, streams))"

text \<open>The interface and the struct of a stream on the server.\<close>

definition structName :: "pgService \<Rightarrow> pgMethod \<Rightarrow> string \<Rightarrow> string" where
  "structName service method side = strings_ToLower (sv_GoName service) @ m_GoName method @ side"

definition stream_server :: "generator \<Rightarrow> pgService \<Rightarrow> pgMethod \<Rightarrow> line list" where
  "stream_server gen service method =
     (let struct_name = structName service method ''Server'' in
      [[Text ''type '', Text (sv_GoName service), Text ''_'', Text (m_GoName method),
        Text ''Server interface {'']] @
      (if IsStreamingServer method
       then [[Text ''Send(*'', Ident (Output method), Text '') error'']] else []) @
      (if IsStreamingClient method
       then [[Text ''Recv() (*'', Ident (Input method), Text '', error)'']] else []) @
      [[Text (i_streamServer gen)],
       [Text ''}''],
       [],
       [Text ''type '', Text struct_name, Text '' struct {''],
       [Text (i_streamServer gen)],
       [Text ''}''],
       []] @
      (if IsStreamingServer method
       then [[Text ''func (x *'', Text struct_name, Text '') Send(m *'', Ident (Output method),
              Text '') error {''],
             [Text ''return x.StreamServer.SendMsg(m)''],
             [Text ''}''],
             []] else []) @
      (if IsStreamingClient method
       then [[Text ''func (x *'', Text struct_name, Text '') Recv() (*'', Ident (Input method),
              Text '', error) {''],
             [Text ''m := new('', Ident (Input method), Text '')''],
             [Text ''if err := x.StreamServer.RecvMsg(m); err != nil {''],
             [Text ''return nil, err''],
             [Text ''}''],
             [Text ''return m, nil''],
             [Text ''}''],
             []] else []))"

text \<open>
  The registration function: the entry of a unary method in the map of methods, and that of a
  stream in the map of streams.
\<close>

definition method_entry :: "generator \<Rightarrow> pgMethod \<Rightarrow> line list" where
  "method_entry gen method =
     [[Text ''\"'', Text (m_GoName method), Text ''\": func(ctx '', Text (i_context gen),
       Text '', unmarshal func(interface{}) error)(interface{}, error){''],
      [Text ''var req '', Ident (Input method)],
      [Text ''if err := unmarshal(&req); err != nil {''],
      [Text ''return nil, err''],
      [Text ''}''],
      [Text ''return svc.'', Text (m_GoName method), Text ''(ctx, &req)''],
      [Text ''},'']]"

definition stream_entry :: "generator \<Rightarrow> pgService \<Rightarrow> pgMethod \<Rightarrow> line list" where
  "stream_entry gen service method =
     (let struct_name = structName service method ''Server'';
          sendArg = (if \<not> IsStreamingClient method then ''m, '' else '''') in
      [[Text ''\"'', Text (m_GoName method), Text ''\": {''],
       [Text ''Handler: func(ctx '', Text (i_context gen), Text '', stream '',
        Text (i_streamServer gen), Text '') (interface{}, error) {'']] @
      (if \<not> IsStreamingClient method
       then [[Text ''m := new('', Ident (Input method), Text '')''],
             [Text ''if err := stream.RecvMsg(m); err != nil {''],
             [Text ''return nil, err''],
             [Text ''}'']] else []) @
      (if IsStreamingServer method
       then [[Text ''return nil, svc.'', Text (m_GoName method), Text ''(ctx, '', Text sendArg,
              Text ''&'', Text struct_name, Text ''{stream})'']]
       else [[Text ''return svc.'', Text (m_GoName method), Text ''(ctx, '', Text sendArg,
              Text ''&'', Text struct_name, Text ''{stream})'']]) @
      [[Text ''},'']] @
      (if IsStreamingClient method
       then [[Text ''StreamingClient: true,'']] else [[Text ''StreamingClient: false,'']]) @
      (if IsStreamingServer method
       then [[Text ''StreamingServer: true,'']] else [[Text ''StreamingServer: false,'']]) @
      [[Text ''},'']])"

definition registration ::
    "generator \<Rightarrow> pgService \<Rightarrow> pgMethod list \<Rightarrow> pgMethod list \<Rightarrow> line list" where
  "registration gen service methods streams =
     (let serviceName = sv_GoName service @ ''Service'' in
      [[Text ''func Register'', Text serviceName, Text ''(srv *'', Text (i_server gen),
        Text '', svc '', Text serviceName, Text ''){''],
       [Text ''srv.RegisterService(\"'', Text (FullName service), Text ''\", &'',
        Text (i_serviceDesc gen), Text ''{'']] @
      (if 0 < length methods
       then [[Text ''Methods: map[string]'', Text (i_method gen), Text ''{'']] @
            concat (map (method_entry gen) methods) @
            [[Text ''},'']] else []) @
      (if 0 < length streams
       then [[Text ''Streams: map[string]'', Text (i_stream gen), Text ''{'']] @
            concat (map (stream_entry gen service) streams) @
            [[Text ''},'']] else []) @
      [[Text ''})''],
       [Text ''}''],
       []])"

text \<open>
  The client's interface, which differs from the service's when there are streams. The loop also
  appends each method to \<open>methods\<close> or \<open>streams\<close> again; nothing reads the slices after it.
\<close>

definition client_interface_line ::
    "(GoIdent \<Rightarrow> string) \<Rightarrow> generator \<Rightarrow> pgService \<Rightarrow> pgMethod \<Rightarrow> line" where
  "client_interface_line q gen service method =
     (if IsStreamingClient method \<or> IsStreamingServer method then
        let sendArg = (if \<not> IsStreamingClient method then ''*'' @ q (Input method) @ '', '' else '''')
        in [Text (m_GoName method), Text ''('', Text (i_context gen), Text '', '', Text sendArg,
            Text '') ('', Text (sv_GoName service), Text ''_'', Text (m_GoName method),
            Text ''Client, error)'']
      else
        [Text (m_GoName method), Text ''('', Text (i_context gen), Text '', '',
         Text ''*'', Ident (Input method), Text '')'',
         Text ''(*'', Ident (Output method), Text '', error)''])"

definition client_interface ::
    "(GoIdent \<Rightarrow> string) \<Rightarrow> generator \<Rightarrow> pgService \<Rightarrow> pgMethod list \<Rightarrow> line list \<times> string" where
  "client_interface q gen service streams =
     (if 0 < length streams then
        let clientInterface = sv_GoName service @ ''Client'' in
        ([[Text ''type '', Text clientInterface, Text '' interface{'']] @
         map (client_interface_line q gen service) (sv_Methods service) @
         [[Text ''}''],
          []], clientInterface)
      else ([], sv_GoName service @ ''Service''))"

definition client_struct :: "generator \<Rightarrow> pgService \<Rightarrow> string \<Rightarrow> line list" where
  "client_struct gen service clientInterface =
     (let clientType = sv_GoName service @ ''Client'';
          clientStructType = strings_ToLower (sv_GoName service) @ ''Client'' in
      [[Text ''type '', Text clientStructType, Text '' struct{''],
       [Text ''client *'', Text (i_client gen)],
       [Text ''}''],
       [Text ''func New'', Text clientType, Text ''(client *'', Text (i_client gen), Text '')'',
        Text clientInterface, Text ''{''],
       [Text ''return &'', Text clientStructType, Text ''{''],
       [Text ''client:client,''],
       [Text ''}''],
       [Text ''}''],
       []])"

text \<open>
  A method of the client: its head, the body of a stream with its interface and its struct, and the
  body of a unary call.
\<close>

definition client_method_head ::
    "(GoIdent \<Rightarrow> string) \<Rightarrow> generator \<Rightarrow> pgService \<Rightarrow> pgMethod \<Rightarrow> line list" where
  "client_method_head q gen service method =
     (let clientStructType = strings_ToLower (sv_GoName service) @ ''Client'';
          sendArg = (if \<not> IsStreamingClient method then '', req *'' @ q (Input method) else '''');
          intName = sv_GoName service @ ''_'' @ m_GoName method @ ''Client'';
          retArg =
            (if IsStreamingClient method \<or> IsStreamingServer method then intName
             else ''*'' @ q (Output method)) in
      [[Text ''func (c *'', Text clientStructType, Text '') '', Text (m_GoName method),
        Text ''(ctx '', Text (i_context gen), Text '''', Text sendArg, Text '') '',
        Text ''('', Text retArg, Text '', error) {'']])"

definition client_stream_open :: "generator \<Rightarrow> pgService \<Rightarrow> pgMethod \<Rightarrow> line list" where
  "client_stream_open gen service method =
     (let (streamingClient, req) =
            (if IsStreamingClient method then (''true'', ''nil'') else (''false'', ''req''));
          streamingServer = (if IsStreamingServer method then ''true'' else ''false'') in
      [[Text ''stream, err := c.client.NewStream(ctx, &'', Text (i_streamDesc gen), Text ''{''],
       [Text ''StreamingClient: '', Text streamingClient, Text '',''],
       [Text ''StreamingServer: '', Text streamingServer, Text '',''],
       [Text ''}, '', Text (''\"'' @ FullName service @ ''\", ''),
        Text (''\"'' @ m_GoName method @ ''\", ''), Text req, Text '')''],
       [Text ''if err != nil {''],
       [Text ''return nil, err''],
       [Text ''}''],
       [Text ''x := &'', Text (structName service method ''Client''), Text ''{stream}''],
       [Text ''return x, nil''],
       [Text ''}''],
       []])"

definition client_stream_types :: "generator \<Rightarrow> pgService \<Rightarrow> pgMethod \<Rightarrow> line list" where
  "client_stream_types gen service method =
     (let intName = sv_GoName service @ ''_'' @ m_GoName method @ ''Client'' in
      [[Text ''type '', Text intName, Text '' interface {'']] @
      (if IsStreamingClient method
       then [[Text ''Send(*'', Ident (Input method), Text '') error'']] else []) @
      (if IsStreamingServer method
       then [[Text ''Recv() (*'', Ident (Output method), Text '', error)'']]
       else [[Text ''CloseAndRecv() (*'', Ident (Output method), Text '', error)'']]) @
      [[Text (i_streamClient gen)],
       [Text ''}''],
       [],
       [Text ''type '', Text (structName service method ''Client''), Text '' struct {''],
       [Text (i_streamClient gen)],
       [Text ''}''],
       []])"

definition client_stream_methods :: "generator \<Rightarrow> pgService \<Rightarrow> pgMethod \<Rightarrow> line list" where
  "client_stream_methods gen service method =
     (let struct_name = structName service method ''Client'' in
      (if IsStreamingClient method
       then [[Text ''func (x *'', Text struct_name, Text '') Send(m *'', Ident (Input method),
              Text '') error {''],
             [Text ''return x.'', Text (gi_GoName (i_streamClientIdent gen)), Text ''.SendMsg(m)''],
             [Text ''}''],
             []] else []) @
      (if IsStreamingServer method
       then [[Text ''func (x *'', Text struct_name, Text '') Recv() (*'', Ident (Output method),
              Text '', error) {''],
             [Text ''m := new('', Ident (Output method), Text '')''],
             [Text ''if err := x.ClientStream.RecvMsg(m); err != nil {''],
             [Text ''return nil, err''],
             [Text ''}''],
             [Text ''return m, nil''],
             [Text ''}''],
             []]
       else [[Text ''func (x *'', Text struct_name, Text '') CloseAndRecv() (*'',
              Ident (Output method), Text '', error) {''],
             [Text ''if err := x.ClientStream.CloseSend(); err != nil {''],
             [Text ''return nil, err''],
             [Text ''}''],
             [Text ''m := new('', Ident (Output method), Text '')''],
             [Text ''if err := x.ClientStream.RecvMsg(m); err != nil {''],
             [Text ''return nil, err''],
             [Text ''}''],
             [Text ''return m, nil''],
             [Text ''}''],
             []]))"

definition client_unary_body :: "pgService \<Rightarrow> pgMethod \<Rightarrow> line list" where
  "client_unary_body service method =
     [[Text ''var resp '', Ident (Output method)],
      [Text ''if err := c.client.Call(ctx, \"'', Text (FullName service), Text ''\", \"'',
       Text (m_Name method), Text ''\", req, &resp); err != nil {''],
      [Text ''return nil, err''],
      [Text ''}''],
      [Text ''return &resp, nil''],
      [Text ''}''],
      []]"

definition client_method ::
    "(GoIdent \<Rightarrow> string) \<Rightarrow> generator \<Rightarrow> pgService \<Rightarrow> pgMethod \<Rightarrow> line list" where
  "client_method q gen service method =
     client_method_head q gen service method @
     (if IsStreamingClient method \<or> IsStreamingServer method
      then client_stream_open gen service method @
           client_stream_types gen service method @
           client_stream_methods gen service method
      else client_unary_body service method)"

definition genService :: "(GoIdent \<Rightarrow> string) \<Rightarrow> generator \<Rightarrow> pgService \<Rightarrow> line list" where
  "genService q gen service =
     (let serviceName = sv_GoName service @ ''Service'';
          (p, methods, streams) =
            interface_loop q gen service (sv_Methods service)
              ([[Text ''type '', Text serviceName, Text '' interface{'']], [], []);
          (client, clientInterface) = client_interface q gen service streams in
      p @ [[Text ''}''], []] @
      concat (map (stream_server gen service) streams) @
      registration gen service methods streams @
      client @
      client_struct gen service clientInterface @
      concat (map (client_method q gen service) (sv_Methods service)))"

text \<open>
  A file: nothing for one without services. \<open>servicePrefix\<close> is put before the name of every
  service; the code writes the new name back into the service.
\<close>

definition with_prefix :: "string \<Rightarrow> pgService \<Rightarrow> pgService" where
  "with_prefix servicePrefix service =
     service\<lparr>sv_GoName := servicePrefix @ sv_GoName service\<rparr>"

definition generate ::
    "(GoIdent \<Rightarrow> string) \<Rightarrow> pgFile \<Rightarrow> string \<Rightarrow> GeneratedFile option" where
  "generate q input servicePrefix =
     (if length (f_Services input) = 0 then None
      else
        let gen = newGenerator q in
        Some \<lparr>g_name = GeneratedFilenamePrefix input @ ''_ttrpc.pb.go'',
              g_lines =
                [[Text ''// Code generated by protoc-gen-go-ttrpc. DO NOT EDIT.''],
                 [Text ''// source: '', Text (f_Path input)],
                 [Text ''package '', Text (GoPackageName input)]] @
                concat (map (\<lambda>service. genService q gen (with_prefix servicePrefix service))
                  (f_Services input))\<rparr>)"

text \<open>
  The plugin: the parameters it is given are pairs of a name and a value, of which the last
  \<open>prefix\<close> counts, and it makes a file for every input marked to be generated. \<open>q\<close> qualifies the
  identifiers of a file, which depends on its package.
\<close>

definition param_func :: "string \<times> string \<Rightarrow> string \<Rightarrow> string" where
  "param_func nv servicePrefix = (if fst nv = ''prefix'' then snd nv else servicePrefix)"

fun plugin_run :: "(pgFile \<Rightarrow> GoIdent \<Rightarrow> string) \<Rightarrow> string \<Rightarrow> pgFile list \<Rightarrow> GeneratedFile list" where
  "plugin_run q servicePrefix [] = []"
| "plugin_run q servicePrefix (f # rest) =
     (if \<not> Generate f then plugin_run q servicePrefix rest
      else (case generate (q f) f servicePrefix of None \<Rightarrow> [] | Some g \<Rightarrow> [g]) @
        plugin_run q servicePrefix rest)"

definition protoc_main ::
    "(pgFile \<Rightarrow> GoIdent \<Rightarrow> string) \<Rightarrow> (string \<times> string) list \<Rightarrow> pgFile list \<Rightarrow> GeneratedFile list" where
  "protoc_main q params files = plugin_run q (fold param_func params '''') files"

section \<open>The lines of a service\<close>

definition is_stream :: "pgMethod \<Rightarrow> bool" where
  "is_stream m \<longleftrightarrow> IsStreamingClient m \<or> IsStreamingServer m"

definition unary_methods :: "pgService \<Rightarrow> pgMethod list" where
  "unary_methods service = filter (\<lambda>m. \<not> is_stream m) (sv_Methods service)"

definition stream_methods :: "pgService \<Rightarrow> pgMethod list" where
  "stream_methods service = filter is_stream (sv_Methods service)"

lemma interface_loop_lines:
  "interface_loop q gen service ms (p, methods, streams) =
     (p @ map (interface_line q gen service) ms,
      methods @ filter (\<lambda>m. \<not> is_stream m) ms, streams @ filter is_stream ms)"
  by (induction ms arbitrary: p methods streams) (auto simp: is_stream_def)

lemma genService_lines:
  "genService q gen service =
     [[Text ''type '', Text (sv_GoName service @ ''Service''), Text '' interface{'']] @
     map (interface_line q gen service) (sv_Methods service) @ [[Text ''}''], []] @
     concat (map (stream_server gen service) (stream_methods service)) @
     registration gen service (unary_methods service) (stream_methods service) @
     fst (client_interface q gen service (stream_methods service)) @
     client_struct gen service (snd (client_interface q gen service (stream_methods service))) @
     concat (map (client_method q gen service) (sv_Methods service))"
  by (simp add: genService_def interface_loop_lines Let_def unary_methods_def stream_methods_def
      case_prod_beta)

section \<open>The printed text\<close>

text \<open>
  \<open>P\<close> prints its arguments without spaces between them and ends the line; a Go identifier is
  printed as \<open>QualifiedGoIdent\<close> gives it.
\<close>

fun arg_text :: "(GoIdent \<Rightarrow> string) \<Rightarrow> arg \<Rightarrow> string" where
  "arg_text q (Text s) = s"
| "arg_text q (Ident i) = q i"

definition prints :: "(GoIdent \<Rightarrow> string) \<Rightarrow> (line \<Rightarrow> string) \<Rightarrow> bool" where
  "prints q pr \<longleftrightarrow> (\<forall>l. pr l = concat (map (arg_text q) l) @ [CHR 0x0A])"

text \<open>
  The brackets of a text, matched with a stack of the closing ones expected: \<open>None\<close> when a bracket
  closes that is not the innermost open one.
\<close>

definition closer :: "char \<Rightarrow> char option" where
  "closer c =
     (if c = CHR ''('' then Some CHR '')''
      else if c = CHR ''['' then Some CHR '']''
      else if c = CHR ''{'' then Some CHR ''}'' else None)"

fun brackets :: "char list \<Rightarrow> string \<Rightarrow> char list option" where
  "brackets st [] = Some st"
| "brackets st (c # cs) =
     (case closer c of
        Some d \<Rightarrow> brackets (d # st) cs
      | None \<Rightarrow>
          if c = CHR '')'' \<or> c = CHR '']'' \<or> c = CHR ''}''
          then (case st of [] \<Rightarrow> None | d # st' \<Rightarrow> if d = c then brackets st' cs else None)
          else brackets st cs)"

definition no_brackets :: "string \<Rightarrow> bool" where
  "no_brackets s \<longleftrightarrow> set s \<inter> set ''()[]{}'' = {}"

lemma brackets_append: "brackets st (xs @ ys) = Option.bind (brackets st xs) (\<lambda>st. brackets st ys)"
  by (induction st xs rule: brackets.induct) (auto split: option.splits list.splits)

lemma brackets_plain: "no_brackets s \<Longrightarrow> brackets st s = Some st"
  by (induction s) (auto simp: no_brackets_def closer_def)

lemma no_brackets_parts:
  "no_brackets (xs @ ys) \<longleftrightarrow> no_brackets xs \<and> no_brackets ys"
  by (auto simp: no_brackets_def)

text \<open>The same on lines, argument by argument.\<close>

fun line_brackets :: "(GoIdent \<Rightarrow> string) \<Rightarrow> char list \<Rightarrow> line \<Rightarrow> char list option" where
  "line_brackets q st [] = Some st"
| "line_brackets q st (a # as) =
     Option.bind (brackets st (arg_text q a)) (\<lambda>st. line_brackets q st as)"

fun file_brackets :: "(GoIdent \<Rightarrow> string) \<Rightarrow> char list \<Rightarrow> line list \<Rightarrow> char list option" where
  "file_brackets q st [] = Some st"
| "file_brackets q st (l # ls) =
     Option.bind (line_brackets q st l) (\<lambda>st. file_brackets q st ls)"

lemma line_brackets_text: "line_brackets q st l = brackets st (concat (map (arg_text q) l))"
  by (induction l arbitrary: st) (simp_all add: brackets_append)

lemma file_brackets_text:
  "prints q pr \<Longrightarrow> file_brackets q st ls = brackets st (concat (map pr ls))"
  by (induction ls arbitrary: st)
    (auto simp: prints_def brackets_append line_brackets_text closer_def bind_assoc
      split: Option.bind_splits)

lemma file_brackets_append [simp]:
  "file_brackets q st (ls @ ks) = Option.bind (file_brackets q st ls) (\<lambda>st. file_brackets q st ks)"
  by (induction ls arbitrary: st) (auto split: Option.bind_splits)

lemma file_brackets_concat:
  assumes "\<And>m st. m \<in> set ms \<Longrightarrow> file_brackets q st (f m) = Some st"
  shows "file_brackets q st (concat (map f ms)) = Some st"
  using assms by (induction ms) auto

text \<open>
  What protogen guarantees of names: they are not empty and hold no space, no line break, no quote
  and no bracket; this goes for qualified identifiers too.
\<close>

definition ident_ok :: "string \<Rightarrow> bool" where
  "ident_ok s \<longleftrightarrow> s \<noteq> [] \<and> set s \<inter> set (CHR 0x0A # '' \"()[]{}'') = {}"

definition names_ok :: "(GoIdent \<Rightarrow> string) \<Rightarrow> pgService \<Rightarrow> bool" where
  "names_ok q service \<longleftrightarrow>
     (\<forall>i. ident_ok (q i)) \<and> ident_ok (sv_GoName service) \<and> ident_ok (FullName service) \<and>
     (\<forall>m \<in> set (sv_Methods service). ident_ok (m_GoName m) \<and> ident_ok (m_Name m))"

lemma ident_no_brackets: "ident_ok s \<Longrightarrow> no_brackets s"
  by (auto simp: ident_ok_def no_brackets_def)

lemma lower_char_other:
  assumes "(of_char (lower_char c) :: nat) \<notin> {97..122}"
  shows "lower_char c = c"
  using assms by (auto simp: lower_char_def split: if_splits)

lemma map_avoids:
  assumes "\<And>c. f c \<in> B \<Longrightarrow> f c = c" and "set s \<inter> B = {}"
  shows "set (map f s) \<inter> B = {}"
proof -
  have "f c \<notin> B" if "c \<in> set s" for c
    using assms(1) [of c] assms(2) that by (metis disjoint_iff)
  then show ?thesis by auto
qed

lemma ident_ToLower [simp]:
  assumes "ident_ok s"
  shows "ident_ok (strings_ToLower s)"
proof -
  have "lower_char c = c" if "lower_char c \<in> set (CHR 0x0A # '' \"()[]{}'')" for c
    using that by (intro lower_char_other) auto
  from map_avoids [OF this] assms show ?thesis
    unfolding ident_ok_def strings_ToLower_def by blast
qed

lemma ident_structName:
  "names_ok q service \<Longrightarrow> m \<in> set (sv_Methods service) \<Longrightarrow> no_brackets side \<Longrightarrow>
   no_brackets (structName service m side)"
  by (auto simp: names_ok_def structName_def no_brackets_parts intro: ident_no_brackets)

lemma names_brackets:
  assumes "names_ok q service"
  shows "brackets st (q i) = Some st" "brackets st (sv_GoName service) = Some st"
    "brackets st (FullName service) = Some st"
    "brackets st (strings_ToLower (sv_GoName service)) = Some st"
  using assms by (simp_all add: names_ok_def brackets_plain ident_no_brackets)

lemma method_brackets:
  assumes "names_ok q service" and "m \<in> set (sv_Methods service)"
  shows "brackets st (m_GoName m) = Some st" "brackets st (m_Name m) = Some st"
  using assms by (simp_all add: names_ok_def brackets_plain ident_no_brackets)

lemma newGenerator_simps [simp]:
  "i_context (newGenerator q) = q \<lparr>GoImportPath = ''context'', gi_GoName = ''Context''\<rparr>"
  "i_server (newGenerator q) = q (ttrpc_ident ''Server'')"
  "i_client (newGenerator q) = q (ttrpc_ident ''Client'')"
  "i_method (newGenerator q) = q (ttrpc_ident ''Method'')"
  "i_stream (newGenerator q) = q (ttrpc_ident ''Stream'')"
  "i_serviceDesc (newGenerator q) = q (ttrpc_ident ''ServiceDesc'')"
  "i_streamDesc (newGenerator q) = q (ttrpc_ident ''StreamDesc'')"
  "gi_GoName (i_streamClientIdent (newGenerator q)) = ''ClientStream''"
  "i_streamServer (newGenerator q) = q (ttrpc_ident ''StreamServer'')"
  "i_streamClient (newGenerator q) = q (ttrpc_ident ''ClientStream'')"
  by (simp_all add: newGenerator_def ttrpc_ident_def)

lemmas bracket_simps = brackets_append closer_def Let_def structName_def

lemma interface_line_brackets:
  assumes "names_ok q service" and "m \<in> set (sv_Methods service)"
  shows "line_brackets q st (interface_line q (newGenerator q) service m) = Some st"
    "line_brackets q st (client_interface_line q (newGenerator q) service m) = Some st"
  by (simp_all add: interface_line_def client_interface_line_def bracket_simps
      names_brackets [OF assms(1)] method_brackets [OF assms])

lemma stream_server_brackets:
  assumes "names_ok q service" and "m \<in> set (sv_Methods service)"
  shows "file_brackets q st (stream_server (newGenerator q) service m) = Some st"
  by (simp add: stream_server_def bracket_simps names_brackets [OF assms(1)] method_brackets [OF assms])

lemma entry_brackets:
  assumes "names_ok q service" and "m \<in> set (sv_Methods service)"
  shows "file_brackets q st (method_entry (newGenerator q) m) = Some st"
    "file_brackets q st (stream_entry (newGenerator q) service m) = Some st"
  by (simp_all add: method_entry_def stream_entry_def bracket_simps names_brackets [OF assms(1)]
      method_brackets [OF assms])

lemma client_method_brackets:
  assumes "names_ok q service" and "m \<in> set (sv_Methods service)"
  shows "file_brackets q st (client_method q (newGenerator q) service m) = Some st"
  by (simp add: client_method_def client_method_head_def client_stream_open_def
      client_stream_types_def client_stream_methods_def client_unary_body_def
      bracket_simps names_brackets [OF assms(1)] method_brackets [OF assms])

lemma file_brackets_map:
  assumes "\<And>m st. m \<in> set ms \<Longrightarrow> line_brackets q st (f m) = Some st"
  shows "file_brackets q st (map f ms) = Some st"
  using assms by (induction ms) auto

lemma registration_brackets:
  assumes "names_ok q service" and "set methods \<subseteq> set (sv_Methods service)"
    and "set streams \<subseteq> set (sv_Methods service)"
  shows "file_brackets q st (registration (newGenerator q) service methods streams) = Some st"
proof -
  have "file_brackets q st (concat (map (method_entry (newGenerator q)) methods)) = Some st"
    "file_brackets q st (concat (map (stream_entry (newGenerator q) service) streams)) = Some st" for st
    using assms by (auto intro!: file_brackets_concat entry_brackets)
  then show ?thesis
    by (simp add: registration_def bracket_simps names_brackets [OF assms(1)])
qed

lemma client_interface_brackets:
  assumes "names_ok q service"
  shows "file_brackets q st (fst (client_interface q (newGenerator q) service streams)) = Some st"
    "brackets st (snd (client_interface q (newGenerator q) service streams)) = Some st"
proof -
  have "file_brackets q st
      (map (client_interface_line q (newGenerator q) service) (sv_Methods service)) = Some st" for st
    using assms by (auto intro!: file_brackets_map interface_line_brackets)
  then show "file_brackets q st (fst (client_interface q (newGenerator q) service streams)) = Some st"
    "brackets st (snd (client_interface q (newGenerator q) service streams)) = Some st"
    by (simp_all add: client_interface_def bracket_simps names_brackets [OF assms])
qed

lemma genService_brackets:
  assumes "names_ok q service"
  shows "file_brackets q st (genService q (newGenerator q) service) = Some st"
proof -
  have sub: "set (unary_methods service) \<subseteq> set (sv_Methods service)"
    "set (stream_methods service) \<subseteq> set (sv_Methods service)"
    by (auto simp: unary_methods_def stream_methods_def)
  have "file_brackets q st (map (interface_line q (newGenerator q) service) (sv_Methods service)) = Some st"
    "file_brackets q st (concat (map (client_method q (newGenerator q) service) (sv_Methods service))) = Some st"
    for st
    using assms by (auto intro!: file_brackets_map file_brackets_concat interface_line_brackets
        client_method_brackets)
  moreover have
    "file_brackets q st (concat (map (stream_server (newGenerator q) service) (stream_methods service))) = Some st"
    for st
    using assms sub(2) by (auto intro!: file_brackets_concat stream_server_brackets)
  moreover have "file_brackets q st (client_struct (newGenerator q) service
      (snd (client_interface q (newGenerator q) service (stream_methods service)))) = Some st" for st
    by (simp add: client_struct_def bracket_simps names_brackets [OF assms]
        client_interface_brackets [OF assms])
  ultimately show ?thesis
    by (simp add: genService_lines bracket_simps names_brackets [OF assms]
        registration_brackets [OF assms sub] client_interface_brackets [OF assms])
qed

lemma with_prefix_simps [simp]:
  "sv_GoName (with_prefix pre service) = pre @ sv_GoName service"
  "FullName (with_prefix pre service) = FullName service"
  "sv_Methods (with_prefix pre service) = sv_Methods service"
  by (simp_all add: with_prefix_def)

text \<open>
  Every bracket of a generated file is closed, in the right order: whatever the services
  and their methods, streaming or not.
\<close>

lemma generated_brackets_match:
  assumes "prints q pr"
    and "generate q input servicePrefix = Some g"
    and "\<And>service. service \<in> set (f_Services input) \<Longrightarrow> names_ok q (with_prefix servicePrefix service)"
    and "no_brackets (f_Path input)" and "no_brackets (GoPackageName input)"
  shows "brackets [] (concat (map pr (g_lines g))) = Some []"
proof -
  have "file_brackets q st (concat (map (\<lambda>service. genService q (newGenerator q)
      (with_prefix servicePrefix service)) (f_Services input))) = Some st" for st
    using assms(3) by (auto intro!: file_brackets_concat genService_brackets)
  then have "file_brackets q [] (g_lines g) = Some []"
    using assms(2,4,5) by (auto simp: generate_def Let_def closer_def brackets_plain split: if_splits)
  with file_brackets_text [OF assms(1)] show ?thesis by metis
qed

definition example_q :: "GoIdent \<Rightarrow> string" where
  "example_q i = ''pkg.'' @ (if ident_ok (gi_GoName i) then gi_GoName i else ''X'')"

definition example_pg_method :: "string \<Rightarrow> string \<Rightarrow> bool \<Rightarrow> bool \<Rightarrow> pgMethod" where
  "example_pg_method go name sc ss =
     \<lparr>m_GoName = go, m_Name = name, IsStreamingClient = sc, IsStreamingServer = ss,
      Input = \<lparr>GoImportPath = ''p'', gi_GoName = ''In''\<rparr>,
      Output = \<lparr>GoImportPath = ''p'', gi_GoName = ''Out''\<rparr>\<rparr>"

definition example_pg_service :: "string \<Rightarrow> string \<Rightarrow> pgService" where
  "example_pg_service go full =
     \<lparr>sv_GoName = go, FullName = full,
      sv_Methods = [example_pg_method ''GetItem'' ''get_item'' False False,
                    example_pg_method ''Put'' ''Put'' False False,
                    example_pg_method ''Chat'' ''Chat'' True True,
                    example_pg_method ''Watch'' ''Watch'' False True]\<rparr>"

definition example_pg_file :: pgFile where
  "example_pg_file =
     \<lparr>Generate = True, GeneratedFilenamePrefix = ''a'', GoPackageName = ''a'', f_Path = ''a.proto'',
      f_Services = [example_pg_service ''Files'' ''a.Files'']\<rparr>"

definition example_pr :: "line \<Rightarrow> string" where
  "example_pr l = concat (map (arg_text example_q) l) @ [CHR 0x0A]"

lemma example_names_ok: "names_ok example_q (example_pg_service ''Files'' ''a.Files'')"
  by (auto simp: names_ok_def example_q_def ident_ok_def example_pg_service_def example_pg_method_def)

lemma generated_brackets_match_witness:
  "\<exists>g. generate example_q example_pg_file [] = Some g \<and> g_name g = ''a_ttrpc.pb.go'' \<and>
    concat (map example_pr (take 4 (g_lines g))) =
      ''// Code generated by protoc-gen-go-ttrpc. DO NOT EDIT.'' @ [CHR 0x0A] @
      ''// source: a.proto'' @ [CHR 0x0A] @ ''package a'' @ [CHR 0x0A] @
      ''type FilesService interface{'' @ [CHR 0x0A] \<and>
    brackets [] (concat (map example_pr (g_lines g))) = Some []"
proof -
  have pr: "prints example_q example_pr" by (simp add: prints_def example_pr_def)
  obtain g where g: "generate example_q example_pg_file [] = Some g"
    by (simp add: generate_def example_pg_file_def Let_def)
  have "brackets [] (concat (map example_pr (g_lines g))) = Some []"
    by (rule generated_brackets_match [OF pr g])
      (use example_names_ok in \<open>simp_all add: example_pg_file_def with_prefix_def no_brackets_def\<close>)
  with g show ?thesis
    by (auto simp: generate_def example_pg_file_def Let_def genService_lines example_pr_def
        example_pg_service_def)
qed

section \<open>Reading the generated code back\<close>

text \<open>
  The strings of a line without identifiers. From the printed lines: the service that is registered,
  its unary methods, its streams with their flags; the unary calls of the client, as the service and
  the method they name, and the streams it opens, with the flags of their description.
\<close>

fun texts :: "line \<Rightarrow> string list option" where
  "texts [] = Some []"
| "texts (Text s # as) = map_option ((#) s) (texts as)"
| "texts (Ident i # as) = None"

definition read_lines :: "(line \<Rightarrow> 'a option) \<Rightarrow> line list \<Rightarrow> 'a list" where
  "read_lines f ls = concat (map (\<lambda>l. case f l of None \<Rightarrow> [] | Some x \<Rightarrow> [x]) ls)"

definition read_service :: "line \<Rightarrow> string option" where
  "read_service l =
     (case texts l of
        Some [a, s, b, c, d] \<Rightarrow> if a = ''srv.RegisterService(\"'' then Some s else None
      | _ \<Rightarrow> None)"

definition read_method :: "line \<Rightarrow> string option" where
  "read_method l =
     (case texts l of
        Some [a, n, b, c, d] \<Rightarrow> if a = ''\"'' \<and> b = ''\": func(ctx '' then Some n else None
      | _ \<Rightarrow> None)"

definition read_call :: "line \<Rightarrow> (string \<times> string) option" where
  "read_call l =
     (case texts l of
        Some [a, s, b, n, c] \<Rightarrow>
          if a = ''if err := c.client.Call(ctx, \"'' then Some (s, n) else None
      | _ \<Rightarrow> None)"

definition registered_services :: "line list \<Rightarrow> string list" where
  "registered_services = read_lines read_service"

definition registered_methods :: "line list \<Rightarrow> string list" where
  "registered_methods = read_lines read_method"

definition client_calls :: "line list \<Rightarrow> (string \<times> string) list" where
  "client_calls = read_lines read_call"

definition read_server ::
    "line \<Rightarrow> string \<times> bool \<times> (string \<times> bool \<times> bool) list \<Rightarrow>
     string \<times> bool \<times> (string \<times> bool \<times> bool) list" where
  "read_server l st =
     (case st of (n, sc, out) \<Rightarrow>
       (case texts l of
          Some [a, n', b] \<Rightarrow> if a = ''\"'' \<and> b = ''\": {'' then (n', sc, out) else st
        | Some [a] \<Rightarrow>
            if a = ''StreamingClient: true,'' then (n, True, out)
            else if a = ''StreamingClient: false,'' then (n, False, out)
            else if a = ''StreamingServer: true,'' then (n, sc, out @ [(n, sc, True)])
            else if a = ''StreamingServer: false,'' then (n, sc, out @ [(n, sc, False)])
            else st
        | _ \<Rightarrow> st))"

definition registered_streams :: "line list \<Rightarrow> (string \<times> bool \<times> bool) list" where
  "registered_streams ls = snd (snd (fold read_server ls ('''', False, [])))"

definition unquote :: "string \<Rightarrow> string" where
  "unquote s = takeWhile (\<lambda>c. c \<noteq> CHR 0x22) (tl s)"

definition read_client ::
    "line \<Rightarrow> bool \<times> bool \<times> (string \<times> string \<times> bool \<times> bool) list \<Rightarrow>
     bool \<times> bool \<times> (string \<times> string \<times> bool \<times> bool) list" where
  "read_client l st =
     (case st of (sc, ss, out) \<Rightarrow>
       (case texts l of
          Some [a, b, c] \<Rightarrow>
            if a = ''StreamingClient: '' then (b = ''true'', ss, out)
            else if a = ''StreamingServer: '' then (sc, b = ''true'', out) else st
        | Some [a, s, n, r, c] \<Rightarrow>
            if a = ''}, '' then (sc, ss, out @ [(unquote s, unquote n, sc, ss)]) else st
        | _ \<Rightarrow> st))"

definition client_opens :: "line list \<Rightarrow> (string \<times> string \<times> bool \<times> bool) list" where
  "client_opens ls = snd (snd (fold read_client ls (False, False, [])))"

lemma read_lines_simps [simp]:
  "read_lines f [] = []"
  "read_lines f (l # ls) = (case f l of None \<Rightarrow> [] | Some x \<Rightarrow> [x]) @ read_lines f ls"
  "read_lines f (ls @ ks) = read_lines f ls @ read_lines f ks"
  by (simp_all add: read_lines_def)

lemma read_lines_concat:
  assumes "\<And>m. m \<in> set ms \<Longrightarrow> read_lines f (g m) = h m"
  shows "read_lines f (concat (map g ms)) = concat (map h ms)"
  using assms by (induction ms) auto

lemmas line_readers = read_service_def read_method_def read_call_def

lemma interface_line_reads:
  "read_lines read_service (map (interface_line q gen service) ms) = []"
  "read_lines read_method (map (interface_line q gen service) ms) = []"
  "read_lines read_call (map (interface_line q gen service) ms) = []"
  "read_lines read_service (map (client_interface_line q gen service) ms) = []"
  "read_lines read_method (map (client_interface_line q gen service) ms) = []"
  "read_lines read_call (map (client_interface_line q gen service) ms) = []"
  by (induction ms) (simp_all add: interface_line_def client_interface_line_def line_readers Let_def)

lemma stream_server_reads:
  "read_lines read_service (stream_server gen service m) = []"
  "read_lines read_method (stream_server gen service m) = []"
  "read_lines read_call (stream_server gen service m) = []"
  by (simp_all add: stream_server_def line_readers Let_def)

lemma entry_reads:
  "read_lines read_service (method_entry gen m) = []"
  "read_lines read_method (method_entry gen m) = [m_GoName m]"
  "read_lines read_call (method_entry gen m) = []"
  "read_lines read_service (stream_entry gen service m) = []"
  "read_lines read_method (stream_entry gen service m) = []"
  "read_lines read_call (stream_entry gen service m) = []"
  by (simp_all add: method_entry_def stream_entry_def line_readers Let_def)

lemma client_method_reads:
  "read_lines read_service (client_method q gen service m) = []"
  "read_lines read_method (client_method q gen service m) = []"
  "read_lines read_call (client_method q gen service m) =
     (if is_stream m then [] else [(FullName service, m_Name m)])"
  by (simp_all add: client_method_def client_method_head_def client_stream_open_def
      client_stream_types_def client_stream_methods_def client_unary_body_def line_readers Let_def
      is_stream_def)

lemma client_type_reads:
  "read_lines read_service (fst (client_interface q gen service streams)) = []"
  "read_lines read_method (fst (client_interface q gen service streams)) = []"
  "read_lines read_call (fst (client_interface q gen service streams)) = []"
  "read_lines read_service (client_struct gen service c) = []"
  "read_lines read_method (client_struct gen service c) = []"
  "read_lines read_call (client_struct gen service c) = []"
  by (simp_all add: client_interface_def client_struct_def interface_line_reads line_readers Let_def)

lemma concat_none [simp]: "concat (map (\<lambda>m. []) ms) = []"
  by (induction ms) simp_all

lemma concat_singles [simp]: "concat (map (\<lambda>m. [f m]) ms) = map f ms"
  by (induction ms) simp_all

lemma registration_reads:
  "read_lines read_service (registration gen service ms ss) = [FullName service]"
  "read_lines read_method (registration gen service ms ss) = map m_GoName ms"
  "read_lines read_call (registration gen service ms ss) = []"
  by (simp_all add: registration_def Let_def read_lines_concat [OF entry_reads(1)]
      read_lines_concat [OF entry_reads(2)] read_lines_concat [OF entry_reads(3)]
      read_lines_concat [OF entry_reads(4)] read_lines_concat [OF entry_reads(5)]
      read_lines_concat [OF entry_reads(6)])
    (simp_all add: line_readers)

lemma genService_reads:
  "registered_services (genService q gen service) = [FullName service]"
  "registered_methods (genService q gen service) = map m_GoName (unary_methods service)"
  "client_calls (genService q gen service) =
     map (\<lambda>m. (FullName service, m_Name m)) (unary_methods service)"
proof -
  have "concat (map (\<lambda>m. if is_stream m then [] else [(FullName service, m_Name m)]) ms) =
      map (\<lambda>m. (FullName service, m_Name m)) (filter (\<lambda>m. \<not> is_stream m) ms)" for ms
    by (induction ms) auto
  then show
    "registered_services (genService q gen service) = [FullName service]"
    "registered_methods (genService q gen service) = map m_GoName (unary_methods service)"
    "client_calls (genService q gen service) =
       map (\<lambda>m. (FullName service, m_Name m)) (unary_methods service)"
    by (simp_all add: registered_services_def registered_methods_def client_calls_def
        genService_lines interface_line_reads client_type_reads registration_reads
        read_lines_concat [OF stream_server_reads(1)] read_lines_concat [OF stream_server_reads(2)]
        read_lines_concat [OF stream_server_reads(3)] read_lines_concat [OF client_method_reads(1)]
        read_lines_concat [OF client_method_reads(2)] read_lines_concat [OF client_method_reads(3)]
        unary_methods_def)
      (simp_all add: line_readers)
qed

text \<open>The lines that say nothing of streams leave the readers of the flags where they are.\<close>

lemma fold_concat_same:
  assumes "\<And>m st. m \<in> set ms \<Longrightarrow> fold f (g m) st = st"
  shows "fold f (concat (map g ms)) st = st"
  using assms by (induction ms arbitrary: st) auto

lemma fold_map_same:
  assumes "\<And>m st. m \<in> set ms \<Longrightarrow> f (g m) st = st"
  shows "fold f (map g ms) st = st"
  using assms by (induction ms arbitrary: st) auto

lemmas flag_readers = read_server_def read_client_def

lemma interface_line_flags:
  "read_server (interface_line q gen service m) st = st"
  "read_client (interface_line q gen service m) ct = ct"
  "read_server (client_interface_line q gen service m) st = st"
  "read_client (client_interface_line q gen service m) ct = ct"
  by (cases st; cases ct; simp add: interface_line_def client_interface_line_def flag_readers Let_def)+

lemma qualified_not_flag:
  assumes "ident_ok i"
  shows "i \<noteq> ''StreamingClient: true,''" "i \<noteq> ''StreamingClient: false,''"
    "i \<noteq> ''StreamingServer: true,''" "i \<noteq> ''StreamingServer: false,''"
  using assms by (auto simp: ident_ok_def)

lemma stream_server_flags:
  assumes "names_ok q service"
  shows "fold read_server (stream_server (newGenerator q) service m) st = st"
    "fold read_client (stream_server (newGenerator q) service m) ct = ct"
proof -
  have "ident_ok (q i)" for i using assms by (simp add: names_ok_def)
  note qualified_not_flag [OF this, simp]
  show "fold read_server (stream_server (newGenerator q) service m) st = st"
    by (cases st) (simp add: stream_server_def flag_readers Let_def)
  show "fold read_client (stream_server (newGenerator q) service m) ct = ct"
    by (cases ct) (simp add: stream_server_def flag_readers Let_def)
qed

lemma entry_flags:
  "fold read_server (method_entry gen m) st = st"
  "fold read_client (method_entry gen m) ct = ct"
  "fold read_client (stream_entry gen service m) ct = ct"
  by (cases st; cases ct; simp add: method_entry_def stream_entry_def flag_readers Let_def)+

lemma stream_entry_flags:
  "fold read_server (stream_entry gen service m) (n, sc, out) =
     (m_GoName m, IsStreamingClient m,
      out @ [(m_GoName m, IsStreamingClient m, IsStreamingServer m)])"
  by (simp add: stream_entry_def read_server_def Let_def)

lemma stream_entries_flags:
  "\<exists>n' sc'. fold read_server (concat (map (stream_entry gen service) ms)) (n, sc, out) =
     (n', sc', out @ map (\<lambda>m. (m_GoName m, IsStreamingClient m, IsStreamingServer m)) ms)"
proof (induction ms arbitrary: n sc out)
  case (Cons m ms)
  from Cons.IH [of "m_GoName m" "IsStreamingClient m"
      "out @ [(m_GoName m, IsStreamingClient m, IsStreamingServer m)]"]
  show ?case by (simp add: stream_entry_flags)
qed simp

lemma registration_flags:
  "\<exists>n' sc'. fold read_server (registration gen service ms ss) (n, sc, out) =
     (n', sc', out @ map (\<lambda>m. (m_GoName m, IsStreamingClient m, IsStreamingServer m)) ss)"
  "fold read_client (registration gen service ms ss) ct = ct"
proof -
  have other: "fold read_server (concat (map (method_entry gen) ms)) st = st"
    "fold read_client (concat (map (method_entry gen) ms)) ct = ct"
    "fold read_client (concat (map (stream_entry gen service) ss)) ct = ct" for st ct
    by (auto intro!: fold_concat_same simp: entry_flags)
  obtain n' sc' where "fold read_server (concat (map (stream_entry gen service) ss)) (n, sc, out) =
     (n', sc', out @ map (\<lambda>m. (m_GoName m, IsStreamingClient m, IsStreamingServer m)) ss)"
    using stream_entries_flags by blast
  then show "\<exists>n' sc'. fold read_server (registration gen service ms ss) (n, sc, out) =
     (n', sc', out @ map (\<lambda>m. (m_GoName m, IsStreamingClient m, IsStreamingServer m)) ss)"
    using other by (simp add: registration_def Let_def) (simp add: read_server_def)
  show "fold read_client (registration gen service ms ss) ct = ct"
    using other by (cases ct) (simp add: registration_def Let_def, simp add: read_client_def)
qed

lemma client_type_flags:
  "fold read_server (fst (client_interface q gen service streams)) st = st"
  "fold read_client (fst (client_interface q gen service streams)) ct = ct"
  "fold read_server (client_struct gen service c) st = st"
  "fold read_client (client_struct gen service c) ct = ct"
proof -
  have "fold read_server (map (client_interface_line q gen service) ms) st = st"
    "fold read_client (map (client_interface_line q gen service) ms) ct = ct" for ms st ct
    by (auto intro!: fold_map_same simp: interface_line_flags)
  then show "fold read_server (fst (client_interface q gen service streams)) st = st"
    "fold read_client (fst (client_interface q gen service streams)) ct = ct"
    "fold read_server (client_struct gen service c) st = st"
    "fold read_client (client_struct gen service c) ct = ct"
    by (cases st; cases ct; simp add: client_interface_def client_struct_def Let_def flag_readers)+
qed

lemma takeWhile_until: "c \<notin> set s \<Longrightarrow> takeWhile (\<lambda>d. d \<noteq> c) (s @ c # r) = s"
  by (induction s) auto

lemma unquote_quoted: "ident_ok s \<Longrightarrow> unquote (''\"'' @ s @ ''\", '') = s"
  by (simp add: unquote_def ident_ok_def takeWhile_until)

lemma client_method_flags:
  assumes "names_ok q service" and "m \<in> set (sv_Methods service)"
  shows "fold read_server (client_method q (newGenerator q) service m) st = st"
    "fold read_client (client_method q (newGenerator q) service m) (sc, ss, out) =
       (if is_stream m
        then (IsStreamingClient m, IsStreamingServer m,
              out @ [(FullName service, m_GoName m, IsStreamingClient m, IsStreamingServer m)])
        else (sc, ss, out))"
proof -
  have ids: "ident_ok (q i)" "ident_ok (FullName service)" "ident_ok (m_GoName m)" for i
    using assms by (simp_all add: names_ok_def)
  note qualified_not_flag [OF ids(1), simp]
  note parts = client_method_def client_method_head_def client_stream_open_def
    client_stream_types_def client_stream_methods_def client_unary_body_def
  show "fold read_server (client_method q (newGenerator q) service m) st = st"
    by (cases st) (simp add: parts read_server_def Let_def)
  have "unquote (CHR 0x22 # FullName service @ ''\", '') = FullName service"
    "unquote (CHR 0x22 # m_GoName m @ ''\", '') = m_GoName m"
    using unquote_quoted [OF ids(2)] unquote_quoted [OF ids(3)] by simp_all
  then show "fold read_client (client_method q (newGenerator q) service m) (sc, ss, out) =
       (if is_stream m
        then (IsStreamingClient m, IsStreamingServer m,
              out @ [(FullName service, m_GoName m, IsStreamingClient m, IsStreamingServer m)])
        else (sc, ss, out))"
    by (simp add: parts read_client_def Let_def is_stream_def)
qed

lemma genService_flags:
  assumes "names_ok q service"
  shows "registered_streams (genService q (newGenerator q) service) =
      map (\<lambda>m. (m_GoName m, IsStreamingClient m, IsStreamingServer m)) (stream_methods service)"
    "client_opens (genService q (newGenerator q) service) =
      map (\<lambda>m. (FullName service, m_GoName m, IsStreamingClient m, IsStreamingServer m))
        (stream_methods service)"
proof -
  let ?gen = "newGenerator q"
  have same: "fold read_server (map (interface_line q ?gen service) ms) st = st"
    "fold read_client (map (interface_line q ?gen service) ms) ct = ct"
    "fold read_server (concat (map (stream_server ?gen service) ms)) st = st"
    "fold read_client (concat (map (stream_server ?gen service) ms)) ct = ct"
    "fold read_server (concat (map (client_method q ?gen service) (sv_Methods service))) st = st"
    for ms st ct
    by (auto intro!: fold_concat_same fold_map_same
        simp: interface_line_flags stream_server_flags [OF assms] client_method_flags [OF assms])
  have opens: "snd (snd (fold read_client (concat (map (client_method q ?gen service) ms)) (sc, ss, out))) =
      out @ map (\<lambda>m. (FullName service, m_GoName m, IsStreamingClient m, IsStreamingServer m))
        (filter is_stream ms)" if "set ms \<subseteq> set (sv_Methods service)" for ms sc ss out
    using that by (induction ms arbitrary: sc ss out) (auto simp: client_method_flags [OF assms])
  obtain n sc where reg: "fold read_server (registration ?gen service (unary_methods service)
      (stream_methods service)) ('''', False, []) = (n, sc,
      map (\<lambda>m. (m_GoName m, IsStreamingClient m, IsStreamingServer m)) (stream_methods service))"
    using registration_flags(1) [of ?gen service _ _ "''''" False "[]"] by fastforce
  show "registered_streams (genService q ?gen service) =
      map (\<lambda>m. (m_GoName m, IsStreamingClient m, IsStreamingServer m)) (stream_methods service)"
    by (simp add: registered_streams_def genService_lines same reg client_type_flags)
      (simp add: read_server_def reg)
  show "client_opens (genService q ?gen service) =
      map (\<lambda>m. (FullName service, m_GoName m, IsStreamingClient m, IsStreamingServer m))
        (stream_methods service)"
    by (simp add: client_opens_def genService_lines same registration_flags client_type_flags)
      (simp add: read_client_def opens stream_methods_def)
qed

section \<open>Generated servers and generated clients\<close>

text \<open>
  What the registration function registers, given the handlers: \<open>h n\<close> runs the service's method
  \<open>n\<close>, \<open>hs n\<close> its stream \<open>n\<close>.
\<close>

definition generated_desc ::
    "(string \<Rightarrow> ('u, 'w) Method) \<Rightarrow> (string \<Rightarrow> ('u, 'w, 'ss) StreamHandler) \<Rightarrow> line list \<Rightarrow>
     ('u, 'w, 'ss) ServiceDesc" where
  "generated_desc h hs ls =
     \<lparr>Methods = map_of (map (\<lambda>n. (n, h n)) (registered_methods ls)),
      Streams = map_of (map (\<lambda>(n, sc, ss).
        (n, \<lparr>Handler = hs n, StreamingClient = sc, StreamingServer = ss\<rparr>)) (registered_streams ls))\<rparr>"

lemma map_of_same: "map_of (map (\<lambda>x. (f x, g (f x))) xs) n = (if n \<in> f ` set xs then Some (g n) else None)"
  by (induction xs) auto

lemma generated_desc_lookup:
  assumes "names_ok q service"
  shows "Methods (generated_desc h hs (genService q (newGenerator q) service)) n =
      (if n \<in> m_GoName ` set (unary_methods service) then Some (h n) else None)"
    "n \<notin> m_GoName ` set (stream_methods service) \<Longrightarrow>
      Streams (generated_desc h hs (genService q (newGenerator q) service)) n = None"
    "distinct (map m_GoName (stream_methods service)) \<Longrightarrow> m \<in> set (stream_methods service) \<Longrightarrow>
      Streams (generated_desc h hs (genService q (newGenerator q) service)) (m_GoName m) =
        Some \<lparr>Handler = hs (m_GoName m), StreamingClient = IsStreamingClient m,
          StreamingServer = IsStreamingServer m\<rparr>"
  by (force simp: generated_desc_def genService_reads genService_flags [OF assms] comp_def
      map_of_same [where f = m_GoName] map_of_eq_None_iff intro!: map_of_is_SomeI)+

lemma register_lookup: "register name desc s = Some s' \<Longrightarrow> services s' name = Some desc"
  by (auto simp: register_def split: if_splits)

lemma set_unary_stream:
  "m \<in> set (unary_methods service) \<longleftrightarrow> m \<in> set (sv_Methods service) \<and> \<not> is_stream m"
  "m \<in> set (stream_methods service) \<longleftrightarrow> m \<in> set (sv_Methods service) \<and> is_stream m"
  by (auto simp: unary_methods_def stream_methods_def)

lemma distinct_go_names:
  assumes "distinct (map m_GoName (sv_Methods service))"
  shows "distinct (map m_GoName (stream_methods service))"
    "m \<in> set (stream_methods service) \<Longrightarrow> m_GoName m \<notin> m_GoName ` set (unary_methods service)"
proof -
  show "distinct (map m_GoName (stream_methods service))"
    using assms by (simp add: stream_methods_def distinct_map_filter)
  show "m_GoName m \<notin> m_GoName ` set (unary_methods service)" if "m \<in> set (stream_methods service)"
    using that inj_onD [OF distinct_map [THEN iffD1, OF assms, THEN conjunct2]]
    by (force simp: set_unary_stream)
qed

text \<open>
  Claim C27. Every stream that a generated client opens, on a server where the generated code
  registered the service, runs the handler of that name, and both sides agree on which of them
  streams.
\<close>

theorem generated_streams_reach_handlers:
  assumes "names_ok q service" and "distinct (map m_GoName (sv_Methods service))"
    and "lines = genService q (newGenerator q) service"
    and "registered_services lines = [name]"
    and "register name (generated_desc h hs lines) s = Some s'"
    and "(sv, n, sc, ss) \<in> set (client_opens lines)"
    and "Service req = sv" and "Method req = n"
  shows "\<exists>sh ctx' info first. fst (handle grow now s' ctx req heap) =
      HandleStream sh (StreamGo \<lparr>Handler = hs n, StreamingClient = sc, StreamingServer = ss\<rparr> ctx' info) first \<and>
    ss_FullMethod info = fullPath sv n \<and> ss_StreamingClient info = sc \<and> ss_StreamingServer info = ss"
proof -
  from assms(6) obtain m where m: "m \<in> set (stream_methods service)" "sv = FullName service"
      "n = m_GoName m" "sc = IsStreamingClient m" "ss = IsStreamingServer m"
    unfolding assms(3) genService_flags [OF assms(1)] by auto
  have "services s' (Service req) = Some (generated_desc h hs lines)"
    using register_lookup [OF assms(5)] assms(3,4,7) m by (simp add: genService_reads)
  moreover have "Methods (generated_desc h hs lines) n = None"
    using distinct_go_names(2) [OF assms(2) m(1)] m(3)
    by (simp add: assms(3) generated_desc_lookup(1) [OF assms(1)])
  moreover have "Streams (generated_desc h hs lines) n =
      Some \<lparr>Handler = hs n, StreamingClient = sc, StreamingServer = ss\<rparr>"
    using m by (simp add: assms(3) generated_desc_lookup(3) [OF assms(1) distinct_go_names(1) [OF assms(2)]])
  ultimately show ?thesis
    using assms(7,8) by (auto simp: handle_def Let_def split: prod.splits)
qed

theorem generated_streams_reach_handlers_witness:
  "\<exists>(s' :: (bytes, unit, unit) serviceSet) sh ctx' info first.
    register ''a.Files'' (generated_desc (\<lambda>n ctx um w. ((AnyNil, None), w)) (\<lambda>n ctx ss w. ((AnyNil, None), w))
      (genService example_q (newGenerator example_q) (example_pg_service ''Files'' ''a.Files'')))
      (newServiceSet defaultServerInterceptor) = Some s' \<and>
    fst (handle (\<lambda>c n. n) 0 s' background \<lparr>Service = ''a.Files'', Method = ''Watch'', Payload = Some [1],
      TimeoutNano = 0, Metadata = []\<rparr> example_store) =
      HandleStream sh (StreamGo \<lparr>Handler = \<lambda>ctx ss w. ((AnyNil, None), w), StreamingClient = False,
        StreamingServer = True\<rparr> ctx' info) first \<and>
    ss_FullMethod info = fullPath ''a.Files'' ''Watch'' \<and> \<not> ss_StreamingClient info \<and> ss_StreamingServer info"
proof -
  let ?s = "example_pg_service ''Files'' ''a.Files''"
  let ?lines = "genService example_q (newGenerator example_q) ?s"
  let ?h = "\<lambda>n ctx um w. ((AnyNil, None), w)" and ?hs = "\<lambda>n ctx ss w. ((AnyNil, None), w)"
  let ?set = "newServiceSet defaultServerInterceptor :: (bytes, unit, unit) serviceSet"
  let ?req = "\<lparr>Service = ''a.Files'', Method = ''Watch'', Payload = Some [1], TimeoutNano = 0, Metadata = []\<rparr>"
  obtain s' where s': "register ''a.Files'' (generated_desc ?h ?hs ?lines) ?set = Some s'"
    by (simp add: register_def newServiceSet_def)
  have "distinct (map m_GoName (sv_Methods ?s))"
    by (simp add: example_pg_service_def example_pg_method_def)
  moreover have "registered_services ?lines = [''a.Files'']"
    by (simp add: genService_reads) (simp add: example_pg_service_def)
  moreover have "(''a.Files'', ''Watch'', False, True) \<in> set (client_opens ?lines)"
    unfolding genService_flags [OF example_names_ok]
    by (simp add: stream_methods_def is_stream_def example_pg_service_def example_pg_method_def)
  ultimately have "\<exists>sh ctx' info first.
      fst (handle (\<lambda>c n. n) 0 s' background ?req example_store) =
        HandleStream sh (StreamGo \<lparr>Handler = ?hs ''Watch'', StreamingClient = False,
          StreamingServer = True\<rparr> ctx' info) first \<and>
      ss_FullMethod info = fullPath ''a.Files'' ''Watch'' \<and> ss_StreamingClient info = False \<and>
      ss_StreamingServer info = True"
    by (intro generated_streams_reach_handlers [OF example_names_ok _ refl _ s']) simp_all
  with s' show ?thesis by auto
qed

text \<open>
  Claim C35. A unary call of a generated client names the method as the proto file does, and the
  generated server registers it under its Go name: the call reaches the method if some unary method
  has that Go name, and is refused as unimplemented otherwise, so \<open>rpc get_item\<close> cannot be called.
\<close>

theorem generated_unary_calls_by_proto_name:
  assumes "names_ok q service" and "lines = genService q (newGenerator q) service"
    and "registered_services lines = [name]"
    and "register name (generated_desc h hs lines) s = Some s'"
    and "m \<in> set (unary_methods service)" and "m_Name m \<notin> m_GoName ` set (stream_methods service)"
    and "Service req = name" and "Method req = m_Name m"
  shows "(name, m_Name m) \<in> set (client_calls lines) \<and>
    fst (handle grow now s' ctx req heap) =
      (if m_Name m \<in> m_GoName ` set (unary_methods service)
       then HandleUnary (UnaryGo (h (m_Name m)) \<lparr>us_FullMethod = fullPath name (m_Name m)\<rparr> req)
       else HandleError (StatusError (Status Unimplemented (''method '' @ m_Name m))))"
proof -
  have "name = FullName service" using assms(2,3) by (simp add: genService_reads)
  moreover have "services s' name = Some (generated_desc h hs lines)"
    by (rule register_lookup [OF assms(4)])
  ultimately show ?thesis
    using assms(5-8)
    by (auto simp: assms(2) genService_reads handle_def generated_desc_lookup(1,2) [OF assms(1)])
qed

theorem generated_unary_calls_by_proto_name_witness:
  "\<exists>s' :: (bytes, unit, unit) serviceSet.
    register ''a.Files'' (generated_desc (\<lambda>n ctx um w. ((AnyNil, None), w)) (\<lambda>n ctx ss w. ((AnyNil, None), w))
      (genService example_q (newGenerator example_q) (example_pg_service ''Files'' ''a.Files'')))
      (newServiceSet defaultServerInterceptor) = Some s' \<and>
    fst (handle (\<lambda>c n. n) 0 s' background \<lparr>Service = ''a.Files'', Method = ''get_item'', Payload = Some [1],
      TimeoutNano = 0, Metadata = []\<rparr> example_store) =
      HandleError (StatusError (Status Unimplemented ''method get_item''))"
proof -
  let ?s = "example_pg_service ''Files'' ''a.Files''"
  let ?lines = "genService example_q (newGenerator example_q) ?s"
  let ?h = "\<lambda>n ctx um w. ((AnyNil, None), w)" and ?hs = "\<lambda>n ctx ss w. ((AnyNil, None), w)"
  let ?set = "newServiceSet defaultServerInterceptor :: (bytes, unit, unit) serviceSet"
  let ?m = "example_pg_method ''GetItem'' ''get_item'' False False"
  let ?req = "\<lparr>Service = ''a.Files'', Method = ''get_item'', Payload = Some [1], TimeoutNano = 0, Metadata = []\<rparr>"
  note parts = stream_methods_def unary_methods_def is_stream_def example_pg_service_def example_pg_method_def
  obtain s' where s': "register ''a.Files'' (generated_desc ?h ?hs ?lines) ?set = Some s'"
    by (simp add: register_def newServiceSet_def)
  have "registered_services ?lines = [''a.Files'']"
    by (simp add: genService_reads) (simp add: example_pg_service_def)
  moreover have "?m \<in> set (unary_methods ?s)" "m_Name ?m \<notin> m_GoName ` set (stream_methods ?s)"
    "m_Name ?m = ''get_item''" "m_Name ?m \<notin> m_GoName ` set (unary_methods ?s)"
    by (simp_all add: parts)
  ultimately have "fst (handle (\<lambda>c n. n) 0 s' background ?req example_store) =
      HandleError (StatusError (Status Unimplemented (''method '' @ ''get_item'')))"
    using generated_unary_calls_by_proto_name [OF example_names_ok refl _ s', where m = ?m and req = ?req
        and grow = "\<lambda>c n. n" and now = 0 and ctx = background and heap = example_store]
    by simp
  with s' show ?thesis by simp
qed

section \<open>Declared names\<close>

text \<open>The name that a printed line declares at the top level of the file: a type, or a function.\<close>

definition declared :: "string \<Rightarrow> string option" where
  "declared s =
     (let n =
        (if take 5 s = ''type '' then takeWhile (\<lambda>c. c \<noteq> CHR '' '') (drop 5 s)
         else if take 5 s = ''func '' then takeWhile (\<lambda>c. c \<noteq> CHR ''('') (drop 5 s)
         else [])
      in if n = [] then None else Some n)"

definition declares :: "(line \<Rightarrow> string) \<Rightarrow> line list \<Rightarrow> string list" where
  "declares pr = read_lines (\<lambda>l. declared (pr l))"

lemma declares_simps [simp]:
  "declares pr [] = []"
  "declares pr (l # ls) = (case declared (pr l) of None \<Rightarrow> [] | Some x \<Rightarrow> [x]) @ declares pr ls"
  "declares pr (ls @ ks) = declares pr ls @ declares pr ks"
  by (simp_all add: declares_def)

lemma ident_takeWhile:
  assumes "ident_ok a"
  shows "takeWhile (\<lambda>c. c \<noteq> CHR '' '') (a @ b) = a @ takeWhile (\<lambda>c. c \<noteq> CHR '' '') b"
    "takeWhile (\<lambda>c. c \<noteq> CHR ''('') (a @ b) = a @ takeWhile (\<lambda>c. c \<noteq> CHR ''('') b"
  using assms by (auto simp: ident_ok_def intro!: takeWhile_append2)

lemma take_not_keyword:
  assumes "CHR '' '' \<notin> set n" and "c \<notin> set w" and "length w = 5" and "w ! 4 = CHR '' ''"
  shows "take 5 (n @ c # r) \<noteq> w"
proof
  assume w: "take 5 (n @ c # r) = w"
  show False
  proof (cases "length n < 5")
    case True
    then have "take 5 (n @ c # r) ! length n = c" by (simp del: take_append)
    with True assms(2,3) w show False by (metis nth_mem)
  next
    case False
    then have "take 5 (n @ c # r) ! 4 = n ! 4" by (simp add: nth_append del: take_append)
    moreover have "4 < length n" using False by simp
    ultimately show False using assms(1,4) w by (metis nth_mem)
  qed
qed

lemma declared_ident:
  assumes "ident_ok n" and "c = CHR ''('' \<or> c = CHR 0x0A"
  shows "declared (n @ c # r) = None"
proof -
  have "take 5 (n @ c # r) \<noteq> ''type ''" "take 5 (n @ c # r) \<noteq> ''func ''"
    by (rule take_not_keyword; use assms in \<open>auto simp: ident_ok_def\<close>)+
  then show ?thesis by (simp add: declared_def)
qed

lemma declares_concat:
  assumes "\<And>m. m \<in> set ms \<Longrightarrow> declares pr (g m) = h m"
  shows "declares pr (concat (map g ms)) = concat (map h ms)"
  using assms by (induction ms) auto

lemma declares_map_none:
  assumes "\<And>m. m \<in> set ms \<Longrightarrow> declared (pr (g m)) = None"
  shows "declares pr (map g ms) = []"
  using assms by (induction ms) auto

lemma interface_line_declares:
  assumes "prints q pr" and "names_ok q service" and "m \<in> set (sv_Methods service)"
  shows "declared (pr (interface_line q (newGenerator q) service m)) = None"
    "declared (pr (client_interface_line q (newGenerator q) service m)) = None"
proof -
  have "ident_ok (m_GoName m)" using assms(2,3) by (simp add: names_ok_def)
  note none = declared_ident [OF this disjI1 [OF refl]]
  show "declared (pr (interface_line q (newGenerator q) service m)) = None"
    "declared (pr (client_interface_line q (newGenerator q) service m)) = None"
    using assms(1) by (simp_all add: prints_def interface_line_def client_interface_line_def Let_def none)
qed

lemma stream_server_declares:
  assumes "prints q pr" and "names_ok q service" and "m \<in> set (sv_Methods service)"
  shows "declares pr (stream_server (newGenerator q) service m) =
    [sv_GoName service @ ''_'' @ m_GoName m @ ''Server'', structName service m ''Server'']"
proof -
  have ids: "ident_ok (m_GoName m)" "ident_ok (sv_GoName service)" "ident_ok (q i)"
    "ident_ok (strings_ToLower (sv_GoName service))" for i
    using assms(2,3) by (simp_all add: names_ok_def)
  show ?thesis
    using assms(1) by (simp add: prints_def stream_server_def structName_def Let_def
        declared_ident [OF ids(3)] declared_def [of "_ # _"] declared_def [of "[]"] ident_takeWhile ids)
qed

lemmas declared_simps = declared_def [of "_ # _"] declared_def [of "[]"] ident_takeWhile

lemma registration_declares:
  assumes "prints q pr" and "names_ok q service"
  shows "declares pr (registration (newGenerator q) service ms ss) =
    [''Register'' @ sv_GoName service @ ''Service'']"
proof -
  have id: "ident_ok (sv_GoName service)" using assms(2) by (simp add: names_ok_def)
  have "declares pr (method_entry (newGenerator q) m) = []"
    "declares pr (stream_entry (newGenerator q) service m) = []" for m
    using assms(1) by (simp_all add: prints_def method_entry_def stream_entry_def Let_def declared_simps)
  then have "declares pr (concat (map (method_entry (newGenerator q)) ms)) = []"
    "declares pr (concat (map (stream_entry (newGenerator q) service) ss)) = []"
    by (simp_all add: declares_concat [where h = "\<lambda>m. []"])
  then show ?thesis
    using assms(1) by (simp add: registration_def Let_def prints_def declared_simps id)
qed

lemma client_type_declares:
  assumes "prints q pr" and "names_ok q service"
  shows "declares pr (fst (client_interface q (newGenerator q) service ss)) =
      (if ss = [] then [] else [sv_GoName service @ ''Client''])"
    "declares pr (client_struct (newGenerator q) service c) =
      [strings_ToLower (sv_GoName service) @ ''Client'', ''New'' @ sv_GoName service @ ''Client'']"
proof -
  have ids: "ident_ok (sv_GoName service)" "ident_ok (strings_ToLower (sv_GoName service))"
    using assms(2) by (simp_all add: names_ok_def)
  have "declares pr (map (client_interface_line q (newGenerator q) service) (sv_Methods service)) = []"
    using assms by (intro declares_map_none interface_line_declares)
  then show "declares pr (fst (client_interface q (newGenerator q) service ss)) =
      (if ss = [] then [] else [sv_GoName service @ ''Client''])"
    using assms(1) by (simp add: client_interface_def Let_def prints_def declared_simps ids)
  show "declares pr (client_struct (newGenerator q) service c) =
      [strings_ToLower (sv_GoName service) @ ''Client'', ''New'' @ sv_GoName service @ ''Client'']"
    using assms(1) by (simp add: client_struct_def Let_def prints_def declared_simps ids)
qed

lemma client_method_declares:
  assumes "prints q pr" and "names_ok q service" and "m \<in> set (sv_Methods service)"
  shows "declares pr (client_method q (newGenerator q) service m) =
    (if is_stream m
     then [sv_GoName service @ ''_'' @ m_GoName m @ ''Client'', structName service m ''Client'']
     else [])"
proof -
  have ids: "ident_ok (m_GoName m)" "ident_ok (sv_GoName service)" "ident_ok (q i)"
    "ident_ok (strings_ToLower (sv_GoName service))" for i
    using assms(2,3) by (simp_all add: names_ok_def)
  have "declares pr (client_method_head q (newGenerator q) service m) = []"
    "declares pr (client_stream_open (newGenerator q) service m) = []"
    "declares pr (client_stream_methods (newGenerator q) service m) = []"
    "declares pr (client_unary_body service m) = []"
    using assms(1) by (simp_all add: prints_def client_method_head_def client_stream_open_def
        client_stream_methods_def client_unary_body_def Let_def declared_simps)
  moreover have "declares pr (client_stream_types (newGenerator q) service m) =
      [sv_GoName service @ ''_'' @ m_GoName m @ ''Client'', structName service m ''Client'']"
    using assms(1) by (simp add: prints_def client_stream_types_def structName_def Let_def
        declared_ident [OF ids(3)] declared_simps ids)
  ultimately show ?thesis by (auto simp: client_method_def is_stream_def)
qed

definition service_names :: "string \<Rightarrow> string \<Rightarrow> string list \<Rightarrow> string list" where
  "service_names S l ms =
     [S @ ''Service''] @
     concat (map (\<lambda>m. [S @ ''_'' @ m @ ''Server'', l @ m @ ''Server'']) ms) @
     [''Register'' @ S @ ''Service''] @
     (if ms = [] then [] else [S @ ''Client'']) @
     [l @ ''Client'', ''New'' @ S @ ''Client''] @
     concat (map (\<lambda>m. [S @ ''_'' @ m @ ''Client'', l @ m @ ''Client'']) ms)"

lemma genService_declares:
  assumes "prints q pr" and "names_ok q service"
  shows "declares pr (genService q (newGenerator q) service) =
    service_names (sv_GoName service) (strings_ToLower (sv_GoName service))
      (map m_GoName (stream_methods service))"
proof -
  let ?gen = "newGenerator q" and ?S = "sv_GoName service" and ?l = "strings_ToLower (sv_GoName service)"
  have id: "ident_ok ?S" using assms(2) by (simp add: names_ok_def)
  have "declares pr (map (interface_line q ?gen service) (sv_Methods service)) = []"
    using assms by (intro declares_map_none interface_line_declares)
  moreover have "declares pr (concat (map (stream_server ?gen service) (stream_methods service))) =
      concat (map (\<lambda>m. [?S @ ''_'' @ m_GoName m @ ''Server'', ?l @ m_GoName m @ ''Server''])
        (stream_methods service))"
    by (rule declares_concat)
      (simp add: stream_server_declares [OF assms] set_unary_stream structName_def)
  moreover have "declares pr (concat (map (client_method q ?gen service) (sv_Methods service))) =
      concat (map (\<lambda>m. if is_stream m
        then [?S @ ''_'' @ m_GoName m @ ''Client'', ?l @ m_GoName m @ ''Client''] else [])
        (sv_Methods service))"
    by (rule declares_concat) (simp add: client_method_declares [OF assms] structName_def)
  moreover have "concat (map (\<lambda>m. if is_stream m
        then [?S @ ''_'' @ m_GoName m @ ''Client'', ?l @ m_GoName m @ ''Client''] else []) ms) =
      concat (map (\<lambda>m. [?S @ ''_'' @ m_GoName m @ ''Client'', ?l @ m_GoName m @ ''Client''])
        (filter is_stream ms))" for ms
    by (induction ms) auto
  ultimately show ?thesis
    using assms(1) by (simp add: genService_lines service_names_def registration_declares [OF assms]
        client_type_declares [OF assms] comp_def)
      (simp add: prints_def declared_simps id stream_methods_def comp_def)
qed

lemma stream_names_distinct:
  assumes "distinct ms" and "length l = length S" and "l \<noteq> S \<or> ms = []"
  shows "distinct (concat (map (\<lambda>m. [S @ ''_'' @ m @ e, l @ m @ e]) ms))"
  using assms(1,3) by (induction ms) (use assms(2) in auto)

lemma new_rotation:
  assumes "''New'' @ S = S @ ''_'' @ m"
  shows False
proof -
  have "count_list (''New'' @ S) (CHR ''_'') = count_list (S @ ''_'' @ m) (CHR ''_'')"
    using assms by simp
  then show False by simp
qed

lemma service_names_distinct:
  assumes "distinct ms" and "[] \<notin> set ms" and "length l = length S" and "l \<noteq> S \<or> ms = []"
    and "S \<noteq> []" and "CHR ''N'' \<notin> set l"
  shows "distinct (service_names S l ms)"
proof -
  let ?servers = "concat (map (\<lambda>m. [S @ ''_'' @ m @ ''Server'', l @ m @ ''Server'']) ms)"
  let ?clients = "concat (map (\<lambda>m. [S @ ''_'' @ m @ ''Client'', l @ m @ ''Client'']) ms)"
  let ?client = "(if ms = [] then [] else [S @ ''Client'']) @ [l @ ''Client'', ''New'' @ S @ ''Client'']"
  have lists: "distinct ?servers" "distinct ?clients"
    using assms by (simp_all only: stream_names_distinct)
  have ends: "\<forall>n \<in> set ?servers. last n = CHR ''r''" "\<forall>n \<in> set ?clients. last n = CHR ''t''"
    "\<forall>n \<in> set ?client. last n = CHR ''t''"
    by auto
  have not_new: "''New'' @ S \<noteq> l @ x" for x
    using assms(3,5,6) by (cases l) auto
  have not_new': "CHR ''N'' # CHR ''e'' # CHR ''w'' # S @ y \<noteq> l @ x" for x y
    using assms(3,5,6) by (cases l) auto
  have c1: "distinct ?client" using assms(3,4) not_new [of "[]"] by (auto dest: not_sym)
  have c2: "set ?client \<inter> set ?clients = {}" using assms(2,3,4) not_new' new_rotation by auto
  have s1: "S @ ''Service'' \<noteq> ''Register'' @ S @ ''Service''"
    by (auto dest: arg_cong [where f = length])
  show ?thesis unfolding service_names_def using c1 c2 s1 lists ends by auto
qed

lemma upper_not_ToLower: "CHR ''N'' \<notin> set (strings_ToLower s)"
proof -
  have "lower_char CHR ''N'' = CHR ''n''" by code_simp
  then have "lower_char c \<noteq> CHR ''N''" for c
    using lower_char_other [of c] by (cases "c = CHR ''N''") auto
  then show ?thesis unfolding strings_ToLower_def by (metis image_iff list.set_map)
qed

text \<open>
  The code generated for one service declares no name twice: neither the types and
  constructors of the service nor the interfaces and structs of its streams collide, unless the
  service's name has no upper case letter, which protogen never makes. Across services names can
  collide: services \<open>Foo\<close> and \<open>FOO\<close> both declare \<open>fooClient\<close>.
\<close>

lemma generated_names_distinct:
  assumes "prints q pr" and "names_ok q service"
    and "distinct (map m_GoName (sv_Methods service))"
    and "strings_ToLower (sv_GoName service) \<noteq> sv_GoName service"
  shows "distinct (declares pr (genService q (newGenerator q) service))"
  unfolding genService_declares [OF assms(1,2)]
proof (rule service_names_distinct)
  show "[] \<notin> set (map m_GoName (stream_methods service))"
    using assms(2) by (force simp: names_ok_def ident_ok_def set_unary_stream)
  show "sv_GoName service \<noteq> []" using assms(2) by (simp add: names_ok_def ident_ok_def)
  show "length (strings_ToLower (sv_GoName service)) = length (sv_GoName service)"
    by (simp add: strings_ToLower_def)
qed (use assms(3,4) distinct_go_names upper_not_ToLower in simp_all)

lemma generated_names_distinct_witness:
  "distinct (declares example_pr
      (genService example_q (newGenerator example_q) (example_pg_service ''Files'' ''a.Files''))) \<and>
    length (declares example_pr
      (genService example_q (newGenerator example_q) (example_pg_service ''Files'' ''a.Files''))) = 13 \<and>
    ''fooClient'' \<in> set (declares example_pr
      (genService example_q (newGenerator example_q) (example_pg_service ''Foo'' ''a.Foo''))) \<and>
    ''fooClient'' \<in> set (declares example_pr
      (genService example_q (newGenerator example_q) (example_pg_service ''FOO'' ''a.FOO'')))"
proof -
  have pr: "prints example_q example_pr" by (simp add: prints_def example_pr_def)
  have lower: "strings_ToLower ''Files'' = ''files''" "strings_ToLower ''Foo'' = ''foo''"
    "strings_ToLower ''FOO'' = ''foo''"
    by code_simp+
  have "names_ok example_q (example_pg_service ''Foo'' ''a.Foo'')"
    "names_ok example_q (example_pg_service ''FOO'' ''a.FOO'')"
    by (auto simp: names_ok_def example_q_def ident_ok_def example_pg_service_def example_pg_method_def)
  note clash = this [THEN genService_declares [OF pr]]
  have "distinct (declares example_pr
      (genService example_q (newGenerator example_q) (example_pg_service ''Files'' ''a.Files'')))"
    by (rule generated_names_distinct [OF pr example_names_ok])
      (simp_all add: example_pg_service_def example_pg_method_def lower)
  then show ?thesis
    unfolding clash genService_declares [OF pr example_names_ok]
    by (simp add: service_names_def example_pg_service_def example_pg_method_def stream_methods_def
        is_stream_def lower)
qed

end
